(* ===== verification/Sim_Prelude.thy ===== *)
theory Sim_Prelude
  imports Main "HOL-Library.Word" "HOL-Library.Multiset"
begin

text \<open>
  The vocabulary every other theory shares: the outcome of a C++ call that may abort
  (\<open>fault\<close>), sequencing of such calls (\<open>bindE\<close>), byte memory addressed by pointers
  (\<open>load\<close>, \<open>store\<close>), the positions the sorted-range algorithms of the C++ standard
  library return, and the generic lemmas on them. The error codes are the ones the
  sources compare or assign (\<open>boost::asio::error\<close>, \<open>boost::system::errc\<close>).
\<close>

section \<open>Error codes and aborting calls\<close>

datatype error_code =
    success
  | operation_aborted
  | eof
  | would_block
  | bad_descriptor
  | not_connected
  | connection_refused
  | connection_reset
  | address_in_use
  | access_denied
  | address_family_not_supported
  | address_not_available
  | invalid_argument
  | message_size
  | host_not_found
  | invalid_address
  | not_found

text \<open>
  What a call can do beside returning: a failed \<open>assert\<close>, an operation the language
  leaves undefined (dereferencing a null pointer, dividing by zero, \<open>front()\<close> of an empty
  container), an exception, a loop that never ends, or, in the model only, running out of the
  fuel that bounds recursion through the network.
\<close>

datatype fault =
    Assertion_failed
  | Undefined_behaviour
  | Thrown error_code
  | Bad_address_cast
  | Runtime_error string
  | Logic_error string
  | Diverges
  | Out_of_fuel

definition bindE :: "fault + 'a \<Rightarrow> ('a \<Rightarrow> fault + 'b) \<Rightarrow> fault + 'b" where
  "bindE r f = (case r of Inl e \<Rightarrow> Inl e | Inr x \<Rightarrow> f x)"

lemma bindE_simps [simp]:
  "bindE (Inr x) f = f x"
  "bindE (Inl e) f = Inl e"
  by (simp_all add: bindE_def)

lemma bindE_cong [fundef_cong]:
  "r = r' \<Longrightarrow> (\<And>x. r' = Inr x \<Longrightarrow> f x = g x) \<Longrightarrow> bindE r f = bindE r' g"
  by (auto simp: bindE_def split: sum.splits)

lemma bindE_eq_Inr: "bindE r f = Inr y \<longleftrightarrow> (\<exists>x. r = Inr x \<and> f x = Inr y)"
  by (auto simp: bindE_def split: sum.splits)

lemma bindE_eq_Inl: "bindE r f = Inl e \<longleftrightarrow> r = Inl e \<or> (\<exists>x. r = Inr x \<and> f x = Inl e)"
  by (auto simp: bindE_def split: sum.splits)

lemma bindE_assoc: "bindE (bindE r f) g = bindE r (\<lambda>x. bindE (f x) g)"
  by (auto simp: bindE_def split: sum.splits)

lemma bindE_InrE [elim!]:
  assumes "bindE r f = Inr y"
  obtains x where "r = Inr x" and "f x = Inr y"
  using assms by (auto simp: bindE_eq_Inr)

text \<open>\<open>assert(c)\<close>, and a check whose failure is undefined behaviour.\<close>

definition assertE :: "bool \<Rightarrow> fault + unit" where
  "assertE c = (if c then Inr () else Inl Assertion_failed)"

lemma assertE_eq_Inr [simp]: "assertE c = Inr u \<longleftrightarrow> c"
  by (simp add: assertE_def)

lemma assertE_simps [simp]: "assertE True = Inr ()" "assertE False = Inl Assertion_failed"
  by (simp_all add: assertE_def)

definition derefE :: "'a option \<Rightarrow> fault + 'a" where
  "derefE x = (case x of None \<Rightarrow> Inl Undefined_behaviour | Some y \<Rightarrow> Inr y)"

lemma derefE_eq_Inr [simp]: "derefE x = Inr y \<longleftrightarrow> x = Some y"
  by (auto simp: derefE_def split: option.splits)

lemma derefE_simps [simp]: "derefE (Some y) = Inr y" "derefE None = Inl Undefined_behaviour"
  by (simp_all add: derefE_def)

text \<open>A call for each element of a list in turn, up to the first that fails.\<close>

fun eachE :: "('a \<Rightarrow> 's \<Rightarrow> fault + 's) \<Rightarrow> 'a list \<Rightarrow> 's \<Rightarrow> fault + 's" where
  "eachE f [] s = Inr s"
| "eachE f (x # xs) s = bindE (f x s) (eachE f xs)"

lemma eachE_inv:
  assumes "\<And>x s s'. x \<in> set xs \<Longrightarrow> f x s = Inr s' \<Longrightarrow> P s \<Longrightarrow> P s'"
  shows "eachE f xs s = Inr s' \<Longrightarrow> P s \<Longrightarrow> P s'"
  using assms
proof (induction xs arbitrary: s)
  case Nil
  then show ?case by simp
next
  case (Cons x xs)
  then obtain s1 where "f x s = Inr s1" "eachE f xs s1 = Inr s'" by auto
  with Cons show ?case by (metis list.set_intros)
qed

lemma eachE_total:
  assumes "\<And>x s. x \<in> set xs \<Longrightarrow> P s \<Longrightarrow> \<exists>s'. f x s = Inr s' \<and> P s'"
  shows "P s \<Longrightarrow> \<exists>s'. eachE f xs s = Inr s' \<and> P s'"
  using assms
proof (induction xs arbitrary: s)
  case Nil
  then show ?case by simp
next
  case (Cons x xs)
  obtain s1 where "f x s = Inr s1" "P s1" using Cons.prems(2) [of x s] Cons.prems(1) by auto
  moreover have "\<exists>s'. eachE f xs s1 = Inr s' \<and> P s'"
    using Cons.IH [OF \<open>P s1\<close>] Cons.prems(2) by simp
  ultimately show ?case by auto
qed

section \<open>Bytes and memory\<close>

type_synonym byte = "8 word"
type_synonym memory = "nat \<Rightarrow> byte"

text \<open>An asio buffer is a pointer and a size; it does not own the bytes.\<close>

type_synonym buffer = "nat \<times> nat"

definition load :: "memory \<Rightarrow> nat \<Rightarrow> nat \<Rightarrow> byte list" where
  "load m a n = map m [a..<a + n]"

definition store :: "memory \<Rightarrow> nat \<Rightarrow> byte list \<Rightarrow> memory" where
  "store m a bs = (\<lambda>x. if a \<le> x \<and> x < a + length bs then bs ! (x - a) else m x)"

definition buffer_size :: "buffer list \<Rightarrow> nat" where
  "buffer_size bufs = sum_list (map snd bufs)"

lemma length_load [simp]: "length (load m a n) = n"
  by (simp add: load_def)

lemma load_0 [simp]: "load m a 0 = []"
  by (simp add: load_def)

lemma store_Nil [simp]: "store m a [] = m"
  by (rule ext) (auto simp: store_def)

lemma load_store_same [simp]: "load (store m a bs) a (length bs) = bs"
  by (rule nth_equalityI) (auto simp: load_def store_def)

lemma load_store_disjoint:
  "a + n \<le> b \<or> b + length bs \<le> a \<Longrightarrow> load (store m b bs) a n = load m a n"
  by (auto simp: load_def store_def)

lemma load_append: "load m a (n + k) = load m a n @ load m (a + n) k"
proof -
  have "[a..<a + (n + k)] = [a..<a + n] @ [a + n..<a + n + k]"
    using upt_add_eq_append [of a "a + n" k] by (simp add: add.assoc)
  then show ?thesis by (simp add: load_def)
qed

section \<open>Unsigned shorts\<close>

lemma unat16_bound: "unat (p :: 16 word) < 65536"
  using unsigned_less [of p] by simp

lemma unat16_suc: "unat ((p :: 16 word) + 1) = (if p = 65535 then 0 else unat p + 1)"
proof -
  have "unat (p + 1) = (unat p + 1) mod 65536"
    by (simp add: unat_word_ariths)
  moreover have "p = 65535 \<longleftrightarrow> unat p = 65535"
    by (simp add: word_unat_eq_iff)
  ultimately show ?thesis
    using unat16_bound [of p] by auto
qed

lemma unat16_less:
  "65530 < (p :: 16 word) \<longleftrightarrow> 65530 < unat p"
  "65534 < (p :: 16 word) \<longleftrightarrow> 65534 < unat p"
  "(p :: 16 word) < 1024 \<longleftrightarrow> unat p < 1024"
  "2000 \<le> (p :: 16 word) \<longleftrightarrow> 2000 \<le> unat p"
  "(p :: 16 word) \<le> 65534 \<longleftrightarrow> unat p \<le> 65534"
  "(p :: 16 word) \<le> 65530 \<longleftrightarrow> unat p \<le> 65530"
  by (simp_all add: word_less_nat_alt word_le_nat_alt)

section \<open>Integer division of C++\<close>

text \<open>Division of \<open>int\<close> truncates towards zero.\<close>

definition cdiv :: "int \<Rightarrow> int \<Rightarrow> int" where
  "cdiv a b = sgn a * sgn b * (\<bar>a\<bar> div \<bar>b\<bar>)"

lemma cdiv_nonneg: "0 \<le> a \<Longrightarrow> 0 < b \<Longrightarrow> cdiv a b = a div b"
  by (cases "a = 0") (simp_all add: cdiv_def)

section \<open>Sorted ranges\<close>

text \<open>
  \<open>std::lower_bound\<close> and \<open>std::upper_bound\<close> on a range partitioned by the comparison:
  the prefix before the returned position, and the rest.
\<close>

definition before_upper :: "('a \<Rightarrow> int) \<Rightarrow> int \<Rightarrow> 'a list \<Rightarrow> 'a list" where
  "before_upper key v xs = takeWhile (\<lambda>x. \<not> v < key x) xs"

definition from_upper :: "('a \<Rightarrow> int) \<Rightarrow> int \<Rightarrow> 'a list \<Rightarrow> 'a list" where
  "from_upper key v xs = dropWhile (\<lambda>x. \<not> v < key x) xs"

definition before_lower :: "('a \<Rightarrow> int) \<Rightarrow> int \<Rightarrow> 'a list \<Rightarrow> 'a list" where
  "before_lower key v xs = takeWhile (\<lambda>x. key x < v) xs"

definition from_lower :: "('a \<Rightarrow> int) \<Rightarrow> int \<Rightarrow> 'a list \<Rightarrow> 'a list" where
  "from_lower key v xs = dropWhile (\<lambda>x. key x < v) xs"

lemma before_from_upper [simp]: "before_upper key v xs @ from_upper key v xs = xs"
  by (simp add: before_upper_def from_upper_def)

lemma before_from_lower [simp]: "before_lower key v xs @ from_lower key v xs = xs"
  by (simp add: before_lower_def from_lower_def)

lemma set_before_upper: "sorted (map key xs) \<Longrightarrow> set (before_upper key v xs) = {x \<in> set xs. key x \<le> v}"
  unfolding before_upper_def by (induction xs) auto

lemma set_from_upper: "sorted (map key xs) \<Longrightarrow> set (from_upper key v xs) = {x \<in> set xs. v < key x}"
  unfolding from_upper_def by (induction xs) auto

lemma before_upper_eq_filter:
  "sorted (map key xs) \<Longrightarrow> before_upper key v xs = filter (\<lambda>x. key x \<le> v) xs"
  unfolding before_upper_def
proof (induction xs)
  case Nil
  then show ?case by simp
next
  case (Cons x xs)
  show ?case
  proof (cases "key x \<le> v")
    case True
    with Cons show ?thesis by (simp add: not_less)
  next
    case False
    with Cons.prems have "filter (\<lambda>x. key x \<le> v) xs = []"
      by (auto simp: filter_empty_conv)
    with False show ?thesis by simp
  qed
qed

lemma from_upper_eq_filter:
  "sorted (map key xs) \<Longrightarrow> from_upper key v xs = filter (\<lambda>x. v < key x) xs"
  unfolding from_upper_def
proof (induction xs)
  case Nil
  then show ?case by simp
next
  case (Cons x xs)
  show ?case
  proof (cases "key x \<le> v")
    case True
    with Cons show ?thesis by (simp add: not_less)
  next
    case False
    with Cons.prems have "filter (\<lambda>x. v < key x) xs = xs"
      by (auto simp: filter_id_conv)
    with False show ?thesis by simp
  qed
qed

lemma equal_range_eq_filter:
  assumes "sorted (map key xs)"
  shows "before_upper key v (from_lower key v xs) = filter (\<lambda>x. key x = v) xs"
  using assms
proof (induction xs)
  case Nil
  then show ?case by (simp add: before_upper_def from_lower_def)
next
  case (Cons x xs)
  show ?case
  proof (cases "key x < v")
    case True
    with Cons show ?thesis by (simp add: from_lower_def)
  next
    case False
    with Cons.prems have "from_lower key v (x # xs) = x # xs"
      by (simp add: from_lower_def)
    moreover have "before_upper key v (x # xs) = filter (\<lambda>y. key y \<le> v) (x # xs)"
      using Cons.prems by (rule before_upper_eq_filter)
    moreover have "filter (\<lambda>y. key y \<le> v) (x # xs) = filter (\<lambda>y. key y = v) (x # xs)"
      using False Cons.prems by (intro filter_cong) auto
    ultimately show ?thesis by simp
  qed
qed

lemma upper_insert_sorted:
  assumes "sorted (map key xs)" and "key x = v"
  shows "sorted (map key (before_upper key v xs @ x # from_upper key v xs))"
  using assms by (auto simp: before_upper_eq_filter from_upper_eq_filter sorted_append sorted_filter)

lemma upper_map:
  assumes "\<And>x. x \<in> set xs \<Longrightarrow> key (f x) = key' x"
  shows "before_upper key v (map f xs) = map f (before_upper key' v xs)"
    and "from_upper key v (map f xs) = map f (from_upper key' v xs)"
  using assms by (induction xs) (auto simp: before_upper_def from_upper_def)

text \<open>Insertion at the upper bound is insertion into a stable sort.\<close>

lemma sort_key_snoc:
  "sort_key key (xs @ [x]) =
    before_upper key (key x) (sort_key key xs) @ x # from_upper key (key x) (sort_key key xs)"
    (is "_ = ?ys")
proof (rule properties_for_sort_key)
  have eqs: "before_upper key (key x) (sort_key key xs) = filter (\<lambda>y. key y \<le> key x) (sort_key key xs)"
    "from_upper key (key x) (sort_key key xs) = filter (\<lambda>y. key x < key y) (sort_key key xs)"
    by (simp_all add: before_upper_eq_filter from_upper_eq_filter)
  have "mset ?ys = add_mset x (mset (before_upper key (key x) (sort_key key xs) @
      from_upper key (key x) (sort_key key xs)))"
    by (simp only: mset_append mset.simps union_mset_add_mset_right)
  then show "mset ?ys = mset (xs @ [x])"
    by simp
  show "sorted (map key ?ys)"
    by (rule upper_insert_sorted) simp_all
  fix k
  have st: "filter (\<lambda>y. key k = key y) (sort_key key xs) = filter (\<lambda>y. key k = key y) xs"
    using sort_key_stable [of key "key k" xs] by (simp add: eq_commute)
  have lo: "filter (\<lambda>y. key k = key y) (filter (\<lambda>y. key y \<le> key x) zs) =
      (if key k \<le> key x then filter (\<lambda>y. key k = key y) zs else [])"
    and hi: "filter (\<lambda>y. key k = key y) (filter (\<lambda>y. key x < key y) zs) =
      (if key x < key k then filter (\<lambda>y. key k = key y) zs else [])" for zs
    by (induction zs) auto
  show "filter (\<lambda>y. key k = key y) ?ys = filter (\<lambda>y. key k = key y) (xs @ [x])"
    unfolding eqs filter_append filter.simps lo hi st by simp
qed

end
