(* ===== verification/Timers.thy ===== *)
theory Timers
  imports Sim_Prelude
begin

text \<open>
  The simulated clock (\<open>high_resolution_clock.cpp\<close>), the timer class
  (\<open>high_resolution_timer.cpp\<close>) and the part of \<open>simulation\<close> that owns the timers
  and the message queue (\<open>simulation.cpp\<close>: \<open>add_timer\<close>, \<open>remove_timer\<close>, the firing
  loop inside \<open>run\<close>). The type \<open>'t\<close> names timer objects, \<open>'j\<close> is the type of the
  nullary function objects posted to the message queue. A timer's handler is a function
  from the error code it is called with; \<open>std::bind(h, ec)\<close> is its application.
  Every io_context posts to the one message queue of the simulation, so a timer's
  \<open>m_io_service\<close> is not recorded.
\<close>

section \<open>State\<close>

record 'j timer =
  m_expiration_time :: int
  m_handler :: "(error_code \<Rightarrow> 'j) option"
  m_expired :: bool

record ('t, 'j) sched =
  g_simulation_time :: int
  timers :: "'t \<Rightarrow> 'j timer"
  m_timer_queue :: "'t list"
  m_service :: "'j list"
  m_stopped :: bool

definition set_timer :: "'t \<Rightarrow> 'j timer \<Rightarrow> ('t, 'j) sched \<Rightarrow> ('t, 'j) sched" where
  "set_timer t x s = s\<lparr>timers := (timers s)(t := x)\<rparr>"

section \<open>The clock\<close>

definition now :: "('t, 'j) sched \<Rightarrow> int" where
  "now s = g_simulation_time s"

definition fast_forward :: "int \<Rightarrow> ('t, 'j) sched \<Rightarrow> ('t, 'j) sched" where
  "fast_forward d s = s\<lparr>g_simulation_time := g_simulation_time s + d\<rparr>"

definition reset_clock :: "('t, 'j) sched \<Rightarrow> ('t, 'j) sched" where
  "reset_clock s = s\<lparr>g_simulation_time := 0\<rparr>"

section \<open>The message queue and the timer queue\<close>

definition post :: "'j \<Rightarrow> ('t, 'j) sched \<Rightarrow> ('t, 'j) sched" where
  "post j s = s\<lparr>m_service := m_service s @ [j]\<rparr>"

definition expiry :: "('t, 'j) sched \<Rightarrow> 't \<Rightarrow> int" where
  "expiry s t = m_expiration_time (timers s t)"

text \<open>
  \<open>simulation::add_timer\<close>: \<open>assert(!m_stopped)\<close>, then insertion at
  \<open>std::upper_bound\<close> under \<open>timer_compare\<close>. The warning on \<open>stderr\<close> is not modelled.
\<close>

definition add_timer :: "'t \<Rightarrow> ('t, 'j) sched \<Rightarrow> fault + ('t, 'j) sched" where
  "add_timer t s =
    bindE (assertE (\<not> m_stopped s)) (\<lambda>_.
    Inr (s\<lparr>m_timer_queue :=
      before_upper (expiry s) (expiry s t) (m_timer_queue s) @ t #
      from_upper (expiry s) (expiry s t) (m_timer_queue s)\<rparr>))"

text \<open>\<open>simulation::remove_timer\<close>: the \<open>std::equal_range\<close> of the timer's expiry is searched
  for the timer itself.\<close>

definition remove_timer :: "'t \<Rightarrow> ('t, 'j) sched \<Rightarrow> ('t, 'j) sched" where
  "remove_timer t s =
    (let q = m_timer_queue s; v = expiry s t;
         lower = before_lower (expiry s) v q;
         range = before_upper (expiry s) v (from_lower (expiry s) v q);
         upper = from_upper (expiry s) v (from_lower (expiry s) v q)
     in if q = [] then s
        else if range = [] then s
        else if t \<notin> set range then s
        else s\<lparr>m_timer_queue := lower @ remove1 t range @ upper\<rparr>)"

section \<open>The timer class\<close>

definition new_timer :: "'j timer" where
  "new_timer = \<lparr>m_expiration_time = 0, m_handler = None, m_expired = True\<rparr>"

definition fire :: "error_code \<Rightarrow> 't \<Rightarrow> ('t, 'j) sched \<Rightarrow> ('t, 'j) sched" where
  "fire ec t s =
    (let s1 = set_timer t ((timers s t)\<lparr>m_expired := True\<rparr>) s in
     case m_handler (timers s t) of
       None \<Rightarrow> s1
     | Some h \<Rightarrow> post (h ec) (set_timer t ((timers s1 t)\<lparr>m_handler := None\<rparr>) s1))"

definition cancel :: "'t \<Rightarrow> ('t, 'j) sched \<Rightarrow> nat \<times> ('t, 'j) sched" where
  "cancel t s =
    (if m_expired (timers s t) then (0, s)
     else
       let s1 = remove_timer t (set_timer t ((timers s t)\<lparr>m_expired := True\<rparr>) s) in
       case m_handler (timers s1 t) of
         None \<Rightarrow> (0, s1)
       | Some h \<Rightarrow> (1, fire operation_aborted t s1))"

definition cancel_one :: "'t \<Rightarrow> ('t, 'j) sched \<Rightarrow> nat \<times> ('t, 'j) sched" where
  "cancel_one t s = cancel t s"

definition expires_at :: "'t \<Rightarrow> int \<Rightarrow> ('t, 'j) sched \<Rightarrow> fault + (nat \<times> ('t, 'j) sched)" where
  "expires_at t expiry_time s =
    (let (ret, s1) = cancel t s;
         s2 = set_timer t ((timers s1 t)\<lparr>m_expiration_time := expiry_time, m_expired := False\<rparr>) s1
     in bindE (add_timer t s2) (\<lambda>s3. Inr (ret, s3)))"

definition expires_after :: "'t \<Rightarrow> int \<Rightarrow> ('t, 'j) sched \<Rightarrow> fault + (nat \<times> ('t, 'j) sched)" where
  "expires_after t expiry_time s =
    (let (ret, s1) = cancel t s;
         s2 = set_timer t ((timers s1 t)\<lparr>m_expiration_time := now s1 + expiry_time,
                                         m_expired := False\<rparr>) s1
     in bindE (add_timer t s2) (\<lambda>s3. Inr (ret, s3)))"

definition async_wait :: "'t \<Rightarrow> (error_code \<Rightarrow> 'j) \<Rightarrow> ('t, 'j) sched \<Rightarrow> fault + ('t, 'j) sched" where
  "async_wait t h s =
    bindE (assertE (m_handler (timers s t) = None)) (\<lambda>_.
    let s1 = set_timer t ((timers s t)\<lparr>m_handler := Some h\<rparr>) s in
    if m_expired (timers s1 t) then Inr (fire success t s1) else Inr s1)"

text \<open>The constructors and the destructor.\<close>

definition timer_construct :: "'t \<Rightarrow> ('t, 'j) sched \<Rightarrow> ('t, 'j) sched" where
  "timer_construct t s = set_timer t new_timer s"

definition timer_construct_at :: "'t \<Rightarrow> int \<Rightarrow> ('t, 'j) sched \<Rightarrow> fault + ('t, 'j) sched" where
  "timer_construct_at t expiry_time s =
    bindE (expires_at t expiry_time (timer_construct t s)) (\<lambda>(_, s1). Inr s1)"

definition timer_construct_after :: "'t \<Rightarrow> int \<Rightarrow> ('t, 'j) sched \<Rightarrow> fault + ('t, 'j) sched" where
  "timer_construct_after t expiry_time s =
    bindE (expires_after t expiry_time (timer_construct t s)) (\<lambda>(_, s1). Inr s1)"

definition timer_destruct :: "'t \<Rightarrow> ('t, 'j) sched \<Rightarrow> ('t, 'j) sched" where
  "timer_destruct t s = snd (cancel t s)"

section \<open>Basic facts\<close>

named_theorems sched_simps \<open>frame facts of the scheduler operations\<close>

lemma set_timer_simps [simp]:
  "timers (set_timer t x s) = (timers s)(t := x)"
  "m_timer_queue (set_timer t x s) = m_timer_queue s"
  "m_service (set_timer t x s) = m_service s"
  "m_stopped (set_timer t x s) = m_stopped s"
  "g_simulation_time (set_timer t x s) = g_simulation_time s"
  by (simp_all add: set_timer_def)

lemma post_simps [simp]:
  "timers (post j s) = timers s"
  "m_timer_queue (post j s) = m_timer_queue s"
  "m_service (post j s) = m_service s @ [j]"
  "m_stopped (post j s) = m_stopped s"
  "g_simulation_time (post j s) = g_simulation_time s"
  by (simp_all add: post_def)

lemma fire_frame [sched_simps]:
  "m_timer_queue (fire ec t s) = m_timer_queue s"
  "m_stopped (fire ec t s) = m_stopped s"
  "g_simulation_time (fire ec t s) = g_simulation_time s"
  by (simp_all add: fire_def Let_def split: option.split)

lemma fire_timers [sched_simps]:
  "timers (fire ec t s) = (timers s)(t := (timers s t)\<lparr>m_handler := None, m_expired := True\<rparr>)"
  by (auto simp: fire_def Let_def fun_eq_iff split: option.split)

lemma fire_service [sched_simps]:
  "m_service (fire ec t s) =
    m_service s @ (case m_handler (timers s t) of None \<Rightarrow> [] | Some h \<Rightarrow> [h ec])"
  by (auto simp: fire_def Let_def split: option.split)

lemma expiry_fire [sched_simps]: "expiry (fire ec t s) = expiry s"
  by (auto simp: expiry_def fire_timers fun_eq_iff)

lemma remove_timer_frame [sched_simps]:
  "timers (remove_timer t s) = timers s"
  "m_service (remove_timer t s) = m_service s"
  "m_stopped (remove_timer t s) = m_stopped s"
  "g_simulation_time (remove_timer t s) = g_simulation_time s"
  "expiry (remove_timer t s) = expiry s"
  by (simp_all add: remove_timer_def Let_def expiry_def fun_eq_iff)

lemma cancel_timers [sched_simps]:
  "timers (snd (cancel t s)) = (if m_expired (timers s t) then timers s
     else (timers s)(t := (timers s t)\<lparr>m_handler := None, m_expired := True\<rparr>))"
  by (auto simp: cancel_def Let_def sched_simps fun_eq_iff split: option.split)

lemma cancel_frame [sched_simps]:
  "m_stopped (snd (cancel t s)) = m_stopped s"
  "g_simulation_time (snd (cancel t s)) = g_simulation_time s"
  "expiry (snd (cancel t s)) = expiry s"
  by (auto simp: cancel_def Let_def sched_simps expiry_def fun_eq_iff split: option.split)

lemma cancel_service [sched_simps]:
  "m_service (snd (cancel t s)) = m_service s @
     (if m_expired (timers s t) then [] else
      case m_handler (timers s t) of None \<Rightarrow> [] | Some h \<Rightarrow> [h operation_aborted])"
  by (auto simp: cancel_def Let_def sched_simps split: option.split)

lemma cancel_count:
  "fst (cancel t s) = (if \<not> m_expired (timers s t) \<and> m_handler (timers s t) \<noteq> None then 1 else 0)"
  by (auto simp: cancel_def Let_def sched_simps split: option.split)

section \<open>Firing the timers that are due\<close>

text \<open>
  The inner loop of \<open>simulation::run\<close>: while the first timer of the queue has expired, take
  it off the queue and fire it. The result counts the timers fired.
\<close>

function fire_due :: "('t, 'j) sched \<Rightarrow> nat \<times> ('t, 'j) sched" where
  "fire_due s =
    (case m_timer_queue s of
       [] \<Rightarrow> (0, s)
     | t # q \<Rightarrow>
         if expiry s t \<le> now s then
           let (n, s') = fire_due (fire success t (s\<lparr>m_timer_queue := q\<rparr>)) in (Suc n, s')
         else (0, s))"
  by pat_completeness auto
termination
  by (relation "measure (\<lambda>s. length (m_timer_queue s))") (auto simp: sched_simps)

declare fire_due.simps [simp del]

section \<open>The timer queue as a stable sort\<close>

text \<open>
  The abstract state is the list of armed timers with their expiry, in the order they were
  armed. The queue of the program is the stable sort of that list by expiry: this is what
  "a deterministic ordering of timers with the same expiration time" in \<open>add_timer\<close> promises.
\<close>

definition refines_armed :: "('t, 'j) sched \<Rightarrow> ('t \<times> int) list \<Rightarrow> bool" where
  "refines_armed s armed \<longleftrightarrow>
     m_timer_queue s = map fst (sort_key snd armed) \<and>
     distinct (map fst armed) \<and>
     (\<forall>(t, e) \<in> set armed. expiry s t = e) \<and>
     (\<forall>t. m_expired (timers s t) \<longleftrightarrow> t \<notin> fst ` set armed)"

definition wf_sched :: "('t, 'j) sched \<Rightarrow> bool" where
  "wf_sched s \<longleftrightarrow>
     sorted (map (expiry s) (m_timer_queue s)) \<and> distinct (m_timer_queue s) \<and>
     (\<forall>t. m_expired (timers s t) \<longleftrightarrow> t \<notin> set (m_timer_queue s))"

definition disarm :: "'t \<Rightarrow> ('t \<times> int) list \<Rightarrow> ('t \<times> int) list" where
  "disarm t armed = filter (\<lambda>x. fst x \<noteq> t) armed"

lemma set_disarm [simp]: "set (disarm t armed) = {x \<in> set armed. fst x \<noteq> t}"
  by (simp add: disarm_def)

lemma refines_armedD:
  assumes "refines_armed s armed"
  shows "m_timer_queue s = map fst (sort_key snd armed)"
    and "map (expiry s) (m_timer_queue s) = map snd (sort_key snd armed)"
    and "set (m_timer_queue s) = fst ` set armed"
    and "distinct (m_timer_queue s)"
proof -
  from assms show q: "m_timer_queue s = map fst (sort_key snd armed)"
    by (simp add: refines_armed_def)
  have "\<forall>x \<in> set armed. expiry s (fst x) = snd x"
    using assms by (auto simp: refines_armed_def)
  then show "map (expiry s) (m_timer_queue s) = map snd (sort_key snd armed)"
    by (simp add: q)
  show "set (m_timer_queue s) = fst ` set armed"
    by (simp add: q)
  have "mset (map fst (sort_key snd armed)) = mset (map fst armed)"
    by simp
  moreover have "distinct (map fst armed)"
    using assms by (simp add: refines_armed_def)
  ultimately show "distinct (m_timer_queue s)"
    unfolding q by (metis mset_eq_imp_distinct_iff)
qed

lemma refines_armed_wf:
  assumes "refines_armed s armed"
  shows "wf_sched s"
proof -
  have "sorted (map (expiry s) (m_timer_queue s))"
    by (simp only: refines_armedD(2) [OF assms] sorted_sort_key)
  then show ?thesis
    using assms refines_armedD(3,4) [OF assms] by (simp add: wf_sched_def refines_armed_def)
qed

lemma wf_refines_armed:
  assumes "wf_sched s"
  shows "refines_armed s (map (\<lambda>t. (t, expiry s t)) (m_timer_queue s))"
proof -
  let ?a = "map (\<lambda>t. (t, expiry s t)) (m_timer_queue s)"
  have "sorted (map snd ?a)"
    using assms by (simp add: wf_sched_def comp_def)
  then have srt: "sort_key snd ?a = ?a"
    by (intro properties_for_sort_key) simp_all
  have "map fst ?a = m_timer_queue s"
    by (simp add: comp_def)
  moreover have "fst ` set ?a = set (m_timer_queue s)"
    by (auto simp: image_image)
  ultimately show ?thesis
    using assms unfolding refines_armed_def srt wf_sched_def by auto
qed

lemma remove_timer_queue:
  assumes "sorted (map (expiry s) (m_timer_queue s))" and "distinct (m_timer_queue s)"
  shows "m_timer_queue (remove_timer t s) = filter (\<lambda>u. u \<noteq> t) (m_timer_queue s)"
proof -
  let ?q = "m_timer_queue s" and ?k = "expiry s"
  define lo where "lo = before_lower ?k (?k t) ?q"
  define ra where "ra = before_upper ?k (?k t) (from_lower ?k (?k t) ?q)"
  define up where "up = from_upper ?k (?k t) (from_lower ?k (?k t) ?q)"
  have q: "?q = lo @ ra @ up"
    by (simp add: lo_def ra_def up_def)
  have ra: "ra = filter (\<lambda>x. ?k x = ?k t) ?q"
    unfolding ra_def using assms(1) by (rule equal_range_eq_filter)
  have "filter (\<lambda>u. u \<noteq> t) ?q = remove1 t ?q"
    using assms(2) by (simp add: distinct_remove1_removeAll removeAll_filter_not_eq eq_commute)
  moreover have "remove1 t ?q = lo @ remove1 t ra @ up" if "t \<in> set ra"
  proof -
    have "t \<notin> set lo" using that assms(2) q by auto
    with that show ?thesis by (simp add: q remove1_append)
  qed
  moreover have "remove1 t ?q = ?q" if "t \<notin> set ra"
    using that ra by (simp add: remove1_idem)
  ultimately show ?thesis
    by (auto simp: remove_timer_def Let_def simp flip: lo_def ra_def up_def)
qed

lemma cancel_queue:
  assumes "wf_sched s"
  shows "m_timer_queue (snd (cancel t s)) = filter (\<lambda>u. u \<noteq> t) (m_timer_queue s)"
proof (cases "m_expired (timers s t)")
  case True
  then have "t \<notin> set (m_timer_queue s)"
    using assms by (simp add: wf_sched_def)
  then have "filter (\<lambda>u. u \<noteq> t) (m_timer_queue s) = m_timer_queue s"
    by (auto simp: filter_id_conv)
  with True show ?thesis by (simp add: cancel_def)
next
  case False
  let ?s = "set_timer t ((timers s t)\<lparr>m_expired := True\<rparr>) s"
  have "expiry ?s = expiry s"
    by (auto simp: expiry_def fun_eq_iff)
  then have "m_timer_queue (remove_timer t ?s) = filter (\<lambda>u. u \<noteq> t) (m_timer_queue ?s)"
    using assms by (intro remove_timer_queue) (simp_all add: wf_sched_def)
  with False show ?thesis
    by (auto simp: cancel_def Let_def sched_simps split: option.split)
qed

lemma cancel_refines:
  assumes "refines_armed s armed"
  shows "refines_armed (snd (cancel t s)) (disarm t armed)"
proof -
  have "filter (\<lambda>u. u \<noteq> t) (map fst (sort_key snd armed)) = map fst (sort_key snd (disarm t armed))"
    by (simp add: disarm_def filter_sort filter_map comp_def)
  moreover have "distinct (map fst (disarm t armed))"
    using assms by (simp add: refines_armed_def disarm_def distinct_map_filter)
  ultimately show ?thesis
    using assms cancel_queue [OF refines_armed_wf [OF assms], of t]
    by (auto simp: refines_armed_def sched_simps)
qed

lemma refines_armed_cong:
  assumes "m_timer_queue s' = m_timer_queue s" and "expiry s' = expiry s"
    and "\<And>t. m_expired (timers s' t) = m_expired (timers s t)"
  shows "refines_armed s' armed \<longleftrightarrow> refines_armed s armed"
  using assms by (simp add: refines_armed_def)

lemma add_timer_refines:
  assumes ref: "refines_armed s armed" and new: "m_expired (timers s t)"
    and run: "\<not> m_stopped s"
    and s2: "s2 = set_timer t (x\<lparr>m_expiration_time := e, m_expired := False\<rparr>) s"
  obtains s3 where "add_timer t s2 = Inr s3" and "refines_armed s3 (armed @ [(t, e)])"
    and "timers s3 = timers s2" and "m_service s3 = m_service s"
proof -
  let ?S = "sort_key snd armed"
  let ?q = "before_upper (expiry s2) e (m_timer_queue s) @ t # from_upper (expiry s2) e (m_timer_queue s)"
  let ?s3 = "s2\<lparr>m_timer_queue := ?q\<rparr>"
  have t_notin: "t \<notin> fst ` set armed"
    using ref new by (simp add: refines_armed_def)
  have key: "expiry s2 (fst y) = snd y" if "y \<in> set ?S" for y
    using that ref t_notin by (force simp: refines_armed_def s2 expiry_def)
  have "before_upper (expiry s2) e (map fst ?S) = map fst (before_upper snd e ?S)"
    and "from_upper (expiry s2) e (map fst ?S) = map fst (from_upper snd e ?S)"
    by (rule upper_map, erule key)+
  then have q: "?q = map fst (sort_key snd (armed @ [(t, e)]))"
    by (simp add: sort_key_snoc refines_armedD(1) [OF ref])
  have "\<forall>(u, v) \<in> set (armed @ [(t, e)]). expiry ?s3 u = v"
    using ref t_notin by (force simp: refines_armed_def s2 expiry_def)
  then have "refines_armed ?s3 (armed @ [(t, e)])"
    using ref t_notin q by (auto simp: refines_armed_def s2)
  moreover have "add_timer t s2 = Inr ?s3"
    using run by (simp add: add_timer_def s2 expiry_def)
  ultimately show ?thesis
    using that [of ?s3] by (simp add: s2)
qed

lemma expires_at_timers:
  assumes "expires_at t e s = Inr (n, s')"
  shows "timers s' = (timers s)(t := (timers s t)\<lparr>m_expiration_time := e, m_expired := False,
      m_handler := (if m_expired (timers s t) then m_handler (timers s t) else None)\<rparr>)"
    and "n = fst (cancel t s)"
    and "m_service s' = m_service (snd (cancel t s))"
    and "m_stopped s' = m_stopped s" and "g_simulation_time s' = g_simulation_time s"
  using assms
  by (auto simp: expires_at_def add_timer_def Let_def sched_simps fun_eq_iff split_beta)

lemma expires_after_eq: "expires_after t d s = expires_at t (now s + d) s"
  by (simp add: expires_after_def expires_at_def now_def sched_simps split_beta Let_def)

lemma expires_at_ok:
  assumes "refines_armed s armed" and "\<not> m_stopped s"
  obtains s' where "expires_at t e s = Inr (fst (cancel t s), s')"
    and "refines_armed s' (disarm t armed @ [(t, e)])"
proof -
  let ?s1 = "snd (cancel t s)"
  let ?s2 = "set_timer t ((timers ?s1 t)\<lparr>m_expiration_time := e, m_expired := False\<rparr>) ?s1"
  have "m_expired (timers ?s1 t)" and "\<not> m_stopped ?s1"
    using assms(2) by (simp_all add: sched_simps)
  then obtain s3 where "add_timer t ?s2 = Inr s3"
    and "refines_armed s3 (disarm t armed @ [(t, e)])"
    using add_timer_refines [where ?s2.0 = ?s2 and e = e, OF cancel_refines [OF assms(1)]] by blast
  then show ?thesis
    using that [of s3] by (simp add: expires_at_def split_beta Let_def)
qed

lemma async_wait_refines:
  assumes "async_wait t h s = Inr s'"
  shows "refines_armed s' armed \<longleftrightarrow> refines_armed s armed"
  using assms
  by (intro refines_armed_cong)
    (auto simp: async_wait_def Let_def sched_simps expiry_def fun_eq_iff assertE_def split: if_splits)

section \<open>What the firing loop does\<close>

lemma pop_disarm:
  assumes "t # q = map fst (sort_key snd armed)" and "distinct (t # q)"
  shows "q = map fst (sort_key snd (disarm t armed))"
proof (cases "sort_key snd armed")
  case Nil
  with assms show ?thesis by simp
next
  case (Cons x xs)
  with assms have "\<forall>y \<in> set xs. fst y \<noteq> t" by force
  then have "filter (\<lambda>x. fst x \<noteq> t) xs = xs" by (simp add: filter_id_conv)
  with Cons assms show ?thesis
    by (simp add: disarm_def filter_sort [symmetric])
qed

lemma fire_pop_refines:
  assumes "refines_armed s armed" and "m_timer_queue s = t # q"
  shows "refines_armed (fire ec t (s\<lparr>m_timer_queue := q\<rparr>)) (disarm t armed)"
proof -
  let ?s = "s\<lparr>m_timer_queue := q\<rparr>"
  have "t # q = map fst (sort_key snd armed)"
    using refines_armedD(1) [OF assms(1)] assms(2) by simp
  moreover have "distinct (t # q)"
    using refines_armedD(4) [OF assms(1)] assms(2) by simp
  ultimately have q: "q = map fst (sort_key snd (disarm t armed))"
    by (rule pop_disarm)
  have "expiry ?s = expiry s" and "timers ?s = timers s"
    by (simp_all add: expiry_def fun_eq_iff)
  moreover have "distinct (map fst (disarm t armed))"
    using assms(1) by (simp add: refines_armed_def disarm_def distinct_map_filter)
  ultimately show ?thesis
    using assms(1) q by (auto simp: refines_armed_def sched_simps)
qed

text \<open>The jobs posted when the timers of a list are fired, given the timers' handlers.\<close>

definition handler_jobs :: "('t, 'j) sched \<Rightarrow> error_code \<Rightarrow> 't list \<Rightarrow> 'j list" where
  "handler_jobs s ec ts =
     concat (map (\<lambda>t. case m_handler (timers s t) of None \<Rightarrow> [] | Some h \<Rightarrow> [h ec]) ts)"

lemma handler_jobs_cong:
  "(\<And>t. t \<in> set ts \<Longrightarrow> timers s t = timers s' t) \<Longrightarrow> handler_jobs s ec ts = handler_jobs s' ec ts"
  by (induction ts) (auto simp: handler_jobs_def)

lemma fire_due_frame [sched_simps]:
  "g_simulation_time (snd (fire_due s)) = g_simulation_time s \<and> m_stopped (snd (fire_due s)) = m_stopped s"
proof (induction s rule: fire_due.induct)
  case (1 s)
  then show ?case
    by (subst (1 2) fire_due.simps) (auto split: list.split simp: sched_simps split_beta Let_def)
qed

lemma fire_due_effect:
  assumes "wf_sched s"
  shows "fst (fire_due s) = length (before_upper (expiry s) (now s) (m_timer_queue s)) \<and>
    m_timer_queue (snd (fire_due s)) = from_upper (expiry s) (now s) (m_timer_queue s) \<and>
    m_service (snd (fire_due s)) = m_service s @
      handler_jobs s success (before_upper (expiry s) (now s) (m_timer_queue s)) \<and>
    wf_sched (snd (fire_due s))"
  using assms
proof (induction s rule: fire_due.induct)
  case (1 s)
  show ?case
  proof (cases "\<exists>t q. m_timer_queue s = t # q \<and> expiry s t \<le> now s")
    case False
    then have "fire_due s = (0, s)"
      by (subst fire_due.simps) (auto split: list.split)
    moreover have "before_upper (expiry s) (now s) (m_timer_queue s) = []"
      and "from_upper (expiry s) (now s) (m_timer_queue s) = m_timer_queue s"
      using False by (cases "m_timer_queue s"; auto simp: before_upper_def from_upper_def)+
    ultimately show ?thesis
      using "1.prems" by (simp add: handler_jobs_def)
  next
    case True
    then obtain t q where q: "m_timer_queue s = t # q" and due: "expiry s t \<le> now s"
      by blast
    let ?s = "fire success t (s\<lparr>m_timer_queue := q\<rparr>)"
    have wf: "wf_sched ?s"
      using fire_pop_refines [OF wf_refines_armed [OF "1.prems"] q] refines_armed_wf by blast
    have key: "expiry ?s = expiry s" "now ?s = now s" "m_timer_queue ?s = q"
      by (auto simp: expiry_def now_def sched_simps fun_eq_iff)
    have "t \<notin> set q"
      using "1.prems" q by (simp add: wf_sched_def)
    then have jobs: "handler_jobs ?s success (before_upper k v q) = handler_jobs s success (before_upper k v q)"
      for k :: "'a \<Rightarrow> int" and v
      by (intro handler_jobs_cong) (auto simp: sched_simps before_upper_def dest: set_takeWhileD)
    from due q have "fire_due s = (Suc (fst (fire_due ?s)), snd (fire_due ?s))"
      by (subst fire_due.simps) (simp add: split_beta)
    moreover have "before_upper (expiry s) (now s) (t # q) = t # before_upper (expiry s) (now s) q"
      and "from_upper (expiry s) (now s) (t # q) = from_upper (expiry s) (now s) q"
      using due by (simp_all add: before_upper_def from_upper_def)
    ultimately show ?thesis
      using "1.IH" [OF q due wf] unfolding key jobs q
      by (auto simp: sched_simps handler_jobs_def split: option.split)
  qed
qed

section \<open>The timer service as an interface\<close>

text \<open>
  What the users of the timers rely on (queues, resolvers and sockets arm and cancel timers
  through \<open>io_context\<close>): arming moves the timer to the end of the arming order, stopping
  takes it out, and the pending timers are the stable sort of that order by expiry.
\<close>

fun arm_all :: "('t \<Rightarrow> int \<Rightarrow> 's \<Rightarrow> fault + (nat \<times> 's)) \<Rightarrow> ('t \<times> int) list \<Rightarrow> 's \<Rightarrow> fault + 's" where
  "arm_all arm [] s = Inr s"
| "arm_all arm ((t, e) # ts) s = bindE (arm t e s) (\<lambda>(_, s'). arm_all arm ts s')"

locale timer_service =
  fixes rel :: "'s \<Rightarrow> ('t \<times> int) list \<Rightarrow> bool"
    and live :: "'s \<Rightarrow> bool"
    and arm :: "'t \<Rightarrow> int \<Rightarrow> 's \<Rightarrow> fault + (nat \<times> 's)"
    and stop :: "'t \<Rightarrow> 's \<Rightarrow> nat \<times> 's"
    and pending :: "'s \<Rightarrow> 't list"
  assumes rel_arm: "rel s a \<Longrightarrow> live s \<Longrightarrow>
      \<exists>n s'. arm t e s = Inr (n, s') \<and> rel s' (disarm t a @ [(t, e)]) \<and> live s'"
    and rel_stop: "rel s a \<Longrightarrow> rel (snd (stop t s)) (disarm t a)"
    and rel_pending: "rel s a \<Longrightarrow> pending s = map fst (sort_key snd a)"
begin

lemma stop_not_pending: "rel s a \<Longrightarrow> t \<notin> set (pending (snd (stop t s)))"
  by (drule rel_stop [of s a t], drule rel_pending) auto

lemma disarm_fresh: "t \<notin> fst ` set a \<Longrightarrow> disarm t a = a"
  by (auto simp: disarm_def filter_id_conv)

lemma arm_all_rel:
  "rel s a \<Longrightarrow> live s \<Longrightarrow> distinct (map fst (a @ ts)) \<Longrightarrow>
    \<exists>s'. arm_all arm ts s = Inr s' \<and> rel s' (a @ ts) \<and> live s'"
proof (induction ts arbitrary: a s)
  case Nil
  then show ?case by simp
next
  case (Cons x ts)
  obtain t e where x: "x = (t, e)" by fastforce
  with Cons.prems have "disarm t a = a"
    by (intro disarm_fresh) auto
  with rel_arm [OF Cons.prems(1,2)] obtain n s' where
    arm: "arm t e s = Inr (n, s')" and rel: "rel s' (a @ [(t, e)])" "live s'"
    by metis
  have "\<exists>s''. arm_all arm ts s' = Inr s'' \<and> rel s'' ((a @ [(t, e)]) @ ts) \<and> live s''"
    by (rule Cons.IH [OF rel]) (use Cons.prems(3) x in auto)
  then show ?case by (simp add: x arm)
qed

lemma arm_all_pending:
  assumes "rel s []" and "live s" and "distinct (map fst ts)"
  shows "\<exists>s'. arm_all arm ts s = Inr s' \<and> pending s' = map fst (sort_key snd ts)"
  using arm_all_rel [OF assms(1,2), of ts] assms(3) rel_pending by fastforce

end

interpretation ts: timer_service refines_armed "\<lambda>s. \<not> m_stopped s" expires_at cancel m_timer_queue
proof unfold_locales
  fix s a t e
  assume "refines_armed s a" and "\<not> m_stopped s"
  then obtain s' where "expires_at t e s = Inr (fst (cancel t s), s')"
    and "refines_armed s' (disarm t a @ [(t, e)])"
    by (rule expires_at_ok)
  moreover from this(1) have "\<not> m_stopped s'"
    using \<open>\<not> m_stopped s\<close> by (simp add: expires_at_timers(4))
  ultimately show "\<exists>n s'. expires_at t e s = Inr (n, s') \<and>
      refines_armed s' (disarm t a @ [(t, e)]) \<and> \<not> m_stopped s'"
    by blast
qed (simp_all add: cancel_refines refines_armedD)

section \<open>Properties\<close>

definition idle_sched :: "(nat, nat) sched" where
  "idle_sched = \<lparr>g_simulation_time = 0, timers = (\<lambda>_. new_timer), m_timer_queue = [],
    m_service = [], m_stopped = False\<rparr>"

lemma idle_refines: "refines_armed idle_sched []"
  by (simp add: idle_sched_def refines_armed_def new_timer_def)

text \<open>
  C11. Arming timers one after the other leaves the timer queue in the stable order by expiry:
  timers with the same expiry stay in the order they were armed, and no call aborts.
\<close>

theorem timers_armed_in_stable_order:
  assumes "refines_armed s []" and "\<not> m_stopped s" and "distinct (map fst ts)"
  shows "\<exists>s'. arm_all expires_at ts s = Inr s' \<and> m_timer_queue s' = map fst (sort_key snd ts)"
  using assms by (rule ts.arm_all_pending)

lemma timers_armed_in_stable_order_witness:
  "\<exists>s'. arm_all expires_at [(3, 20), (1, 10), (2, 10), (0, 5)] idle_sched = Inr s' \<and>
     m_timer_queue s' = [0, 1, 2, 3]"
proof -
  have "sort_key snd [(3::nat, 20::int), (1, 10), (2, 10), (0, 5)] = [(0, 5), (1, 10), (2, 10), (3, 20)]"
    by simp
  then show ?thesis
    using timers_armed_in_stable_order [OF idle_refines, of "[(3, 20), (1, 10), (2, 10), (0, 5)]"]
    by (simp add: idle_sched_def)
qed

text \<open>
  Rearming a timer (\<open>expires_at\<close>) never aborts while the simulation runs: the timer moves
  to the end of the arming order, a handler waiting on the old expiry is posted once with
  \<open>operation_aborted\<close> and counted in the result, and no other timer changes.
\<close>

theorem expires_at_rearms:
  assumes "refines_armed s armed" and "\<not> m_stopped s"
  shows "\<exists>n s'. expires_at t e s = Inr (n, s') \<and> refines_armed s' (disarm t armed @ [(t, e)]) \<and>
    m_service s' = m_service s @
      (if m_expired (timers s t) then [] else handler_jobs s operation_aborted [t]) \<and>
    n = (if m_expired (timers s t) then 0 else length (handler_jobs s operation_aborted [t])) \<and>
    (\<forall>u. u \<noteq> t \<longrightarrow> timers s' u = timers s u)"
proof -
  from assms obtain s' where s': "expires_at t e s = Inr (fst (cancel t s), s')"
    and ref: "refines_armed s' (disarm t armed @ [(t, e)])"
    by (rule expires_at_ok)
  have "m_service s' = m_service (snd (cancel t s))"
    using s' by (rule expires_at_timers(3))
  moreover have "fst (cancel t s) =
      (if m_expired (timers s t) then 0 else length (handler_jobs s operation_aborted [t]))"
    by (auto simp: cancel_count handler_jobs_def split: option.split)
  ultimately show ?thesis
    using s' ref expires_at_timers(1) [OF s']
    by (auto simp: sched_simps handler_jobs_def split: option.split)
qed

lemma expires_at_rearms_witness:
  "\<exists>n s'. expires_at 1 5 (idle_sched\<lparr>timers := (\<lambda>_. new_timer)(1 := \<lparr>m_expiration_time = 9,
      m_handler = Some (\<lambda>_. 7), m_expired = False\<rparr>), m_timer_queue := [1]\<rparr>) = Inr (n, s') \<and>
    m_service s' = [7] \<and> n = 1"
proof -
  let ?s = "idle_sched\<lparr>timers := (\<lambda>_. new_timer)(1 := \<lparr>m_expiration_time = 9,
      m_handler = Some (\<lambda>_. 7), m_expired = False\<rparr>), m_timer_queue := [1]\<rparr>"
  have "refines_armed ?s [(1, 9)]" and "\<not> m_stopped ?s"
    by (auto simp: refines_armed_def expiry_def idle_sched_def new_timer_def)
  from expires_at_rearms [OF this, of 1 5] show ?thesis
    by (auto simp: handler_jobs_def idle_sched_def)
qed

text \<open>
  The firing loop of \<open>run\<close> fires exactly the timers whose expiry is not after the clock, in
  the stable order by expiry, posts each waiting handler once with success, returns how many it
  fired, and leaves the others armed.
\<close>

theorem fire_due_fires_due_timers:
  assumes "refines_armed s armed"
  defines "due \<equiv> map fst (filter (\<lambda>x. snd x \<le> now s) (sort_key snd armed))"
  shows "fst (fire_due s) = length due \<and>
    m_service (snd (fire_due s)) = m_service s @ handler_jobs s success due \<and>
    m_timer_queue (snd (fire_due s)) =
      map fst (sort_key snd (filter (\<lambda>x. now s < snd x) armed)) \<and>
    wf_sched (snd (fire_due s))"
proof -
  have key: "x \<in> set (sort_key snd armed) \<Longrightarrow> expiry s (fst x) = snd x" for x
    using assms(1) by (auto simp: refines_armed_def)
  have "before_upper (expiry s) (now s) (m_timer_queue s) = due"
    and "from_upper (expiry s) (now s) (m_timer_queue s) =
      map fst (sort_key snd (filter (\<lambda>x. now s < snd x) armed))"
    unfolding refines_armedD(1) [OF assms(1)] due_def
    by (simp_all only: upper_map [where f = fst and key = "expiry s" and key' = snd, OF key]
      before_upper_eq_filter from_upper_eq_filter sorted_sort_key filter_sort)
  then show ?thesis
    using fire_due_effect [OF refines_armed_wf [OF assms(1)]] by simp
qed

lemma fire_due_fires_due_timers_witness:
  "m_service (snd (fire_due (idle_sched\<lparr>timers := (\<lambda>t. \<lparr>m_expiration_time = 0,
      m_handler = Some (\<lambda>_. t), m_expired = t \<noteq> 4 \<and> t \<noteq> 5\<rparr>), m_timer_queue := [4, 5]\<rparr>))) = [4, 5]"
proof -
  let ?s = "idle_sched\<lparr>timers := (\<lambda>t. \<lparr>m_expiration_time = 0,
      m_handler = Some (\<lambda>_. t), m_expired = t \<noteq> 4 \<and> t \<noteq> 5\<rparr>), m_timer_queue := [4, 5]\<rparr>"
  have "refines_armed ?s [(4, 0), (5, 0)]"
    by (auto simp: refines_armed_def expiry_def idle_sched_def)
  from fire_due_fires_due_timers [OF this] show ?thesis
    by (simp add: handler_jobs_def idle_sched_def now_def)
qed

end
