(* ===== verification/Ord_Map.thy ===== *)
theory Ord_Map
  imports Sim_Prelude
begin

text \<open>
  \<open>std::map\<close> as the sources use it: the entries in ascending key order, \<open>lower_bound\<close>,
  \<open>find\<close>, \<open>insert\<close> (which keeps an existing entry), assignment through \<open>operator[]\<close>
  and \<open>erase\<close>. The iteration order matters in \<open>simulation::run\<close> (sockets are cancelled in
  key order) and in the HTTP proxy (headers are forwarded in key order), so the model is the
  sorted association list, with a lookup function as its abstraction.
\<close>

type_synonym ('k, 'v) ord_map = "('k \<times> 'v) list"

definition om_invar :: "('k::linorder, 'v) ord_map \<Rightarrow> bool" where
  "om_invar m \<longleftrightarrow> sorted_wrt (<) (map fst m)"

definition om_before :: "'k::linorder \<Rightarrow> ('k, 'v) ord_map \<Rightarrow> ('k, 'v) ord_map" where
  "om_before k m = takeWhile (\<lambda>e. fst e < k) m"

definition om_lower_bound :: "'k::linorder \<Rightarrow> ('k, 'v) ord_map \<Rightarrow> ('k, 'v) ord_map" where
  "om_lower_bound k m = dropWhile (\<lambda>e. fst e < k) m"

definition om_find :: "'k::linorder \<Rightarrow> ('k, 'v) ord_map \<Rightarrow> 'v option" where
  "om_find k m =
    (case om_lower_bound k m of [] \<Rightarrow> None | e # _ \<Rightarrow> if fst e = k then Some (snd e) else None)"

definition om_insert :: "'k::linorder \<Rightarrow> 'v \<Rightarrow> ('k, 'v) ord_map \<Rightarrow> ('k, 'v) ord_map" where
  "om_insert k v m =
    (if om_find k m = None then om_before k m @ (k, v) # om_lower_bound k m else m)"

definition om_erase :: "'k::linorder \<Rightarrow> ('k, 'v) ord_map \<Rightarrow> ('k, 'v) ord_map" where
  "om_erase k m =
    (if om_find k m = None then m else om_before k m @ tl (om_lower_bound k m))"

definition om_assign :: "'k::linorder \<Rightarrow> 'v \<Rightarrow> ('k, 'v) ord_map \<Rightarrow> ('k, 'v) ord_map" where
  "om_assign k v m = om_insert k v (om_erase k m)"

section \<open>The interface\<close>

locale keyed_map =
  fixes find :: "'k \<Rightarrow> 'm \<Rightarrow> 'v option"
    and insert :: "'k \<Rightarrow> 'v \<Rightarrow> 'm \<Rightarrow> 'm"
    and erase :: "'k \<Rightarrow> 'm \<Rightarrow> 'm"
    and invar :: "'m \<Rightarrow> bool"
  assumes find_insert: "invar m \<Longrightarrow>
      find k (insert j v m) = (if k = j \<and> find j m = None then Some v else find k m)"
    and find_erase: "invar m \<Longrightarrow> find k (erase j m) = (if k = j then None else find k m)"
    and invar_insert: "invar m \<Longrightarrow> invar (insert j v m)"
    and invar_erase: "invar m \<Longrightarrow> invar (erase j m)"
begin

lemma find_insert_fresh:
  "invar m \<Longrightarrow> find j m = None \<Longrightarrow> find k (insert j v m) = (if k = j then Some v else find k m)"
  by (simp add: find_insert)

lemma erase_insert_fresh:
  "invar m \<Longrightarrow> find j m = None \<Longrightarrow> find k (erase j (insert j v m)) = find k m"
  by (simp add: find_insert find_erase invar_insert)

lemma find_assign:
  "invar m \<Longrightarrow> find k (insert j v (erase j m)) = (if k = j then Some v else find k m)"
  by (simp add: find_insert find_erase invar_erase)

lemmas laws = find_insert_fresh find_erase find_assign invar_insert invar_erase

end

section \<open>The sorted association list provides it\<close>

lemma om_split: "om_before k m @ om_lower_bound k m = m"
  by (simp add: om_before_def om_lower_bound_def)

lemma om_before_less: "e \<in> set (om_before k m) \<Longrightarrow> fst e < k"
  by (auto simp: om_before_def dest: set_takeWhileD)

lemma om_lower_bound_ge:
  assumes "om_invar m" and "e \<in> set (om_lower_bound k m)"
  shows "k \<le> fst e"
  using assms unfolding om_invar_def om_lower_bound_def
proof (induction m)
  case Nil
  then show ?case by simp
next
  case (Cons x m)
  show ?case
  proof (cases "fst x < k")
    case True
    with Cons show ?thesis by simp
  next
    case False
    with Cons.prems show ?thesis by (auto simp: less_le intro: order_trans)
  qed
qed

lemma om_find_map_of: "om_invar m \<Longrightarrow> om_find k m = map_of m k"
  unfolding om_find_def om_lower_bound_def om_invar_def
proof (induction m)
  case Nil
  then show ?case by simp
next
  case (Cons x m)
  show ?case
  proof (cases "fst x < k")
    case True
    with Cons have "map_of (x # m) k = map_of m k" by (cases x) auto
    with True Cons show ?thesis by simp
  next
    case False
    show ?thesis
    proof (cases "fst x = k")
      case True
      then show ?thesis by (cases x) simp
    next
      case neq: False
      with False Cons.prems have "\<forall>y \<in> set m. k < fst y" by auto
      then have "map_of m k = None" by (auto simp: map_of_eq_None_iff)
      with neq False show ?thesis by (cases x) auto
    qed
  qed
qed

lemma om_invar_split:
  "om_invar (om_before k m @ (k, v) # xs) \<longleftrightarrow>
    om_invar (om_before k m) \<and> om_invar xs \<and> (\<forall>e \<in> set xs. k < fst e)"
  by (auto simp: om_invar_def sorted_wrt_append dest: om_before_less intro: less_trans)

lemma om_invar_parts:
  assumes "om_invar m"
  shows "om_invar (om_before k m)" and "om_invar (om_lower_bound k m)"
    and "\<forall>e \<in> set (tl (om_lower_bound k m)). k < fst e"
proof -
  have "om_invar (om_before k m @ om_lower_bound k m)"
    using assms by (simp add: om_split)
  then show "om_invar (om_before k m)" and lb: "om_invar (om_lower_bound k m)"
    by (simp_all add: om_invar_def sorted_wrt_append)
  show "\<forall>e \<in> set (tl (om_lower_bound k m)). k < fst e"
  proof (cases "om_lower_bound k m")
    case (Cons x xs)
    with om_lower_bound_ge [OF assms, of x k] lb show ?thesis
      by (auto simp: om_invar_def)
  qed simp
qed

lemma om_find_None_lower:
  assumes "om_invar m" and "om_find k m = None"
  shows "\<forall>e \<in> set (om_lower_bound k m). k < fst e"
proof -
  have "fst e \<noteq> k" if "e \<in> set (om_lower_bound k m)" for e
  proof
    assume "fst e = k"
    moreover have "e \<in> set m" using that by (metis om_split UnCI set_append)
    ultimately have "map_of m k \<noteq> None" by (metis map_of_eq_None_iff image_eqI)
    then show False using assms by (simp add: om_find_map_of)
  qed
  then show ?thesis
    using om_lower_bound_ge [OF assms(1)] by (force simp: less_le)
qed

lemma om_invar_insert: "om_invar m \<Longrightarrow> om_invar (om_insert k v m)"
  by (simp add: om_insert_def om_invar_split om_invar_parts om_find_None_lower)

lemma om_find_Some_split:
  assumes "om_find k m = Some v"
  shows "m = om_before k m @ (k, v) # tl (om_lower_bound k m)"
proof -
  from assms have "om_lower_bound k m = (k, v) # tl (om_lower_bound k m)"
    by (auto simp: om_find_def split: list.splits if_splits)
  then show ?thesis by (metis om_split)
qed

lemma om_invar_erase: "om_invar m \<Longrightarrow> om_invar (om_erase k m)"
proof (cases "om_find k m")
  case (Some v)
  assume "om_invar m"
  then have "om_invar (om_before k m @ (k, v) # tl (om_lower_bound k m))"
    using om_find_Some_split [OF Some] by simp
  then show ?thesis
    using Some by (auto simp: om_erase_def om_invar_def sorted_wrt_append)
qed (simp add: om_erase_def)

lemma om_find_insert:
  assumes "om_invar m"
  shows "om_find k (om_insert j v m) = (if k = j \<and> om_find j m = None then Some v else om_find k m)"
proof (cases "om_find j m")
  case None
  have "map_of (om_before j m @ (j, v) # om_lower_bound j m) k = (if k = j then Some v else map_of m k)"
  proof (cases "k = j")
    case True
    have "map_of (om_before j m) j = None"
      by (auto simp: map_of_eq_None_iff dest: om_before_less)
    with True show ?thesis by (simp add: map_add_def)
  next
    case False
    have "map_of m k = map_of (om_before j m @ om_lower_bound j m) k"
      by (simp add: om_split)
    with False show ?thesis by (simp add: map_add_def split: option.split)
  qed
  moreover have "om_insert j v m = om_before j m @ (j, v) # om_lower_bound j m"
    using None by (simp add: om_insert_def)
  ultimately show ?thesis
    using None om_invar_insert [OF assms, of j v] assms by (metis om_find_map_of)
qed (simp add: om_insert_def)

lemma om_find_erase:
  assumes "om_invar m"
  shows "om_find k (om_erase j m) = (if k = j then None else om_find k m)"
proof (cases "om_find j m")
  case None
  then show ?thesis by (simp add: om_erase_def)
next
  case (Some v)
  let ?a = "om_before j m" and ?b = "tl (om_lower_bound j m)"
  have m: "m = ?a @ (j, v) # ?b"
    using Some by (rule om_find_Some_split)
  have e: "om_erase j m = ?a @ ?b"
    using Some by (simp add: om_erase_def)
  have "\<forall>e \<in> set (?a @ ?b). fst e \<noteq> j"
    using om_invar_parts(3) [OF assms, of j] by (auto dest: om_before_less)
  then have "map_of (?a @ ?b) j = None"
    by (force simp only: map_of_eq_None_iff)
  moreover have "map_of (?a @ ?b) k = map_of m k" if "k \<noteq> j"
    using that by (subst m) (simp add: map_add_def split: option.split)
  ultimately show ?thesis
    using om_invar_erase [OF assms, of j]
    by (cases "k = j") (simp_all add: om_find_map_of assms e)
qed

interpretation om: keyed_map om_find om_insert om_erase om_invar
  by unfold_locales (simp_all add: om_find_insert om_find_erase om_invar_insert om_invar_erase)

lemma om_invar_Nil [simp]: "om_invar []"
  by (simp add: om_invar_def)

lemma om_find_Nil [simp]: "om_find k [] = None"
  by (simp add: om_find_def om_lower_bound_def)

lemma om_invar_assign: "om_invar m \<Longrightarrow> om_invar (om_assign k v m)"
  by (simp add: om_assign_def om.invar_insert om.invar_erase)

lemma om_find_assign: "om_invar m \<Longrightarrow> om_find k (om_assign j v m) = (if k = j then Some v else om_find k m)"
  by (simp add: om_assign_def om.find_assign)

end
