(* ===== verification/Net_Types.thy ===== *)
theory Net_Types
  imports Ord_Map
begin

text \<open>
  The data that travels through the simulated network: addresses and endpoints, packets
  (\<open>packet.hpp\<close>), routes, and the channel shared by the two ends of a TCP connection
  (\<open>simulator.hpp\<close>, \<open>simulator.cpp\<close>). Objects held by pointer are named by numbers: a
  queue, a sink forwarder, a socket or a channel is its number, and the world record
  (theory \<open>World\<close>) maps the number to the object's state.
\<close>

section \<open>Addresses and endpoints\<close>

datatype address = V4 "32 word" | V6 "128 word"

definition is_v4 :: "address \<Rightarrow> bool" where
  "is_v4 a = (case a of V4 _ \<Rightarrow> True | V6 _ \<Rightarrow> False)"

definition is_v6 :: "address \<Rightarrow> bool" where
  "is_v6 a = (case a of V4 _ \<Rightarrow> False | V6 _ \<Rightarrow> True)"

lemma is_v4_simps [simp]: "is_v4 (V4 x)" "\<not> is_v4 (V6 y)" "\<not> is_v6 (V4 x)" "is_v6 (V6 y)"
  by (simp_all add: is_v4_def is_v6_def)

text \<open>\<open>ip::address()\<close>, which is also \<open>address_v4::any()\<close>, and \<open>address_v6::any()\<close>.\<close>

definition default_address :: address where
  "default_address = V4 0"

definition any_v4 :: address where
  "any_v4 = V4 0"

definition any_v6 :: address where
  "any_v6 = V6 0"

datatype endpoint = Endpoint (ep_address: address) (ep_port: "16 word")

definition default_endpoint :: endpoint where
  "default_endpoint = Endpoint default_address 0"

definition set_address :: "address \<Rightarrow> endpoint \<Rightarrow> endpoint" where
  "set_address a ep = Endpoint a (ep_port ep)"

definition set_port :: "16 word \<Rightarrow> endpoint \<Rightarrow> endpoint" where
  "set_port p ep = Endpoint (ep_address ep) p"

lemma endpoint_sel [simp]:
  "ep_address (set_address a ep) = a" "ep_port (set_address a ep) = ep_port ep"
  "ep_address (set_port p ep) = ep_address ep" "ep_port (set_port p ep) = p"
  by (simp_all add: set_address_def set_port_def)

text \<open>
  The orders \<open>std::map<endpoint, ...>\<close> uses: IPv4 addresses before IPv6 addresses, then by
  value; endpoints by address, then by port.
\<close>

instantiation address :: linorder
begin

definition less_eq_address :: "address \<Rightarrow> address \<Rightarrow> bool" where
  "less_eq_address a b =
    (case a of V4 x \<Rightarrow> (case b of V4 y \<Rightarrow> x \<le> y | V6 _ \<Rightarrow> True)
             | V6 x \<Rightarrow> (case b of V4 _ \<Rightarrow> False | V6 y \<Rightarrow> x \<le> y))"

definition less_address :: "address \<Rightarrow> address \<Rightarrow> bool" where
  "less_address a b =
    (case a of V4 x \<Rightarrow> (case b of V4 y \<Rightarrow> x < y | V6 _ \<Rightarrow> True)
             | V6 x \<Rightarrow> (case b of V4 _ \<Rightarrow> False | V6 y \<Rightarrow> x < y))"

instance
  by standard (auto simp: less_eq_address_def less_address_def split: address.splits)

end

instantiation endpoint :: linorder
begin

definition less_eq_endpoint :: "endpoint \<Rightarrow> endpoint \<Rightarrow> bool" where
  "less_eq_endpoint a b \<longleftrightarrow>
    ep_address a < ep_address b \<or> ep_address a = ep_address b \<and> ep_port a \<le> ep_port b"

definition less_endpoint :: "endpoint \<Rightarrow> endpoint \<Rightarrow> bool" where
  "less_endpoint a b \<longleftrightarrow>
    ep_address a < ep_address b \<or> ep_address a = ep_address b \<and> ep_port a < ep_port b"

instance
proof
  fix x y z :: endpoint
  show "(x < y) = (x \<le> y \<and> \<not> y \<le> x)"
    by (auto simp: less_eq_endpoint_def less_endpoint_def)
  show "x \<le> x"
    by (simp add: less_eq_endpoint_def)
  show "x \<le> y \<Longrightarrow> y \<le> z \<Longrightarrow> x \<le> z"
    by (auto simp: less_eq_endpoint_def)
  show "x \<le> y \<Longrightarrow> y \<le> x \<Longrightarrow> x = y"
    by (auto simp: less_eq_endpoint_def endpoint.expand)
  show "x \<le> y \<or> y \<le> x"
    by (auto simp: less_eq_endpoint_def not_less)
qed

end

section \<open>Routes\<close>

text \<open>
  A sink is what a packet can be handed to: a queue, a NAT (which has no state but the
  address it writes) or the forwarder in front of a socket. A route is a \<open>std::deque\<close> of
  shared pointers to sinks; \<open>front()\<close> and \<open>back()\<close> of an empty one are undefined.
\<close>

datatype sink = Queue nat | Nat address | Forwarder nat

type_synonym route = "sink list"

definition next_hop :: "route \<Rightarrow> fault + sink" where
  "next_hop r = (case r of [] \<Rightarrow> Inl Undefined_behaviour | s # _ \<Rightarrow> Inr s)"

definition pop_front :: "route \<Rightarrow> sink option \<times> route" where
  "pop_front r = (case r of [] \<Rightarrow> (None, []) | s # r' \<Rightarrow> (Some s, r'))"

definition replace_last :: "sink \<Rightarrow> route \<Rightarrow> fault + route" where
  "replace_last s r = (if r = [] then Inl Undefined_behaviour else Inr (butlast r @ [s]))"

definition route_prepend :: "route \<Rightarrow> route \<Rightarrow> route" where
  "route_prepend r r' = r @ r'"

definition route_append :: "route \<Rightarrow> route \<Rightarrow> route" where
  "route_append r r' = r' @ r"

definition route_append_sink :: "sink \<Rightarrow> route \<Rightarrow> route" where
  "route_append_sink s r = r @ [s]"

definition route_plus :: "route \<Rightarrow> route \<Rightarrow> route" where
  "route_plus lhs rhs = route_append rhs lhs"

definition last_hop :: "route \<Rightarrow> fault + sink" where
  "last_hop r = (if r = [] then Inl Undefined_behaviour else Inr (last r))"

section \<open>Packets\<close>

datatype packet_type = Uninitialized | Syn | Syn_ack | Ack | Error | Payload

text \<open>
  The callback of a dropped packet is \<open>std::bind(&tcp::socket::packet_dropped, this, _1)\<close>
  wherever it is set, so it is the number of that socket.
\<close>

record packet =
  p_type :: packet_type
  p_ec :: error_code
  p_buffer :: "byte list"
  p_from :: endpoint
  p_overhead :: int
  p_hops :: route
  p_channel :: "nat option"
  p_seq_nr :: "64 word"
  p_byte_counter :: "32 word"
  p_drop_fun :: "nat option"

definition new_packet :: packet where
  "new_packet = \<lparr>p_type = Uninitialized, p_ec = success, p_buffer = [], p_from = default_endpoint,
    p_overhead = 20, p_hops = [], p_channel = None, p_seq_nr = 0, p_byte_counter = 0,
    p_drop_fun = None\<rparr>"

definition ok_to_drop :: "packet \<Rightarrow> bool" where
  "ok_to_drop p \<longleftrightarrow> p_type p \<noteq> Syn_ack \<and> p_type p \<noteq> Ack \<and> p_type p \<noteq> Error"

definition packet_size :: "packet \<Rightarrow> int" where
  "packet_size p = int (length (p_buffer p)) + p_overhead p"

section \<open>Channels\<close>

text \<open>
  The arrays of two are functions of the index; index 0 is the side that connected.
  \<open>bytes_sent\<close> wraps at 32 bits.
\<close>

record channel =
  c_hops :: "nat \<Rightarrow> route"
  c_ep :: "nat \<Rightarrow> endpoint"
  c_visible_ep :: "nat \<Rightarrow> endpoint"
  c_bytes_sent :: "nat \<Rightarrow> 32 word"

definition remote_idx :: "channel \<Rightarrow> endpoint \<Rightarrow> fault + nat" where
  "remote_idx c self =
    (if c_ep c 0 = self then Inr 1
     else if c_ep c 1 = self then Inr 0
     else Inl Assertion_failed)"

definition self_idx :: "channel \<Rightarrow> endpoint \<Rightarrow> fault + nat" where
  "self_idx c self =
    (if c_ep c 0 = self then Inr 0
     else if c_ep c 1 = self then Inr 1
     else Inl Assertion_failed)"

lemma self_remote_idx:
  "self_idx c self = Inr i \<Longrightarrow> remote_idx c self = Inr (1 - i)"
  "remote_idx c self = Inr i \<Longrightarrow> self_idx c self = Inr (1 - i)"
  by (auto simp: self_idx_def remote_idx_def split: if_splits)

lemma idx_of_ends:
  "remote_idx c (c_ep c 0) = Inr 1"
  "c_ep c 0 \<noteq> c_ep c 1 \<Longrightarrow> remote_idx c (c_ep c 1) = Inr 0"
  by (auto simp: remote_idx_def)

end
