(* ===== verification/Ports.thy ===== *)
theory Ports
  imports Net_Types
begin

text \<open>
  The binding tables of the simulation (\<open>simulation.cpp\<close>: \<open>bind_socket\<close>,
  \<open>unbind_socket\<close>, \<open>rebind_socket\<close> and their UDP twins) and the address resolution that
  \<open>io_context\<close> puts in front of them (\<open>io_service.cpp\<close>). TCP and UDP have a table each and
  share the counter of ephemeral ports. A socket is its number.
\<close>

section \<open>State\<close>

type_synonym sock_table = "(endpoint, nat) ord_map"

record ports =
  m_listen_sockets :: sock_table
  m_udp_sockets :: sock_table
  m_next_bind_port :: "16 word"

text \<open>What a bind returns: the error code it assigns and the endpoint.\<close>

type_synonym bind_result = "error_code \<times> endpoint"

section \<open>Ephemeral ports\<close>

text \<open>\<open>ep.port(m_next_bind_port++); if (m_next_bind_port > 65534) m_next_bind_port = 2000;\<close>\<close>

definition take_bind_port :: "ports \<Rightarrow> 16 word \<times> ports" where
  "take_bind_port ps =
    (let p = m_next_bind_port ps; n = p + 1
     in (p, ps\<lparr>m_next_bind_port := (if 65534 < n then 2000 else n)\<rparr>))"

text \<open>The search loop: \<open>port()\<close> is an unsigned short, so the increment is modulo \<open>2 ^ 16\<close>.\<close>

function find_free_port :: "sock_table \<Rightarrow> endpoint \<Rightarrow> error_code + endpoint" where
  "find_free_port tbl ep =
    (if om_find ep tbl = None then Inr ep
     else
       let ep' = set_port (ep_port ep + 1) ep in
       if 65530 < ep_port ep' then Inl address_in_use
       else find_free_port tbl ep')"
  by pat_completeness auto
termination
proof (relation "measure (\<lambda>(tbl, ep). if ep_port ep = 65535 then 65536 else 65535 - unat (ep_port ep))")
  fix tbl :: sock_table and ep ep' :: endpoint
  assume ep': "ep' = set_port (ep_port ep + 1) ep" and le: "\<not> 65530 < ep_port ep'"
  have "ep_port ep' \<noteq> 65535"
    using le by auto
  with ep' le show "((tbl, ep'), tbl, ep) \<in> measure (\<lambda>(tbl, ep).
      if ep_port ep = 65535 then 65536 else 65535 - unat (ep_port ep))"
    by (auto simp: unat16_suc unat16_less)
qed simp

declare find_free_port.simps [simp del]

section \<open>Binding\<close>

text \<open>
  The body \<open>bind_socket\<close> and \<open>bind_udp_socket\<close> share: both have the same statements over
  their own table. The result is the error code, the endpoint, the table and the counter.
\<close>

definition bind_in ::
  "nat \<Rightarrow> endpoint \<Rightarrow> sock_table \<Rightarrow> ports \<Rightarrow> fault + (error_code \<times> endpoint \<times> sock_table \<times> ports)" where
  "bind_in sock ep tbl ps =
    bindE (assertE (ep_address ep \<noteq> default_address)) (\<lambda>_.
    if ep_port ep < 1024 \<and> 0 < ep_port ep then Inr (access_denied, default_endpoint, tbl, ps)
    else
      let (chosen, ps1) =
        (if ep_port ep = 0 then
           let (p, ps') = take_bind_port ps in (find_free_port tbl (set_port p ep), ps')
         else (Inr ep, ps))
      in case chosen of
           Inl e \<Rightarrow> Inr (e, default_endpoint, tbl, ps1)
         | Inr ep' \<Rightarrow>
             if om_find ep' tbl \<noteq> None then Inr (address_in_use, default_endpoint, tbl, ps1)
             else Inr (success, ep', om_insert ep' sock tbl, ps1))"

definition bind_socket :: "nat \<Rightarrow> endpoint \<Rightarrow> ports \<Rightarrow> fault + (bind_result \<times> ports)" where
  "bind_socket sock ep ps =
    bindE (bind_in sock ep (m_listen_sockets ps) ps) (\<lambda>(ec, r, tbl, ps').
    Inr ((ec, r), ps'\<lparr>m_listen_sockets := tbl\<rparr>))"

definition bind_udp_socket :: "nat \<Rightarrow> endpoint \<Rightarrow> ports \<Rightarrow> fault + (bind_result \<times> ports)" where
  "bind_udp_socket sock ep ps =
    bindE (bind_in sock ep (m_udp_sockets ps) ps) (\<lambda>(ec, r, tbl, ps').
    Inr ((ec, r), ps'\<lparr>m_udp_sockets := tbl\<rparr>))"

definition unbind_socket :: "nat \<Rightarrow> endpoint \<Rightarrow> ports \<Rightarrow> ports" where
  "unbind_socket sock ep ps =
    (case om_find ep (m_listen_sockets ps) of
       None \<Rightarrow> ps
     | Some s \<Rightarrow> if s \<noteq> sock then ps else ps\<lparr>m_listen_sockets := om_erase ep (m_listen_sockets ps)\<rparr>)"

definition unbind_udp_socket :: "nat \<Rightarrow> endpoint \<Rightarrow> ports \<Rightarrow> ports" where
  "unbind_udp_socket sock ep ps =
    (case om_find ep (m_udp_sockets ps) of
       None \<Rightarrow> ps
     | Some s \<Rightarrow> if s \<noteq> sock then ps else ps\<lparr>m_udp_sockets := om_erase ep (m_udp_sockets ps)\<rparr>)"

definition rebind_socket :: "nat \<Rightarrow> nat \<Rightarrow> endpoint \<Rightarrow> ports \<Rightarrow> fault + ports" where
  "rebind_socket prev s ep ps =
    (case om_find ep (m_listen_sockets ps) of
       None \<Rightarrow> Inl Assertion_failed
     | Some i \<Rightarrow> if i \<noteq> prev then Inr ps
                 else Inr (ps\<lparr>m_listen_sockets := om_assign ep s (m_listen_sockets ps)\<rparr>))"

definition rebind_udp_socket :: "nat \<Rightarrow> endpoint \<Rightarrow> ports \<Rightarrow> fault + ports" where
  "rebind_udp_socket s ep ps =
    (case om_find ep (m_udp_sockets ps) of
       None \<Rightarrow> Inl Assertion_failed
     | Some _ \<Rightarrow> Inr (ps\<lparr>m_udp_sockets := om_assign ep s (m_udp_sockets ps)\<rparr>))"

section \<open>What a node adds\<close>

text \<open>
  \<open>io_context::bind_socket\<close> and \<open>bind_udp_socket\<close>: the wildcard addresses stand for the
  first address of their family the node has, any other address must be one of the node's.
\<close>

definition resolve_bind_address :: "address list \<Rightarrow> endpoint \<Rightarrow> error_code + endpoint" where
  "resolve_bind_address ips ep =
    (if ep_address ep = any_v4 then
       (case find is_v4 ips of None \<Rightarrow> Inl address_not_available | Some a \<Rightarrow> Inr (set_address a ep))
     else if ep_address ep = any_v6 then
       (case find is_v6 ips of None \<Rightarrow> Inl address_not_available | Some a \<Rightarrow> Inr (set_address a ep))
     else if ep_address ep \<notin> set ips then Inl address_not_available
     else Inr ep)"

definition node_bind_socket ::
  "address list \<Rightarrow> nat \<Rightarrow> endpoint \<Rightarrow> ports \<Rightarrow> fault + (bind_result \<times> ports)" where
  "node_bind_socket ips sock ep ps =
    bindE (assertE (ips \<noteq> [])) (\<lambda>_.
    case resolve_bind_address ips ep of
      Inl ec \<Rightarrow> Inr ((ec, default_endpoint), ps)
    | Inr ep' \<Rightarrow> bind_socket sock ep' ps)"

definition node_bind_udp_socket ::
  "address list \<Rightarrow> nat \<Rightarrow> endpoint \<Rightarrow> ports \<Rightarrow> fault + (bind_result \<times> ports)" where
  "node_bind_udp_socket ips sock ep ps =
    bindE (assertE (ips \<noteq> [])) (\<lambda>_.
    case resolve_bind_address ips ep of
      Inl ec \<Rightarrow> Inr ((ec, default_endpoint), ps)
    | Inr ep' \<Rightarrow> bind_udp_socket sock ep' ps)"

section \<open>Lemmas\<close>

lemma find_free_port_error: "find_free_port tbl ep = Inl e \<Longrightarrow> e = address_in_use"
proof (induction tbl ep rule: find_free_port.induct)
  case (1 tbl ep)
  then show ?case
    by (auto simp: find_free_port.simps [of tbl ep] Let_def split: if_splits)
qed

definition wf_ports :: "ports \<Rightarrow> bool" where
  "wf_ports ps \<longleftrightarrow> om_invar (m_listen_sockets ps) \<and> om_invar (m_udp_sockets ps) \<and>
     2000 \<le> m_next_bind_port ps \<and> m_next_bind_port ps \<le> 65534"

lemma take_bind_port_frame [simp]:
  "m_listen_sockets (snd (take_bind_port ps)) = m_listen_sockets ps"
  "m_udp_sockets (snd (take_bind_port ps)) = m_udp_sockets ps"
  "fst (take_bind_port ps) = m_next_bind_port ps"
  by (simp_all add: take_bind_port_def Let_def)

lemma take_bind_port_range:
  assumes "2000 \<le> m_next_bind_port ps" and "m_next_bind_port ps \<le> 65534"
  shows "2000 \<le> m_next_bind_port (snd (take_bind_port ps))"
    and "m_next_bind_port (snd (take_bind_port ps)) \<le> 65534"
proof -
  have "m_next_bind_port ps \<noteq> 65535"
    using assms(2) by auto
  then show "2000 \<le> m_next_bind_port (snd (take_bind_port ps))"
    and "m_next_bind_port (snd (take_bind_port ps)) \<le> 65534"
    using assms by (auto simp: take_bind_port_def Let_def unat16_less unat16_suc)
qed

text \<open>The endpoint the search returns, and what it says when it fails.\<close>

lemma find_free_port_Inr:
  assumes "find_free_port tbl ep = Inr r" and "ep_port ep \<le> 65534"
  shows "om_find r tbl = None \<and> ep_address r = ep_address ep \<and> ep_port ep \<le> ep_port r \<and>
    (r = ep \<or> ep_port r \<le> 65530) \<and>
    (\<forall>p. ep_port ep \<le> p \<longrightarrow> p < ep_port r \<longrightarrow> om_find (set_port p ep) tbl \<noteq> None)"
  using assms
proof (induction tbl ep rule: find_free_port.induct)
  case (1 tbl ep)
  let ?ep' = "set_port (ep_port ep + 1) ep"
  show ?case
  proof (cases "om_find ep tbl")
    case None
    with "1.prems" have "r = ep" by (simp add: find_free_port.simps [of tbl ep])
    with None show ?thesis by auto
  next
    case (Some s)
    with "1.prems" have le: "\<not> 65530 < ep_port ?ep'" and rec: "find_free_port tbl ?ep' = Inr r"
      by (auto simp: find_free_port.simps [of tbl ep] Let_def split: if_splits)
    from le have "ep_port ?ep' \<le> 65534" by (simp add: unat16_less)
    with "1.IH" [of ?ep'] Some le rec have IH: "om_find r tbl = None"
        "ep_address r = ep_address ep" "ep_port ?ep' \<le> ep_port r" "r = ?ep' \<or> ep_port r \<le> 65530"
        "\<forall>p. ep_port ?ep' \<le> p \<longrightarrow> p < ep_port r \<longrightarrow> om_find (set_port p ?ep') tbl \<noteq> None"
      by auto
    have ne: "ep_port ep \<noteq> 65535" using "1.prems"(2) by auto
    have step: "ep_port ep \<le> p \<Longrightarrow> p = ep_port ep \<or> ep_port ?ep' \<le> p" for p
      using ne by (auto simp: word_le_nat_alt unat16_suc word_unat_eq_iff)
    have "om_find (set_port (ep_port ep) ep) tbl \<noteq> None"
      using Some by (simp add: set_port_def)
    moreover have "set_port p ?ep' = set_port p ep" for p
      by (simp add: set_port_def)
    moreover have "ep_port ep \<le> ep_port ?ep'"
      using ne by (simp add: word_le_nat_alt unat16_suc)
    ultimately have "om_find (set_port p ep) tbl \<noteq> None"
      if "ep_port ep \<le> p" "p < ep_port r" for p
      using step [OF that(1)] IH(5) that(2) by auto
    moreover have "ep_port ep \<le> ep_port r"
      using \<open>ep_port ep \<le> ep_port ?ep'\<close> IH(3) by (rule order_trans)
    moreover have "ep_port r \<le> 65530"
      using IH(4) le by (auto simp: not_less)
    ultimately show ?thesis
      using IH(1,2) by blast
  qed
qed

lemma find_free_port_Inl:
  assumes "find_free_port tbl ep = Inl e" and "ep_port ep \<le> 65534"
  shows "e = address_in_use \<and>
    (\<forall>p. ep_port ep \<le> p \<longrightarrow> p \<le> max 65530 (ep_port ep) \<longrightarrow> om_find (set_port p ep) tbl \<noteq> None)"
  using assms
proof (induction tbl ep rule: find_free_port.induct)
  case (1 tbl ep)
  let ?ep' = "set_port (ep_port ep + 1) ep"
  have ne: "ep_port ep \<noteq> 65535" using "1.prems"(2) by auto
  from "1.prems"(1) obtain s where s: "om_find ep tbl = Some s"
    by (cases "om_find ep tbl") (simp_all add: find_free_port.simps [of tbl ep])
  have self: "om_find (set_port (ep_port ep) ep) tbl \<noteq> None"
    using s by (simp add: set_port_def)
  show ?case
  proof (cases "65530 < ep_port ?ep'")
    case True
    then have "p = ep_port ep" if "ep_port ep \<le> p" "p \<le> max 65530 (ep_port ep)" for p
      using that ne by (auto simp: max_def word_le_nat_alt word_less_nat_alt unat16_suc word_unat_eq_iff
          split: if_splits)
    with True "1.prems" s self show ?thesis
      by (auto simp: find_free_port.simps [of tbl ep])
  next
    case False
    then have "ep_port ?ep' \<le> 65534" by (simp add: unat16_less)
    moreover have "find_free_port tbl ?ep' = Inl e"
      using False "1.prems" s by (simp add: find_free_port.simps [of tbl ep])
    ultimately have IH: "e = address_in_use"
      "\<forall>p. ep_port ?ep' \<le> p \<longrightarrow> p \<le> max 65530 (ep_port ?ep') \<longrightarrow> om_find (set_port p ?ep') tbl \<noteq> None"
      using "1.IH" [of ?ep'] s False by auto
    have "p = ep_port ep \<or> ep_port ?ep' \<le> p \<and> p \<le> max 65530 (ep_port ?ep')"
      if "ep_port ep \<le> p" "p \<le> max 65530 (ep_port ep)" for p
      using that False ne by (auto simp: max_def word_le_nat_alt word_less_nat_alt unat16_suc
          word_unat_eq_iff split: if_splits)
    moreover have "set_port p ?ep' = set_port p ep" for p
      by (simp add: set_port_def)
    ultimately have "om_find (set_port p ep) tbl \<noteq> None"
      if "ep_port ep \<le> p" "p \<le> max 65530 (ep_port ep)" for p
      using IH(2) self that by fastforce
    with IH(1) show ?thesis by blast
  qed
qed

lemma bind_in_cases:
  assumes "bind_in sock ep tbl ps = Inr (ec, r, tbl', ps')"
  shows "ps' = (if ep_port ep = 0 then snd (take_bind_port ps) else ps) \<and>
    (if ec = success then
       om_find r tbl = None \<and> tbl' = om_insert r sock tbl \<and>
       (if ep_port ep = 0 then find_free_port tbl (set_port (m_next_bind_port ps) ep) = Inr r
        else r = ep \<and> 1024 \<le> ep_port ep)
     else tbl' = tbl \<and> r = default_endpoint)"
  using assms
  by (auto simp: bind_in_def take_bind_port_def Let_def assertE_def not_less word_neq_0_conv
      split: if_splits prod.splits sum.splits dest: find_free_port_error)

lemma bind_in_ok:
  assumes "bind_in sock ep tbl ps = Inr (success, r, tbl', ps')" and "om_invar tbl"
  shows "om_find r tbl = None" and "om_find k tbl' = (if k = r then Some sock else om_find k tbl)"
    and "om_invar tbl'" and "ep_address r = ep_address ep"
proof -
  note eff = bind_in_cases [OF assms(1)]
  then show "om_find r tbl = None" by simp
  with eff assms(2) show "om_find k tbl' = (if k = r then Some sock else om_find k tbl)"
    and "om_invar tbl'"
    by (simp_all add: om.find_insert_fresh om.invar_insert)
  have addr: "find_free_port tbl e = Inr r \<Longrightarrow> ep_address r = ep_address e" for e
    by (induction tbl e rule: find_free_port.induct)
      (force simp: find_free_port.simps Let_def split: if_splits)
  show "ep_address r = ep_address ep"
    using eff by (auto split: if_splits dest: addr)
qed

lemma bind_in_err:
  assumes "bind_in sock ep tbl ps = Inr (ec, r, tbl', ps')" and "ec \<noteq> success"
  shows "tbl' = tbl" and "r = default_endpoint"
  using bind_in_cases [OF assms(1)] assms(2) by simp_all

lemma bind_in_ports:
  assumes "bind_in sock ep tbl ps = Inr (ec, r, tbl', ps')" and "wf_ports ps"
  shows "m_listen_sockets ps' = m_listen_sockets ps" and "m_udp_sockets ps' = m_udp_sockets ps"
    and "2000 \<le> m_next_bind_port ps'" and "m_next_bind_port ps' \<le> 65534"
  using bind_in_cases [OF assms(1)] assms(2)
  by (auto simp: wf_ports_def take_bind_port_range)

section \<open>The interface of a binding table\<close>

text \<open>
  What sockets rely on, whichever of the two tables they live in: a successful bind enters the
  socket under an endpoint nobody had, a failed one changes no entry, and an unbind removes
  the entry only when it is the caller's own.
\<close>

locale binding_table =
  fixes lookup :: "'s \<Rightarrow> endpoint \<Rightarrow> nat option"
    and bind :: "nat \<Rightarrow> endpoint \<Rightarrow> 's \<Rightarrow> fault + (bind_result \<times> 's)"
    and unbind :: "nat \<Rightarrow> endpoint \<Rightarrow> 's \<Rightarrow> 's"
    and wf :: "'s \<Rightarrow> bool"
  assumes bind_ok: "wf s \<Longrightarrow> bind k ep s = Inr ((success, r), s') \<Longrightarrow>
      lookup s r = None \<and> lookup s' = (lookup s)(r \<mapsto> k) \<and> ep_address r = ep_address ep"
    and bind_err: "wf s \<Longrightarrow> bind k ep s = Inr ((ec, r), s') \<Longrightarrow> ec \<noteq> success \<Longrightarrow> lookup s' = lookup s"
    and bind_wf: "wf s \<Longrightarrow> bind k ep s = Inr ((ec, r), s') \<Longrightarrow> wf s'"
    and unbind_lookup: "wf s \<Longrightarrow>
      lookup (unbind k ep s) = (if lookup s ep = Some k then (lookup s)(ep := None) else lookup s)"
    and unbind_wf: "wf s \<Longrightarrow> wf (unbind k ep s)"
begin

lemma bind_unbind:
  assumes "wf s" and "bind k ep s = Inr ((success, r), s')"
  shows "lookup (unbind k r s') = lookup s"
  using bind_ok [OF assms] unbind_lookup [OF bind_wf [OF assms], of k r] by auto

lemma unbind_keeps_others:
  assumes "wf s" and "lookup s e = Some j" and "j \<noteq> k"
  shows "lookup (unbind k ep s) e = Some j"
  using assms by (auto simp: unbind_lookup)

lemma bind_keeps_others:
  assumes "wf s" and "lookup s e = Some j" and "bind k ep s = Inr ((ec, r), s')"
  shows "lookup s' e = Some j \<and> (ec = success \<longrightarrow> r \<noteq> e)"
proof (cases "ec = success")
  case True
  with bind_ok [OF assms(1)] assms show ?thesis by fastforce
next
  case False
  with bind_err [OF assms(1,3)] assms(2) show ?thesis by simp
qed

end

lemma wf_portsD: "wf_ports ps \<Longrightarrow> om_invar (m_listen_sockets ps)" "wf_ports ps \<Longrightarrow> om_invar (m_udp_sockets ps)"
  by (simp_all add: wf_ports_def)

definition tcp_lookup :: "ports \<Rightarrow> endpoint \<Rightarrow> nat option" where
  "tcp_lookup ps ep = om_find ep (m_listen_sockets ps)"

definition udp_lookup :: "ports \<Rightarrow> endpoint \<Rightarrow> nat option" where
  "udp_lookup ps ep = om_find ep (m_udp_sockets ps)"

interpretation tcp_table: binding_table tcp_lookup bind_socket unbind_socket wf_ports
proof unfold_locales
  fix s k ep ec r s'
  assume wf: "wf_ports s" and b: "bind_socket k ep s = Inr ((ec, r), s')"
  then obtain tbl ps' where i: "bind_in k ep (m_listen_sockets s) s = Inr (ec, r, tbl, ps')"
    and s': "s' = ps'\<lparr>m_listen_sockets := tbl\<rparr>"
    by (auto simp: bind_socket_def)
  show "ec \<noteq> success \<Longrightarrow> tcp_lookup s' = tcp_lookup s"
    using bind_in_err [OF i] by (simp add: tcp_lookup_def fun_eq_iff s')
  show "wf_ports s'"
    using bind_in_ports [OF i wf] bind_in_ok(3) [of k ep "m_listen_sockets s" s r tbl ps'] bind_in_err(1) [OF i] i wf
    by (cases "ec = success") (auto simp: wf_ports_def s')
next
  fix s k ep r s'
  assume wf: "wf_ports s" and b: "bind_socket k ep s = Inr ((success, r), s')"
  then obtain tbl ps' where i: "bind_in k ep (m_listen_sockets s) s = Inr (success, r, tbl, ps')"
    and s': "s' = ps'\<lparr>m_listen_sockets := tbl\<rparr>"
    by (auto simp: bind_socket_def)
  show "tcp_lookup s r = None \<and> tcp_lookup s' = (tcp_lookup s)(r \<mapsto> k) \<and> ep_address r = ep_address ep"
    using bind_in_ok [OF i wf_portsD(1) [OF wf]] by (simp add: tcp_lookup_def fun_eq_iff s')
next
  fix s k ep
  assume wf: "wf_ports s"
  then show "tcp_lookup (unbind_socket k ep s) =
      (if tcp_lookup s ep = Some k then (tcp_lookup s)(ep := None) else tcp_lookup s)"
    by (auto simp: tcp_lookup_def unbind_socket_def fun_eq_iff wf_ports_def om.find_erase split: option.split)
  from wf show "wf_ports (unbind_socket k ep s)"
    by (auto simp: unbind_socket_def wf_ports_def om.invar_erase split: option.split)
qed

interpretation udp_table: binding_table udp_lookup bind_udp_socket unbind_udp_socket wf_ports
proof unfold_locales
  fix s k ep ec r s'
  assume wf: "wf_ports s" and b: "bind_udp_socket k ep s = Inr ((ec, r), s')"
  then obtain tbl ps' where i: "bind_in k ep (m_udp_sockets s) s = Inr (ec, r, tbl, ps')"
    and s': "s' = ps'\<lparr>m_udp_sockets := tbl\<rparr>"
    by (auto simp: bind_udp_socket_def)
  show "ec \<noteq> success \<Longrightarrow> udp_lookup s' = udp_lookup s"
    using bind_in_err [OF i] by (simp add: udp_lookup_def fun_eq_iff s')
  show "wf_ports s'"
    using bind_in_ports [OF i wf] bind_in_ok(3) [of k ep "m_udp_sockets s" s r tbl ps'] bind_in_err(1) [OF i] i wf
    by (cases "ec = success") (auto simp: wf_ports_def s')
next
  fix s k ep r s'
  assume wf: "wf_ports s" and b: "bind_udp_socket k ep s = Inr ((success, r), s')"
  then obtain tbl ps' where i: "bind_in k ep (m_udp_sockets s) s = Inr (success, r, tbl, ps')"
    and s': "s' = ps'\<lparr>m_udp_sockets := tbl\<rparr>"
    by (auto simp: bind_udp_socket_def)
  show "udp_lookup s r = None \<and> udp_lookup s' = (udp_lookup s)(r \<mapsto> k) \<and> ep_address r = ep_address ep"
    using bind_in_ok [OF i wf_portsD(2) [OF wf]] by (simp add: udp_lookup_def fun_eq_iff s')
next
  fix s k ep
  assume wf: "wf_ports s"
  then show "udp_lookup (unbind_udp_socket k ep s) =
      (if udp_lookup s ep = Some k then (udp_lookup s)(ep := None) else udp_lookup s)"
    by (auto simp: udp_lookup_def unbind_udp_socket_def fun_eq_iff wf_ports_def om.find_erase split: option.split)
  from wf show "wf_ports (unbind_udp_socket k ep s)"
    by (auto simp: unbind_udp_socket_def wf_ports_def om.invar_erase split: option.split)
qed

section \<open>Properties\<close>

lemma bind_socket_in:
  assumes "bind_socket k ep ps = Inr ((ec, r), ps')"
  obtains tbl ps1 where "bind_in k ep (m_listen_sockets ps) ps = Inr (ec, r, tbl, ps1)"
    and "ps' = ps1\<lparr>m_listen_sockets := tbl\<rparr>"
  using assms by (auto simp: bind_socket_def)

lemma bind_port_ge:
  assumes "bind_in k ep tbl ps = Inr (success, r, tbl', ps')" and "wf_ports ps"
  shows "1024 \<le> ep_port r"
proof (cases "ep_port ep = 0")
  case True
  then have "find_free_port tbl (set_port (m_next_bind_port ps) ep) = Inr r"
    using bind_in_cases [OF assms(1)] by simp
  then have "m_next_bind_port ps \<le> ep_port r"
    using assms(2) find_free_port_Inr by (fastforce simp: wf_ports_def)
  with assms(2) show ?thesis
    by (auto simp: wf_ports_def word_le_nat_alt)
next
  case False
  then show ?thesis using bind_in_cases [OF assms(1)] by simp
qed

text \<open>
  C16. Binding a TCP socket through its node: a successful bind yields an endpoint on an address
  of the node and an unprivileged port that no socket had; afterwards the endpoint belongs to
  the socket and every other endpoint is bound as before; and unbinding it restores the table.
\<close>

theorem node_bind_socket_exclusive:
  assumes "wf_ports ps" and "node_bind_socket ips k ep ps = Inr ((success, r), ps')"
  shows "ep_address r \<in> set ips \<and> 1024 \<le> ep_port r \<and> wf_ports ps' \<and>
    tcp_lookup ps r = None \<and> tcp_lookup ps' = (tcp_lookup ps)(r \<mapsto> k) \<and>
    tcp_lookup (unbind_socket k r ps') = tcp_lookup ps \<and> udp_lookup ps' = udp_lookup ps"
proof -
  from assms(2) obtain ep' where res: "resolve_bind_address ips ep = Inr ep'"
    and b: "bind_socket k ep' ps = Inr ((success, r), ps')"
    by (auto simp: node_bind_socket_def resolve_bind_address_def split: sum.splits if_splits option.splits)
  from res have "ep_address ep' \<in> set ips"
    by (auto simp: resolve_bind_address_def find_Some_iff split: if_splits option.splits)
  from b obtain tbl ps1 where i: "bind_in k ep' (m_listen_sockets ps) ps = Inr (success, r, tbl, ps1)"
    and ps': "ps' = ps1\<lparr>m_listen_sockets := tbl\<rparr>"
    by (rule bind_socket_in)
  have "1024 \<le> ep_port r"
    using i assms(1) by (rule bind_port_ge)
  moreover have "udp_lookup ps' = udp_lookup ps"
    using bind_in_ports(2) [OF i assms(1)] by (simp add: udp_lookup_def fun_eq_iff ps')
  ultimately show ?thesis
    using \<open>ep_address ep' \<in> set ips\<close> tcp_table.bind_ok [OF assms(1) b] tcp_table.bind_unbind [OF assms(1) b]
      tcp_table.bind_wf [OF assms(1) b] by simp
qed

definition fresh_ports :: ports where
  "fresh_ports = \<lparr>m_listen_sockets = [], m_udp_sockets = [], m_next_bind_port = 2000\<rparr>"

lemma wf_fresh_ports [simp]: "wf_ports fresh_ports"
  by (simp add: fresh_ports_def wf_ports_def)

lemma node_bind_socket_exclusive_witness:
  "tcp_lookup (unbind_socket 7 (Endpoint (V4 9) 2000)
     (fresh_ports\<lparr>m_listen_sockets := [(Endpoint (V4 9) 2000, 7)], m_next_bind_port := 2001\<rparr>)) =
   tcp_lookup fresh_ports"
proof -
  have "node_bind_socket [V4 9] 7 (Endpoint any_v4 0) fresh_ports = Inr ((success, Endpoint (V4 9) 2000),
      fresh_ports\<lparr>m_listen_sockets := [(Endpoint (V4 9) 2000, 7)], m_next_bind_port := 2001\<rparr>)"
    by (simp add: node_bind_socket_def resolve_bind_address_def any_v4_def bind_socket_def bind_in_def
        set_address_def default_address_def take_bind_port_def fresh_ports_def Let_def
        find_free_port.simps set_port_def om_insert_def om_before_def om_lower_bound_def)
  from node_bind_socket_exclusive [OF wf_fresh_ports this] show ?thesis by simp
qed

text \<open>
  C18. Binding to port 0 never aborts and picks the first free port at or above the ephemeral
  counter; it fails, with \<open>address_in_use\<close>, only when every port from the counter to 65530
  is taken on that address; the counter stays between 2000 and 65534.
\<close>

theorem bind_ephemeral_first_free:
  assumes "wf_ports ps" and "a \<noteq> default_address"
  shows "\<exists>ec r ps'. bind_socket k (Endpoint a 0) ps = Inr ((ec, r), ps') \<and> wf_ports ps' \<and>
    (if ec = success then
       ep_address r = a \<and> m_next_bind_port ps \<le> ep_port r \<and> ep_port r \<le> 65534 \<and>
       tcp_lookup ps r = None \<and>
       (\<forall>p. m_next_bind_port ps \<le> p \<longrightarrow> p < ep_port r \<longrightarrow> tcp_lookup ps (Endpoint a p) \<noteq> None)
     else ec = address_in_use \<and>
       (\<forall>p. m_next_bind_port ps \<le> p \<longrightarrow> p \<le> max 65530 (m_next_bind_port ps) \<longrightarrow>
          tcp_lookup ps (Endpoint a p) \<noteq> None))"
proof -
  let ?next = "m_next_bind_port ps" and ?tbl = "m_listen_sockets ps"
  have nx: "?next \<le> 65534" using assms(1) by (simp add: wf_ports_def)
  have "\<exists>ec r ps'. bind_socket k (Endpoint a 0) ps = Inr ((ec, r), ps')"
    using assms(2) by (auto simp: bind_socket_def bind_in_def Let_def assertE_def
        split: prod.split sum.split)
  then obtain ec r ps' where b: "bind_socket k (Endpoint a 0) ps = Inr ((ec, r), ps')"
    by blast
  then obtain tbl ps1 where i: "bind_in k (Endpoint a 0) ?tbl ps = Inr (ec, r, tbl, ps1)"
    by (rule bind_socket_in)
  have wf: "wf_ports ps'"
    using assms(1) b by (rule tcp_table.bind_wf)
  have set_port: "set_port p (Endpoint a q) = Endpoint a p" for p q
    by (simp add: set_port_def)
  show ?thesis
  proof (cases "ec = success")
    case True
    with bind_in_cases [OF i] have "find_free_port ?tbl (Endpoint a ?next) = Inr r"
      by (simp add: set_port)
    from find_free_port_Inr [OF this] nx have f: "om_find r ?tbl = None" "ep_address r = a"
      "?next \<le> ep_port r" "r = Endpoint a ?next \<or> ep_port r \<le> 65530"
      "\<forall>p. ?next \<le> p \<longrightarrow> p < ep_port r \<longrightarrow> om_find (Endpoint a p) ?tbl \<noteq> None"
      by (simp_all add: set_port)
    moreover from f(4) nx have "ep_port r \<le> 65534"
      by (auto simp: unat16_less)
    ultimately show ?thesis
      using b wf True by (auto simp: tcp_lookup_def)
  next
    case False
    have free: "find_free_port ?tbl (Endpoint a ?next) = Inr y \<Longrightarrow> om_find y ?tbl = None" for y
      using find_free_port_Inr [of ?tbl "Endpoint a ?next" y] nx by simp
    from False obtain e where "find_free_port ?tbl (Endpoint a ?next) = Inl e" and "ec = address_in_use"
      using i by (auto simp: bind_in_def take_bind_port_def Let_def set_port assertE_def
          split: if_splits sum.splits dest: find_free_port_error free)
    with find_free_port_Inl [OF this(1)] nx show ?thesis
      using b wf False by (auto simp: tcp_lookup_def set_port)
  qed
qed

lemma bind_ephemeral_first_free_witness:
  "\<exists>ec r ps'. bind_socket 3 (Endpoint (V4 9) 0)
      (fresh_ports\<lparr>m_listen_sockets := [(Endpoint (V4 9) 2000, 7)]\<rparr>) = Inr ((ec, r), ps') \<and> wf_ports ps'"
proof -
  have "wf_ports (fresh_ports\<lparr>m_listen_sockets := [(Endpoint (V4 9) 2000, 7)]\<rparr>)"
    by (simp add: wf_ports_def fresh_ports_def om_invar_def)
  from bind_ephemeral_first_free [OF this, of "V4 9" 3] show ?thesis
    by (auto simp: default_address_def)
qed

end
