(* ===== verification/Double_Time.thy ===== *)
theory Double_Time
  imports Sim_Prelude
begin

text \<open>
  The transmission times are computed in double precision: \<open>queue.cpp\<close> and
  \<open>udp_socket.cpp\<close> divide \<open>1000000000.0\<close> by the bandwidth, multiply by the packet size and
  truncate to a 64-bit integer, and \<open>socket_base::set_option(send_buffer_size)\<close> does the same
  kind of computation in microseconds. This theory models IEEE-754 rounding to nearest, ties
  to even, with 53 significant bits, on non-negative numbers kept as a significand and a
  binary scale (the value is \<open>m / 2 ^ s\<close>); every intermediate result of the two computations
  is far from overflow and underflow. Signs are handled by symmetry.
\<close>

section \<open>Rounding\<close>

fun bit_length :: "nat \<Rightarrow> nat" where
  "bit_length n = (if n = 0 then 0 else Suc (bit_length (n div 2)))"

declare bit_length.simps [simp del]

definition round_even_div :: "nat \<Rightarrow> nat \<Rightarrow> nat" where
  "round_even_div a b =
    (let q = a div b; r = a mod b in
     if 2 * r < b \<or> 2 * r = b \<and> even q then q else Suc q)"

text \<open>The double nearest to \<open>a / b\<close>, for \<open>0 < a\<close>, \<open>0 < b\<close> and \<open>bit_length a \<le> bit_length b + 52\<close>.\<close>

definition double_div :: "nat \<Rightarrow> nat \<Rightarrow> nat \<times> nat" where
  "double_div a b =
    (let s0 = 52 + bit_length b - bit_length a;
         s = (if a * 2 ^ s0 < 2 ^ 52 * b then Suc s0 else s0)
     in (round_even_div (a * 2 ^ s) b, s))"

text \<open>The double nearest to the product of a double and an integer.\<close>

definition double_mult :: "nat \<times> nat \<Rightarrow> nat \<Rightarrow> nat \<times> nat" where
  "double_mult x n =
    (let p = fst x * n; k = bit_length p - 53
     in (round_even_div p (2 ^ k) * 2 ^ k, snd x))"

definition double_trunc :: "nat \<times> nat \<Rightarrow> nat" where
  "double_trunc x = fst x div 2 ^ snd x"

section \<open>The computations of the sources\<close>

text \<open>
  \<open>boost::int64_t(nanoseconds_per_byte * packet_size)\<close> with
  \<open>nanoseconds_per_byte = 1000000000.0 / double(bandwidth)\<close>.
\<close>

definition send_time_ns :: "int \<Rightarrow> int \<Rightarrow> int" where
  "send_time_ns bandwidth n =
    sgn bandwidth * sgn n *
    int (double_trunc (double_mult (double_div 1000000000 (nat \<bar>bandwidth\<bar>)) (nat \<bar>n\<bar>)))"

text \<open>\<open>sim::aux::nic_bandwidth\<close>, in bytes per second.\<close>

definition nic_bandwidth :: int where
  "nic_bandwidth = 100000000"

text \<open>
  \<open>std::int64_t(double(op.value()) * 1000000.0 / double(aux::nic_bandwidth))\<close>; the product is
  exact because an \<open>int\<close> times a million has fewer than 53 bits.
\<close>

definition send_queue_time_us :: "int \<Rightarrow> int" where
  "send_queue_time_us v =
    (if v = 0 then 0
     else sgn v * int (double_trunc (double_div (nat \<bar>v\<bar> * 1000000) (nat nic_bandwidth))))"

section \<open>Lemmas\<close>

lemma bit_length_0 [simp]: "bit_length 0 = 0"
  by (simp add: bit_length.simps)

lemma bit_length_bounds: "0 < n \<Longrightarrow> 2 ^ (bit_length n - 1) \<le> n \<and> n < 2 ^ bit_length n"
proof (induction n rule: bit_length.induct)
  case (1 n)
  show ?case
  proof (cases "n div 2 = 0")
    case True
    with "1.prems" have "n = 1" by simp
    then show ?thesis by (simp add: bit_length.simps)
  next
    case False
    then have "0 < bit_length (n div 2)"
      by (subst bit_length.simps) simp
    moreover have "2 ^ (bit_length (n div 2) - 1) \<le> n div 2" "n div 2 < 2 ^ bit_length (n div 2)"
      using "1.IH" "1.prems" False by auto
    ultimately have "2 ^ bit_length (n div 2) \<le> n" "n < 2 * 2 ^ bit_length (n div 2)"
      by (cases "bit_length (n div 2)"; simp)+
    with "1.prems" show ?thesis
      by (simp add: bit_length.simps [of n])
  qed
qed

lemma bit_length_le: "n < 2 ^ k \<Longrightarrow> bit_length n \<le> k"
proof (cases "n = 0")
  case False
  assume "n < 2 ^ k"
  moreover have "2 ^ (bit_length n - 1) \<le> n"
    using bit_length_bounds [of n] False by simp
  ultimately have "2 ^ (bit_length n - 1) < (2::nat) ^ k"
    by linarith
  then have "bit_length n - 1 < k"
    by (metis one_less_numeral_iff power_less_imp_less_exp semiring_norm(76))
  then show ?thesis by simp
qed simp

lemma round_even_div_exact [simp]: "0 < b \<Longrightarrow> round_even_div (q * b) b = q"
  by (simp add: round_even_div_def)

lemma round_even_div_exact_dvd: "0 < b \<Longrightarrow> b dvd a \<Longrightarrow> round_even_div a b = a div b"
  by (auto elim!: dvdE simp: mult.commute)

text \<open>A division that comes out even, times an integer, is exact up to 53 bits.\<close>

lemma double_exact:
  assumes "0 < b" and "b dvd a" and "a div b * n < 2 ^ 53"
  shows "double_trunc (double_mult (double_div a b) n) = a div b * n"
proof -
  obtain q where a: "a = q * b" using assms(2) by (metis dvdE mult.commute)
  obtain s where d: "double_div a b = (round_even_div (a * 2 ^ s) b, s)"
    by (auto simp: double_div_def Let_def)
  have "round_even_div (a * 2 ^ s) b = q * 2 ^ s"
    using round_even_div_exact [OF assms(1), of "q * 2 ^ s"] by (simp add: a ac_simps)
  then have m: "double_div a b = (q * 2 ^ s, s)" using d by simp
  define p where "p = q * 2 ^ s * n"
  have "q * n < 2 ^ 53" using assms(1,3) by (simp add: a)
  then have "p < 2 ^ 53 * 2 ^ s" by (simp add: p_def ac_simps)
  then have "bit_length p \<le> 53 + s" by (intro bit_length_le) (simp add: power_add)
  then have "2 ^ (bit_length p - 53) dvd (2::nat) ^ s"
    by (intro le_imp_power_dvd) simp
  then have "2 ^ (bit_length p - 53) dvd p"
    by (simp add: p_def)
  then have "round_even_div p (2 ^ (bit_length p - 53)) * 2 ^ (bit_length p - 53) = p"
    by (simp add: round_even_div_exact_dvd)
  then have "double_mult (double_div a b) n = (p, s)"
    by (simp add: double_mult_def m Let_def p_def)
  then show ?thesis
    using assms(1) by (simp add: double_trunc_def p_def a ac_simps)
qed

text \<open>When the bandwidth divides a billion, the transmission time is exact.\<close>

lemma send_time_ns_exact:
  assumes "0 < b" and "b dvd 1000000000" and "0 \<le> n" and "1000000000 div b * n < 2 ^ 53"
  shows "send_time_ns b n = 1000000000 div b * n"
proof -
  have "nat b dvd 1000000000"
    using assms(1,2) by (metis nat_numeral nat_dvd_iff int_dvd_int_iff int_nat_eq less_imp_le of_nat_numeral)
  moreover have eq: "int (1000000000 div nat b * nat n) = 1000000000 div b * n"
    using assms(1,3) by (simp add: zdiv_int)
  then have "int (1000000000 div nat b * nat n) < int (2 ^ 53)"
    using assms(4) by simp
  then have "1000000000 div nat b * nat n < 2 ^ 53"
    by (simp only: of_nat_less_iff)
  ultimately have "double_trunc (double_mult (double_div 1000000000 (nat b)) (nat n)) =
      1000000000 div nat b * nat n"
    using assms(1) by (intro double_exact) simp_all
  then show ?thesis
    using assms(1,3) eq by (cases "n = 0") (simp_all add: send_time_ns_def)
qed

lemma send_time_ns_nonneg: "0 \<le> b \<Longrightarrow> 0 \<le> n \<Longrightarrow> 0 \<le> send_time_ns b n"
  unfolding send_time_ns_def by (intro mult_nonneg_nonneg) (simp_all add: sgn_if)

end
