(* ===== verification/Pcap.thy ===== *)
theory Pcap
  imports Net_Types
begin

unbundle bit_operations_syntax

text \<open>
  The packet capture writer (\<open>pcap.cpp\<close>), as the bytes it appends to its file. The structs
  \<open>ip_header\<close>, \<open>udp_header\<close> and \<open>tcp_header\<close> have no padding; fields written without
  \<open>htons\<close> or \<open>htonl\<close> are in host order, which is taken to be little endian. The reader at
  the end is the specification: it follows the pcap file format and the header layouts of
  IP, TCP and UDP, and recovers from the bytes what was logged.
\<close>

section \<open>Writing integers\<close>

definition be16 :: "16 word \<Rightarrow> byte list" where
  "be16 w = [ucast (drop_bit 8 w), ucast w]"

definition be32 :: "32 word \<Rightarrow> byte list" where
  "be32 w = [ucast (drop_bit 24 w), ucast (drop_bit 16 w), ucast (drop_bit 8 w), ucast w]"

definition le16 :: "16 word \<Rightarrow> byte list" where
  "le16 w = rev (be16 w)"

definition le32 :: "32 word \<Rightarrow> byte list" where
  "le32 w = rev (be32 w)"

definition pcap_file_header :: "byte list" where
  "pcap_file_header = le32 0xa1b2c3d4 @ le16 2 @ le16 4 @ le32 0 @ le32 0 @ le32 0xffff @ le32 101"

section \<open>Headers\<close>

definition write_ip_header :: "int \<Rightarrow> int \<Rightarrow> 32 word \<Rightarrow> 32 word \<Rightarrow> byte list" where
  "write_ip_header len protocol source dest =
    [69, 0] @ be16 (word_of_int len) @ be16 0 @ be16 0 @ [200, word_of_int protocol] @ be16 0 @
    be32 source @ be32 dest"

definition write_udp_header :: "int \<Rightarrow> int \<Rightarrow> int \<Rightarrow> fault + byte list" where
  "write_udp_header len src_port dst_port =
    bindE (assertE (src_port \<noteq> 0)) (\<lambda>_.
    bindE (assertE (dst_port \<noteq> 0)) (\<lambda>_.
    Inr (be16 (word_of_int src_port) @ be16 (word_of_int dst_port) @ be16 (word_of_int (8 + len)) @ be16 0)))"

definition write_tcp_header :: "int \<Rightarrow> int \<Rightarrow> 32 word \<Rightarrow> fault + byte list" where
  "write_tcp_header src_port dst_port seq_nr =
    bindE (assertE (src_port \<noteq> 0)) (\<lambda>_.
    bindE (assertE (dst_port \<noteq> 0)) (\<lambda>_.
    Inr (be16 (word_of_int src_port) @ be16 (word_of_int dst_port) @ be32 seq_nr @ be32 0 @
      [80, 0] @ be16 65535 @ be16 0 @ be16 0)))"

section \<open>Records\<close>

definition sim_start_time :: "32 word" where
  "sim_start_time = 441794304"

definition pcap_secs :: "int \<Rightarrow> 32 word" where
  "pcap_secs t = word_of_int (cdiv t 1000000000)"

definition pcap_usecs :: "int \<Rightarrow> 32 word" where
  "pcap_usecs t = word_of_int (cdiv (t - uint (pcap_secs t) * 1000000000) 1000)"

definition to_v4 :: "address \<Rightarrow> fault + 32 word" where
  "to_v4 a = (case a of V4 w \<Rightarrow> Inr w | V6 _ \<Rightarrow> Inl Bad_address_cast)"

definition log_tcp :: "int \<Rightarrow> packet \<Rightarrow> endpoint \<Rightarrow> endpoint \<Rightarrow> fault + byte list" where
  "log_tcp t p src dst =
    (let n = 20 + 20 + length (p_buffer p); psize = word_of_nat n :: 32 word in
     bindE (to_v4 (ep_address src)) (\<lambda>s. bindE (to_v4 (ep_address dst)) (\<lambda>d.
     bindE (write_tcp_header (uint (ep_port (p_from p))) (uint (ep_port dst)) (p_byte_counter p)) (\<lambda>h.
     Inr (le32 (sim_start_time + pcap_secs t) @ le32 (pcap_usecs t) @ le32 psize @ le32 psize @
       write_ip_header (uint psize) 6 s d @ h @ p_buffer p)))))"

definition log_udp :: "int \<Rightarrow> packet \<Rightarrow> endpoint \<Rightarrow> endpoint \<Rightarrow> fault + byte list" where
  "log_udp t p src dst =
    (let n = 20 + 8 + length (p_buffer p); psize = word_of_nat n :: 32 word in
     bindE (to_v4 (ep_address src)) (\<lambda>s. bindE (to_v4 (ep_address dst)) (\<lambda>d.
     bindE (write_udp_header (int (length (p_buffer p))) (uint (ep_port (p_from p))) (uint (ep_port dst))) (\<lambda>h.
     Inr (le32 (sim_start_time + pcap_secs t) @ le32 (pcap_usecs t) @ le32 psize @ le32 psize @
       write_ip_header (uint psize) 17 s d @ h @ p_buffer p)))))"

section \<open>A reader of the format\<close>

definition read_be16 :: "byte list \<Rightarrow> 16 word" where
  "read_be16 bs = (case bs of [a, b] \<Rightarrow> push_bit 8 (ucast a) OR ucast b | _ \<Rightarrow> 0)"

definition read_be32 :: "byte list \<Rightarrow> 32 word" where
  "read_be32 bs =
    (case bs of [a, b, c, d] \<Rightarrow>
       push_bit 24 (ucast a) OR push_bit 16 (ucast b) OR push_bit 8 (ucast c) OR ucast d
     | _ \<Rightarrow> 0)"

text \<open>The records of a capture: seconds, microseconds and the captured frame.\<close>

function read_records :: "byte list \<Rightarrow> (32 word \<times> 32 word \<times> byte list) list option" where
  "read_records bs =
    (if bs = [] then Some []
     else if length bs < 16 then None
     else
       let field = (\<lambda>i. read_be32 (rev (take 4 (drop i bs)))); n = unat (field 8) in
       if length bs < 16 + n then None
       else map_option (Cons (field 0, field 4, take n (drop 16 bs))) (read_records (drop (16 + n) bs)))"
  by pat_completeness auto
termination
  by (relation "measure length") auto

declare read_records.simps [simp del]

text \<open>Source and destination address, protocol and the rest of an IP frame with a 20 byte header.\<close>

definition read_ip :: "byte list \<Rightarrow> 32 word \<times> 32 word \<times> byte \<times> byte list" where
  "read_ip f = (read_be32 (take 4 (drop 12 f)), read_be32 (take 4 (drop 16 f)), f ! 9, drop 20 f)"

text \<open>Ports, sequence number and payload of a TCP segment with a 20 byte header.\<close>

definition read_tcp :: "byte list \<Rightarrow> 16 word \<times> 16 word \<times> 32 word \<times> byte list" where
  "read_tcp f = (read_be16 (take 2 f), read_be16 (take 2 (drop 2 f)), read_be32 (take 4 (drop 4 f)), drop 20 f)"

text \<open>Ports, length and payload of a UDP datagram.\<close>

definition read_udp :: "byte list \<Rightarrow> 16 word \<times> 16 word \<times> 16 word \<times> byte list" where
  "read_udp f = (read_be16 (take 2 f), read_be16 (take 2 (drop 2 f)), read_be16 (take 2 (drop 4 f)), drop 8 f)"

section \<open>Lemmas\<close>

lemma be16_length [simp]: "length (be16 w) = 2" "length (le16 w) = 2"
  by (simp_all add: be16_def le16_def)

lemma be32_length [simp]: "length (be32 w) = 4" "length (le32 w) = 4"
  by (simp_all add: be32_def le32_def)

lemma read_be16 [simp]: "read_be16 (be16 w) = w"
  by (rule bit_word_eqI)
    (auto simp: read_be16_def be16_def bit_simps simp flip: not_less)

lemma read_be32 [simp]: "read_be32 (be32 w) = w" "read_be32 (rev (le32 w)) = w"
proof -
  show "read_be32 (be32 w) = w"
  proof (rule bit_word_eqI)
    fix n
    assume "n < LENGTH(32)"
    then have n: "n < 32" by simp
    consider "n < 8" | "8 \<le> n" "n < 16" | "16 \<le> n" "n < 24" | "24 \<le> n"
      by linarith
    then show "bit (read_be32 (be32 w)) n = bit w n"
      using n by cases (auto simp: read_be32_def be32_def bit_simps)
  qed
  then show "read_be32 (rev (le32 w)) = w"
    by (simp add: le32_def)
qed

text \<open>The frame of a record, and reading one record off the front.\<close>

definition pcap_record :: "int \<Rightarrow> byte list \<Rightarrow> byte list" where
  "pcap_record t frame =
    le32 (sim_start_time + pcap_secs t) @ le32 (pcap_usecs t) @
    le32 (word_of_nat (length frame)) @ le32 (word_of_nat (length frame)) @ frame"

lemma read_records_record:
  assumes "length frame < 2 ^ 32"
  shows "read_records (pcap_record t frame @ rest) =
    map_option (Cons (sim_start_time + pcap_secs t, pcap_usecs t, frame)) (read_records rest)"
proof -
  have n: "unat (word_of_nat (length frame) :: 32 word) = length frame"
    using assms by (simp add: unat_of_nat take_bit_nat_eq_self)
  have "le32 w \<noteq> []" for w
    by (simp add: le32_def be32_def)
  then show ?thesis
    by (subst read_records.simps) (simp add: pcap_record_def n Let_def)
qed

lemma read_records_Nil [simp]: "read_records [] = Some []"
  by (simp add: read_records.simps)

lemma log_tcp_record:
  assumes "log_tcp t p src dst = Inr bs"
  obtains s d h where "ep_address src = V4 s" and "ep_address dst = V4 d"
    and "write_tcp_header (uint (ep_port (p_from p))) (uint (ep_port dst)) (p_byte_counter p) = Inr h"
    and "bs = pcap_record t (write_ip_header (uint (word_of_nat (40 + length (p_buffer p)) :: 32 word)) 6 s d
      @ h @ p_buffer p)"
proof -
  from assms obtain s d h where ep: "ep_address src = V4 s" "ep_address dst = V4 d"
    and h: "write_tcp_header (uint (ep_port (p_from p))) (uint (ep_port dst)) (p_byte_counter p) = Inr h"
    and bs: "bs = le32 (sim_start_time + pcap_secs t) @ le32 (pcap_usecs t) @
      le32 (word_of_nat (40 + length (p_buffer p))) @ le32 (word_of_nat (40 + length (p_buffer p))) @
      write_ip_header (uint (word_of_nat (40 + length (p_buffer p)) :: 32 word)) 6 s d @ h @ p_buffer p"
    by (auto simp: log_tcp_def to_v4_def Let_def split: address.splits)
  have "length h = 20" using h by (auto simp: write_tcp_header_def)
  then show ?thesis
    using that [OF ep h] by (simp add: bs pcap_record_def write_ip_header_def)
qed

lemma log_udp_record:
  assumes "log_udp t p src dst = Inr bs"
  obtains s d h where "ep_address src = V4 s" and "ep_address dst = V4 d"
    and "write_udp_header (int (length (p_buffer p))) (uint (ep_port (p_from p))) (uint (ep_port dst)) = Inr h"
    and "bs = pcap_record t (write_ip_header (uint (word_of_nat (28 + length (p_buffer p)) :: 32 word)) 17 s d
      @ h @ p_buffer p)"
proof -
  from assms obtain s d h where ep: "ep_address src = V4 s" "ep_address dst = V4 d"
    and h: "write_udp_header (int (length (p_buffer p))) (uint (ep_port (p_from p))) (uint (ep_port dst)) = Inr h"
    and bs: "bs = le32 (sim_start_time + pcap_secs t) @ le32 (pcap_usecs t) @
      le32 (word_of_nat (28 + length (p_buffer p))) @ le32 (word_of_nat (28 + length (p_buffer p))) @
      write_ip_header (uint (word_of_nat (28 + length (p_buffer p)) :: 32 word)) 17 s d @ h @ p_buffer p"
    by (auto simp: log_udp_def to_v4_def Let_def split: address.splits)
  have "length h = 8" using h by (auto simp: write_udp_header_def)
  then show ?thesis
    using that [OF ep h] by (simp add: bs pcap_record_def write_ip_header_def)
qed

lemma read_ip_frame: "read_ip (write_ip_header n proto s d @ rest) = (s, d, word_of_int proto, rest)"
  by (simp add: read_ip_def write_ip_header_def) (simp add: be16_def be32_def)

lemma read_tcp_frame:
  "write_tcp_header sp dp n = Inr h \<Longrightarrow>
    read_tcp (h @ rest) = (word_of_int sp, word_of_int dp, n, rest)"
  by (auto simp: read_tcp_def write_tcp_header_def)

lemma read_udp_frame:
  "write_udp_header n sp dp = Inr h \<Longrightarrow>
    read_udp (h @ rest) = (word_of_int sp, word_of_int dp, word_of_int (8 + n), rest)"
  by (auto simp: read_udp_def write_udp_header_def)

section \<open>Properties\<close>

text \<open>
  C40. A logged TCP packet reads back: whatever the capture goes on with, the reader returns
  first a record stamped with the simulated time, whose IP and TCP headers carry the addresses,
  the sender's and the receiver's port, the packet's byte counter as sequence number, and
  exactly the packet's payload.
\<close>

theorem log_tcp_reads_back:
  assumes "log_tcp t p (Endpoint sa sp) (Endpoint da dp) = Inr bs" and "length (p_buffer p) < 2 ^ 32 - 40"
    and "read_records rest = Some rs"
  shows "\<exists>frame s d seg. read_records (bs @ rest) =
      Some ((sim_start_time + pcap_secs t, pcap_usecs t, frame) # rs) \<and>
    sa = V4 s \<and> da = V4 d \<and> read_ip frame = (s, d, 6, seg) \<and>
    read_tcp seg = (ep_port (p_from p), dp, p_byte_counter p, p_buffer p)"
proof -
  from assms(1) obtain s d h where ep: "sa = V4 s" "da = V4 d"
    and h: "write_tcp_header (uint (ep_port (p_from p))) (uint dp) (p_byte_counter p) = Inr h"
    and bs: "bs = pcap_record t (write_ip_header (uint (word_of_nat (40 + length (p_buffer p)) :: 32 word)) 6 s d
      @ h @ p_buffer p)" (is "_ = pcap_record t ?frame")
    by (rule log_tcp_record) auto
  have "length h = 20" using h by (auto simp: write_tcp_header_def)
  then have "length ?frame = 40 + length (p_buffer p)"
    by (simp add: write_ip_header_def)
  with assms(2) have "length ?frame < 2 ^ 32" by simp
  from read_records_record [OF this] have "read_records (bs @ rest) =
      Some ((sim_start_time + pcap_secs t, pcap_usecs t, ?frame) # rs)"
    by (simp add: bs assms(3))
  with ep read_ip_frame read_tcp_frame [OF h] show ?thesis
    by force
qed

lemma log_tcp_reads_back_witness:
  "\<exists>bs. log_tcp 1500000000 (new_packet\<lparr>p_buffer := [1, 2, 3], p_from := Endpoint (V4 5) 2000\<rparr>)
      (Endpoint (V4 5) 2000) (Endpoint (V4 6) 80) = Inr bs \<and>
    (\<exists>frame s d seg. read_records (bs @ []) =
      Some [(sim_start_time + pcap_secs 1500000000, pcap_usecs 1500000000, frame)] \<and>
      read_ip frame = (s, d, 6, seg) \<and> read_tcp seg = (2000, 80, 0, [1, 2, 3]))"
proof -
  let ?p = "new_packet\<lparr>p_buffer := [1, 2, 3], p_from := Endpoint (V4 5) 2000\<rparr>"
  have "\<exists>bs. log_tcp 1500000000 ?p (Endpoint (V4 5) 2000) (Endpoint (V4 6) 80) = Inr bs"
    by (simp add: log_tcp_def to_v4_def write_tcp_header_def Let_def)
  then obtain bs where bs: "log_tcp 1500000000 ?p (Endpoint (V4 5) 2000) (Endpoint (V4 6) 80) = Inr bs"
    by blast
  have "length (p_buffer ?p) < 2 ^ 32 - 40" by simp
  from log_tcp_reads_back [OF bs this read_records_Nil] bs show ?thesis
    by (auto simp: new_packet_def)
qed

text \<open>
  A logged UDP packet reads back: the record carries the simulated time, the addresses, the
  ports, the length of header and payload modulo \<open>2 ^ 16\<close> and the payload.
\<close>

theorem log_udp_reads_back:
  assumes "log_udp t p (Endpoint sa sp) (Endpoint da dp) = Inr bs" and "length (p_buffer p) < 2 ^ 32 - 28"
    and "read_records rest = Some rs"
  shows "\<exists>frame s d seg. read_records (bs @ rest) =
      Some ((sim_start_time + pcap_secs t, pcap_usecs t, frame) # rs) \<and>
    sa = V4 s \<and> da = V4 d \<and> read_ip frame = (s, d, 17, seg) \<and>
    read_udp seg = (ep_port (p_from p), dp, word_of_nat (8 + length (p_buffer p)), p_buffer p)"
proof -
  from assms(1) obtain s d h where ep: "sa = V4 s" "da = V4 d"
    and h: "write_udp_header (int (length (p_buffer p))) (uint (ep_port (p_from p))) (uint dp) = Inr h"
    and bs: "bs = pcap_record t (write_ip_header (uint (word_of_nat (28 + length (p_buffer p)) :: 32 word)) 17 s d
      @ h @ p_buffer p)" (is "_ = pcap_record t ?frame")
    by (rule log_udp_record) auto
  have "length h = 8" using h by (auto simp: write_udp_header_def)
  then have "length ?frame = 28 + length (p_buffer p)"
    by (simp add: write_ip_header_def)
  with assms(2) have "length ?frame < 2 ^ 32" by simp
  from read_records_record [OF this] have "read_records (bs @ rest) =
      Some ((sim_start_time + pcap_secs t, pcap_usecs t, ?frame) # rs)"
    by (simp add: bs assms(3))
  with ep read_ip_frame read_udp_frame [OF h] show ?thesis
    by force
qed

lemma log_udp_reads_back_witness:
  "\<exists>bs frame s d seg. log_udp 0 (new_packet\<lparr>p_buffer := [7], p_from := Endpoint (V4 5) 2000\<rparr>)
      (Endpoint (V4 5) 2000) (Endpoint (V4 6) 53) = Inr bs \<and>
    read_records (bs @ []) = Some [(sim_start_time + pcap_secs 0, pcap_usecs 0, frame)] \<and>
    read_ip frame = (s, d, 17, seg) \<and> read_udp seg = (2000, 53, 9, [7])"
proof -
  let ?p = "new_packet\<lparr>p_buffer := [7], p_from := Endpoint (V4 5) 2000\<rparr>"
  have "\<exists>bs. log_udp 0 ?p (Endpoint (V4 5) 2000) (Endpoint (V4 6) 53) = Inr bs"
    by (simp add: log_udp_def to_v4_def write_udp_header_def Let_def new_packet_def)
  then obtain bs where bs: "log_udp 0 ?p (Endpoint (V4 5) 2000) (Endpoint (V4 6) 53) = Inr bs"
    by blast
  have "length (p_buffer ?p) < 2 ^ 32 - 28" by simp
  from log_udp_reads_back [OF bs this read_records_Nil] bs show ?thesis
    by (auto simp: new_packet_def)
qed

end
