(* ===== verification/World.thy ===== *)
theory World
  imports Timers Ports Double_Time Pcap
begin

text \<open>
  The state of a simulation. Every C++ object that is reached through a pointer or a
  reference (sockets, acceptors, queues, sink forwarders, channels, resolvers, nodes) is
  named by a number, and the record \<open>world\<close> holds the state of each kind as a function
  of the number. Numbers of new objects come from \<open>w_next_id\<close>. The type \<open>'u\<close> is the type of
  the application's jobs. The order of the fields of \<open>tcp_socket\<close>, \<open>udp_socket\<close> and
  \<open>acceptor\<close> is the order of the classes in \<open>simulator.hpp\<close>, with \<open>u_\<close> before the name of
  a field of the UDP socket and \<open>q_\<close> before the name of a field of the queue, because the
  classes use the same names.

  Not recorded: allocation failures (\<open>std::bad_alloc\<close>), \<open>printf\<close> diagnostics and the
  lifetime of objects (a number is never used again).
\<close>

section \<open>Jobs, handlers and timers\<close>

text \<open>
  The function objects posted to the message queue: a queue's two continuations, a
  resolver's, the bound references to a UDP socket's send handlers, a call of a null
  function, and the application's own.
\<close>

datatype 'u job =
    Begin_send nat
  | Next_sent nat
  | On_lookup nat error_code
  | Udp_wait_send nat error_code
  | Udp_send nat error_code nat
  | Null_call
  | App 'u

type_synonym 'u handler = "error_code \<Rightarrow> 'u job"
type_synonym 'u io_handler = "error_code \<Rightarrow> nat \<Rightarrow> 'u job"

text \<open>\<open>std::bind(std::move(h), ec)\<close> and \<open>std::bind(std::move(h), ec, n)\<close>; \<open>h\<close> may be null.\<close>

definition bind_ec :: "'u handler option \<Rightarrow> error_code \<Rightarrow> 'u job" where
  "bind_ec h ec = (case h of None \<Rightarrow> Null_call | Some f \<Rightarrow> f ec)"

definition bind_io :: "'u io_handler option \<Rightarrow> error_code \<Rightarrow> nat \<Rightarrow> 'u job" where
  "bind_io h ec n = (case h of None \<Rightarrow> Null_call | Some f \<Rightarrow> f ec n)"

lemma bind_simps [simp]:
  "bind_ec (Some f) ec = f ec" "bind_io (Some g) ec n = g ec n"
  by (simp_all add: bind_ec_def bind_io_def)

datatype timer_id =
    Connect_timer nat
  | Recv_timer nat
  | Udp_recv_timer nat
  | Udp_send_timer nat
  | Forward_timer nat
  | Lookup_timer nat
  | User_timer nat

section \<open>Sockets\<close>

record socket_base =
  m_io_service :: nat
  m_bound_to :: endpoint
  m_user_bound_to :: endpoint
  m_forwarder :: "nat option"
  m_open :: bool
  m_non_blocking :: bool
  m_dont_fragment :: bool
  m_max_receive_queue_size :: int
  m_send_queue_time :: int

record 'u tcp_socket = socket_base +
  m_connect_handler :: "'u handler option"
  m_mss :: int
  m_send_handler :: "'u io_handler option"
  m_wait_send_handler :: "'u handler option"
  m_send_buffer :: "buffer list"
  m_incoming_queue :: "packet list"
  m_queue_size :: int
  m_recv_handler :: "'u io_handler option"
  m_wait_recv_handler :: "'u handler option"
  m_recv_buffer :: "buffer list"
  m_is_v4 :: bool
  m_recv_null_buffers :: bool
  m_send_null_buffers :: bool
  m_channel :: "nat option"
  m_next_outgoing_seq :: "64 word"
  m_next_incoming_seq :: "64 word"
  m_last_drop_seq :: "64 word"
  m_cwnd :: int
  m_bytes_in_flight :: int
  m_reorder_buffer :: "64 word \<rightharpoonup> packet"
  m_outstanding_packet_sizes :: "64 word \<rightharpoonup> int"
  m_outgoing_packets :: "packet list"

text \<open>What \<open>tcp::acceptor\<close> adds to the socket it derives from.\<close>

record 'u acceptor =
  m_accept_handler :: "'u handler option"
  m_accept_handler2 :: "'u io_handler option"
  m_queue_size_limit :: int
  m_incoming_conns :: "nat list"
  m_new_socket :: "nat option"
  m_accept_into :: "nat option"
  m_remote_endpoint :: "nat option"

record 'u udp_socket = socket_base +
  u_next_send :: int
  u_send_handler :: "'u io_handler option"
  u_wait_send_handler :: "'u handler option"
  u_recv_handler :: "'u io_handler option"
  u_wait_recv_handler :: "'u handler option"
  u_recv_buffer :: "buffer list"
  u_recv_sender :: "nat option"
  u_incoming_queue :: "packet list"
  u_recv_null_buffers :: bool
  u_queue_size :: int
  u_is_v4 :: bool

section \<open>The network\<close>

text \<open>\<open>timed_packet\<close> is a pair; what a \<open>sink_forwarder\<close> points at is a TCP or a UDP socket.\<close>

type_synonym timed_packet = "int \<times> packet"

record queue =
  q_max_queue_size :: int
  q_forwarding_latency :: int
  q_bandwidth :: int
  q_queue_size :: int
  q_queue :: "timed_packet list"
  q_last_forward :: int

datatype receiver = Tcp nat | Udp nat

text \<open>\<open>io_context\<close>: a node.\<close>

record node =
  m_ips :: "address list"
  m_outgoing_route :: "(address, route) ord_map"
  m_incoming_route :: "(address, route) ord_map"
  m_ios_stopped :: bool

text \<open>\<open>basic_resolver::result_t\<close> and \<open>basic_resolver\<close>.\<close>

record resolver_entry =
  e_endpoint :: endpoint
  e_host_name :: string
  e_service :: string

type_synonym 'u lookup_handler = "error_code \<Rightarrow> resolver_entry list \<Rightarrow> 'u job"

record 'u result_t =
  completion_time :: int
  r_err :: error_code
  r_ips :: "resolver_entry list"
  r_handler :: "'u lookup_handler"

record 'u resolver =
  m_ios :: nat
  m_queue :: "'u result_t list"

text \<open>
  The part of the user's \<open>configuration\<close> that is asked while the simulation runs. The
  implementation is the application's; it is taken to answer the same question the same way.
  \<open>hostname_lookup\<close> returns the result, the error code and the latency.
\<close>

record configuration =
  channel_route :: "address \<Rightarrow> address \<Rightarrow> route"
  path_mtu :: "address \<Rightarrow> address \<Rightarrow> int"
  hostname_lookup :: "address \<Rightarrow> string \<Rightarrow> address list \<times> error_code \<times> int"

section \<open>The world\<close>

text \<open>
  \<open>w_indeterminate\<close> is what an uninitialised \<open>bytes_sent\<close> holds; \<open>w_eps\<close> are the endpoints
  the application passes by reference; \<open>w_pcap\<close> is the content of the capture file, when there
  is one.
\<close>

record 'u world =
  w_sched :: "(timer_id, 'u job) sched"
  w_ports :: ports
  w_config :: configuration
  w_nodes :: "nat \<rightharpoonup> node"
  w_queues :: "nat \<Rightarrow> queue"
  w_forwarders :: "nat \<Rightarrow> receiver option"
  w_channels :: "nat \<Rightarrow> channel"
  w_tcp :: "nat \<Rightarrow> 'u tcp_socket"
  w_acceptors :: "nat \<rightharpoonup> 'u acceptor"
  w_udp :: "nat \<Rightarrow> 'u udp_socket"
  w_resolvers :: "nat \<Rightarrow> 'u resolver"
  w_mem :: memory
  w_eps :: "nat \<Rightarrow> endpoint"
  w_pcap :: "byte list option"
  w_indeterminate :: "32 word"
  w_next_id :: nat

text \<open>Packets are handed on through a parameter; theory \<open>Network\<close> supplies it.\<close>

type_synonym 'u net = "packet \<Rightarrow> 'u world \<Rightarrow> fault + 'u world"

section \<open>Access\<close>

definition upd_tcp :: "nat \<Rightarrow> ('u tcp_socket \<Rightarrow> 'u tcp_socket) \<Rightarrow> 'u world \<Rightarrow> 'u world" where
  "upd_tcp k f w = w\<lparr>w_tcp := (w_tcp w)(k := f (w_tcp w k))\<rparr>"

definition upd_udp :: "nat \<Rightarrow> ('u udp_socket \<Rightarrow> 'u udp_socket) \<Rightarrow> 'u world \<Rightarrow> 'u world" where
  "upd_udp k f w = w\<lparr>w_udp := (w_udp w)(k := f (w_udp w k))\<rparr>"

definition upd_queue :: "nat \<Rightarrow> (queue \<Rightarrow> queue) \<Rightarrow> 'u world \<Rightarrow> 'u world" where
  "upd_queue q f w = w\<lparr>w_queues := (w_queues w)(q := f (w_queues w q))\<rparr>"

definition upd_channel :: "nat \<Rightarrow> (channel \<Rightarrow> channel) \<Rightarrow> 'u world \<Rightarrow> 'u world" where
  "upd_channel c f w = w\<lparr>w_channels := (w_channels w)(c := f (w_channels w c))\<rparr>"

definition upd_sched :: "((timer_id, 'u job) sched \<Rightarrow> (timer_id, 'u job) sched) \<Rightarrow> 'u world \<Rightarrow> 'u world" where
  "upd_sched f w = w\<lparr>w_sched := f (w_sched w)\<rparr>"

definition post_job :: "'u job \<Rightarrow> 'u world \<Rightarrow> 'u world" where
  "post_job j w = upd_sched (post j) w"

definition set_forwarder :: "nat option \<Rightarrow> receiver option \<Rightarrow> 'u world \<Rightarrow> 'u world" where
  "set_forwarder f r w =
    (case f of None \<Rightarrow> w | Some i \<Rightarrow> w\<lparr>w_forwarders := (w_forwarders w)(i := r)\<rparr>)"

definition cancel_timer :: "timer_id \<Rightarrow> 'u world \<Rightarrow> 'u world" where
  "cancel_timer t w = upd_sched (\<lambda>s. snd (cancel t s)) w"

definition timer_expires_at :: "timer_id \<Rightarrow> int \<Rightarrow> 'u world \<Rightarrow> fault + 'u world" where
  "timer_expires_at t e w = bindE (expires_at t e (w_sched w)) (\<lambda>(_, s). Inr (w\<lparr>w_sched := s\<rparr>))"

definition timer_expires_after :: "timer_id \<Rightarrow> int \<Rightarrow> 'u world \<Rightarrow> fault + 'u world" where
  "timer_expires_after t e w = bindE (expires_after t e (w_sched w)) (\<lambda>(_, s). Inr (w\<lparr>w_sched := s\<rparr>))"

definition timer_async_wait :: "timer_id \<Rightarrow> 'u handler \<Rightarrow> 'u world \<Rightarrow> fault + 'u world" where
  "timer_async_wait t h w = bindE (async_wait t h (w_sched w)) (\<lambda>s. Inr (w\<lparr>w_sched := s\<rparr>))"

definition node_of :: "nat \<Rightarrow> 'u world \<Rightarrow> fault + node" where
  "node_of i w = derefE (w_nodes w i)"

definition channel_of :: "'u tcp_socket \<Rightarrow> 'u world \<Rightarrow> fault + channel" where
  "channel_of s w = bindE (derefE (m_channel s)) (\<lambda>c. Inr (w_channels w c))"

text \<open>\<open>io_context\<close>'s accessors; \<open>find(ip)->second\<close> of a missing key is undefined.\<close>

definition get_outgoing_route :: "nat \<Rightarrow> address \<Rightarrow> 'u world \<Rightarrow> fault + route" where
  "get_outgoing_route i ip w = bindE (node_of i w) (\<lambda>n. derefE (om_find ip (m_outgoing_route n)))"

definition get_incoming_route :: "nat \<Rightarrow> address \<Rightarrow> 'u world \<Rightarrow> fault + route" where
  "get_incoming_route i ip w = bindE (node_of i w) (\<lambda>n. derefE (om_find ip (m_incoming_route n)))"

definition get_path_mtu :: "nat \<Rightarrow> address \<Rightarrow> address \<Rightarrow> 'u world \<Rightarrow> fault + int" where
  "get_path_mtu i src dst w =
    bindE (node_of i w) (\<lambda>n.
    bindE (assertE (src \<in> set (m_ips n))) (\<lambda>_.
    Inr (path_mtu (w_config w) src dst)))"

definition ios_bind_socket :: "nat \<Rightarrow> nat \<Rightarrow> endpoint \<Rightarrow> 'u world \<Rightarrow> fault + (bind_result \<times> 'u world)" where
  "ios_bind_socket i k ep w =
    bindE (node_of i w) (\<lambda>n.
    bindE (node_bind_socket (m_ips n) k ep (w_ports w)) (\<lambda>(r, ps). Inr (r, w\<lparr>w_ports := ps\<rparr>)))"

definition ios_bind_udp_socket :: "nat \<Rightarrow> nat \<Rightarrow> endpoint \<Rightarrow> 'u world \<Rightarrow> fault + (bind_result \<times> 'u world)" where
  "ios_bind_udp_socket i k ep w =
    bindE (node_of i w) (\<lambda>n.
    bindE (node_bind_udp_socket (m_ips n) k ep (w_ports w)) (\<lambda>(r, ps). Inr (r, w\<lparr>w_ports := ps\<rparr>)))"

text \<open>\<open>m_io_service.sim().get_pcap()\<close> and the write to it.\<close>

definition write_log :: "(int \<Rightarrow> fault + byte list) \<Rightarrow> 'u world \<Rightarrow> fault + 'u world" where
  "write_log f w =
    (case w_pcap w of
       None \<Rightarrow> Inr w
     | Some bs \<Rightarrow> bindE (f (now (w_sched w))) (\<lambda>rec. Inr (w\<lparr>w_pcap := Some (bs @ rec)\<rparr>)))"

section \<open>Options and local endpoints\<close>

definition set_receive_buffer_size :: "int \<Rightarrow> 'a socket_base_scheme \<Rightarrow> 'a socket_base_scheme" where
  "set_receive_buffer_size v s = s\<lparr>m_max_receive_queue_size := v\<rparr>"

definition set_send_buffer_size :: "int \<Rightarrow> 'a socket_base_scheme \<Rightarrow> 'a socket_base_scheme" where
  "set_send_buffer_size v s = s\<lparr>m_send_queue_time := send_queue_time_us v\<rparr>"

text \<open>
  Any other option. The numbers of the options come from the system's headers, which define some of
  the three, so they are parameters.
\<close>

record platform =
  ip_dontfrag :: "int option"
  ip_dontfragment :: "int option"
  ip_mtu_discover :: "int option"
  ip_pmtudisc_do :: int

definition set_option :: "platform \<Rightarrow> int \<Rightarrow> int \<Rightarrow> 'a socket_base_scheme \<Rightarrow> 'a socket_base_scheme" where
  "set_option pf name v s =
    (let s1 = (if ip_dontfrag pf = Some name then s\<lparr>m_dont_fragment := (v \<noteq> 0)\<rparr> else s);
         s2 = (if ip_dontfragment pf = Some name then s1\<lparr>m_dont_fragment := (v \<noteq> 0)\<rparr> else s1)
     in if ip_mtu_discover pf = Some name then s2\<lparr>m_dont_fragment := (v = ip_pmtudisc_do pf)\<rparr> else s2)"

definition set_reuse_address :: "'a socket_base_scheme \<Rightarrow> 'a socket_base_scheme" where
  "set_reuse_address s = s"

definition get_receive_buffer_size :: "'a socket_base_scheme \<Rightarrow> int" where
  "get_receive_buffer_size s = m_max_receive_queue_size s"

definition set_non_blocking :: "bool \<Rightarrow> 'a socket_base_scheme \<Rightarrow> 'a socket_base_scheme" where
  "set_non_blocking b s = s\<lparr>m_non_blocking := b\<rparr>"

definition local_endpoint :: "'a socket_base_scheme \<Rightarrow> error_code \<times> endpoint" where
  "local_endpoint s = (if \<not> m_open s then (bad_descriptor, default_endpoint) else (success, m_user_bound_to s))"

definition local_bound_to :: "'a socket_base_scheme \<Rightarrow> error_code \<times> endpoint" where
  "local_bound_to s = (if \<not> m_open s then (bad_descriptor, default_endpoint) else (success, m_bound_to s))"

definition get_socket_incoming_route :: "'a socket_base_scheme \<Rightarrow> 'u world \<Rightarrow> fault + route" where
  "get_socket_incoming_route s w =
    bindE (get_incoming_route (m_io_service s) (ep_address (m_bound_to s)) w) (\<lambda>r.
    case m_forwarder s of
      None \<Rightarrow> Inl Assertion_failed
    | Some f \<Rightarrow> Inr (route_append_sink (Forwarder f) r))"

definition get_socket_outgoing_route :: "'a socket_base_scheme \<Rightarrow> 'u world \<Rightarrow> fault + route" where
  "get_socket_outgoing_route s w = get_outgoing_route (m_io_service s) (ep_address (m_bound_to s)) w"

section \<open>Frame facts\<close>

lemma upd_tcp_sel [simp]:
  "w_tcp (upd_tcp k f w) = (w_tcp w)(k := f (w_tcp w k))"
  "w_sched (upd_tcp k f w) = w_sched w"
  "w_ports (upd_tcp k f w) = w_ports w"
  "w_config (upd_tcp k f w) = w_config w"
  "w_nodes (upd_tcp k f w) = w_nodes w"
  "w_queues (upd_tcp k f w) = w_queues w"
  "w_forwarders (upd_tcp k f w) = w_forwarders w"
  "w_channels (upd_tcp k f w) = w_channels w"
  "w_acceptors (upd_tcp k f w) = w_acceptors w"
  "w_udp (upd_tcp k f w) = w_udp w"
  "w_resolvers (upd_tcp k f w) = w_resolvers w"
  "w_mem (upd_tcp k f w) = w_mem w"
  "w_eps (upd_tcp k f w) = w_eps w"
  "w_pcap (upd_tcp k f w) = w_pcap w"
  "w_indeterminate (upd_tcp k f w) = w_indeterminate w"
  "w_next_id (upd_tcp k f w) = w_next_id w"
  by (simp_all add: upd_tcp_def)

lemma upd_udp_sel [simp]:
  "w_udp (upd_udp k f w) = (w_udp w)(k := f (w_udp w k))"
  "w_sched (upd_udp k f w) = w_sched w"
  "w_ports (upd_udp k f w) = w_ports w"
  "w_config (upd_udp k f w) = w_config w"
  "w_nodes (upd_udp k f w) = w_nodes w"
  "w_queues (upd_udp k f w) = w_queues w"
  "w_forwarders (upd_udp k f w) = w_forwarders w"
  "w_channels (upd_udp k f w) = w_channels w"
  "w_tcp (upd_udp k f w) = w_tcp w"
  "w_acceptors (upd_udp k f w) = w_acceptors w"
  "w_resolvers (upd_udp k f w) = w_resolvers w"
  "w_mem (upd_udp k f w) = w_mem w"
  "w_eps (upd_udp k f w) = w_eps w"
  "w_pcap (upd_udp k f w) = w_pcap w"
  "w_indeterminate (upd_udp k f w) = w_indeterminate w"
  "w_next_id (upd_udp k f w) = w_next_id w"
  by (simp_all add: upd_udp_def)

lemma upd_queue_sel [simp]:
  "w_queues (upd_queue k f w) = (w_queues w)(k := f (w_queues w k))"
  "w_sched (upd_queue k f w) = w_sched w"
  "w_ports (upd_queue k f w) = w_ports w"
  "w_config (upd_queue k f w) = w_config w"
  "w_nodes (upd_queue k f w) = w_nodes w"
  "w_forwarders (upd_queue k f w) = w_forwarders w"
  "w_channels (upd_queue k f w) = w_channels w"
  "w_tcp (upd_queue k f w) = w_tcp w"
  "w_acceptors (upd_queue k f w) = w_acceptors w"
  "w_udp (upd_queue k f w) = w_udp w"
  "w_resolvers (upd_queue k f w) = w_resolvers w"
  "w_mem (upd_queue k f w) = w_mem w"
  "w_eps (upd_queue k f w) = w_eps w"
  "w_pcap (upd_queue k f w) = w_pcap w"
  "w_indeterminate (upd_queue k f w) = w_indeterminate w"
  "w_next_id (upd_queue k f w) = w_next_id w"
  by (simp_all add: upd_queue_def)

lemma upd_channel_sel [simp]:
  "w_channels (upd_channel k f w) = (w_channels w)(k := f (w_channels w k))"
  "w_sched (upd_channel k f w) = w_sched w"
  "w_ports (upd_channel k f w) = w_ports w"
  "w_config (upd_channel k f w) = w_config w"
  "w_nodes (upd_channel k f w) = w_nodes w"
  "w_queues (upd_channel k f w) = w_queues w"
  "w_forwarders (upd_channel k f w) = w_forwarders w"
  "w_tcp (upd_channel k f w) = w_tcp w"
  "w_acceptors (upd_channel k f w) = w_acceptors w"
  "w_udp (upd_channel k f w) = w_udp w"
  "w_resolvers (upd_channel k f w) = w_resolvers w"
  "w_mem (upd_channel k f w) = w_mem w"
  "w_eps (upd_channel k f w) = w_eps w"
  "w_pcap (upd_channel k f w) = w_pcap w"
  "w_indeterminate (upd_channel k f w) = w_indeterminate w"
  "w_next_id (upd_channel k f w) = w_next_id w"
  by (simp_all add: upd_channel_def)

lemma upd_sched_sel [simp]:
  "w_sched (upd_sched f w) = f (w_sched w)"
  "w_ports (upd_sched f w) = w_ports w"
  "w_config (upd_sched f w) = w_config w"
  "w_nodes (upd_sched f w) = w_nodes w"
  "w_queues (upd_sched f w) = w_queues w"
  "w_forwarders (upd_sched f w) = w_forwarders w"
  "w_channels (upd_sched f w) = w_channels w"
  "w_tcp (upd_sched f w) = w_tcp w"
  "w_acceptors (upd_sched f w) = w_acceptors w"
  "w_udp (upd_sched f w) = w_udp w"
  "w_resolvers (upd_sched f w) = w_resolvers w"
  "w_mem (upd_sched f w) = w_mem w"
  "w_eps (upd_sched f w) = w_eps w"
  "w_pcap (upd_sched f w) = w_pcap w"
  "w_indeterminate (upd_sched f w) = w_indeterminate w"
  "w_next_id (upd_sched f w) = w_next_id w"
  by (simp_all add: upd_sched_def)

lemma post_job_sel [simp]:
  "w_sched (post_job j w) = post j (w_sched w)"
  "w_ports (post_job j w) = w_ports w"
  "w_config (post_job j w) = w_config w"
  "w_nodes (post_job j w) = w_nodes w"
  "w_queues (post_job j w) = w_queues w"
  "w_forwarders (post_job j w) = w_forwarders w"
  "w_channels (post_job j w) = w_channels w"
  "w_tcp (post_job j w) = w_tcp w"
  "w_acceptors (post_job j w) = w_acceptors w"
  "w_udp (post_job j w) = w_udp w"
  "w_resolvers (post_job j w) = w_resolvers w"
  "w_mem (post_job j w) = w_mem w"
  "w_eps (post_job j w) = w_eps w"
  "w_pcap (post_job j w) = w_pcap w"
  "w_indeterminate (post_job j w) = w_indeterminate w"
  "w_next_id (post_job j w) = w_next_id w"
  by (simp_all add: post_job_def)

lemma cancel_timer_sel [simp]:
  "w_sched (cancel_timer t w) = snd (cancel t (w_sched w))"
  "w_ports (cancel_timer t w) = w_ports w"
  "w_config (cancel_timer t w) = w_config w"
  "w_nodes (cancel_timer t w) = w_nodes w"
  "w_queues (cancel_timer t w) = w_queues w"
  "w_forwarders (cancel_timer t w) = w_forwarders w"
  "w_channels (cancel_timer t w) = w_channels w"
  "w_tcp (cancel_timer t w) = w_tcp w"
  "w_acceptors (cancel_timer t w) = w_acceptors w"
  "w_udp (cancel_timer t w) = w_udp w"
  "w_resolvers (cancel_timer t w) = w_resolvers w"
  "w_mem (cancel_timer t w) = w_mem w"
  "w_eps (cancel_timer t w) = w_eps w"
  "w_pcap (cancel_timer t w) = w_pcap w"
  "w_indeterminate (cancel_timer t w) = w_indeterminate w"
  "w_next_id (cancel_timer t w) = w_next_id w"
  by (simp_all add: cancel_timer_def)

lemma set_forwarder_sel [simp]:
  "w_sched (set_forwarder i r w) = w_sched w"
  "w_ports (set_forwarder i r w) = w_ports w"
  "w_config (set_forwarder i r w) = w_config w"
  "w_nodes (set_forwarder i r w) = w_nodes w"
  "w_queues (set_forwarder i r w) = w_queues w"
  "w_channels (set_forwarder i r w) = w_channels w"
  "w_tcp (set_forwarder i r w) = w_tcp w"
  "w_acceptors (set_forwarder i r w) = w_acceptors w"
  "w_udp (set_forwarder i r w) = w_udp w"
  "w_resolvers (set_forwarder i r w) = w_resolvers w"
  "w_mem (set_forwarder i r w) = w_mem w"
  "w_eps (set_forwarder i r w) = w_eps w"
  "w_pcap (set_forwarder i r w) = w_pcap w"
  "w_indeterminate (set_forwarder i r w) = w_indeterminate w"
  "w_next_id (set_forwarder i r w) = w_next_id w"
  by (simp_all add: set_forwarder_def split: option.split)

section \<open>Arming a timer with a handler\<close>

text \<open>
  What keeps \<open>expires_at\<close> and \<open>async_wait\<close> from aborting: the simulation is not stopped, and
  no expired timer has a handler. Every operation of the timer class keeps it so.
\<close>

definition sched_ok :: "('t, 'j) sched \<Rightarrow> bool" where
  "sched_ok s \<longleftrightarrow> \<not> m_stopped s \<and> (\<forall>t. m_expired (timers s t) \<longrightarrow> m_handler (timers s t) = None)"

lemma sched_okD: "sched_ok s \<Longrightarrow> \<not> m_stopped s"
  "sched_ok s \<Longrightarrow> m_expired (timers s t) \<Longrightarrow> m_handler (timers s t) = None"
  by (simp_all add: sched_ok_def)

lemma sched_ok_post [simp]: "sched_ok (post j s) \<longleftrightarrow> sched_ok s"
  by (simp add: sched_ok_def)

lemma sched_ok_cancel [simp]: "sched_ok s \<Longrightarrow> sched_ok (snd (cancel t s))"
  by (auto simp: sched_ok_def sched_simps)

lemma sched_ok_upd:
  "sched_ok s \<Longrightarrow> \<not> m_stopped s' \<Longrightarrow> timers s' = (timers s)(t := x) \<Longrightarrow>
    (m_expired x \<Longrightarrow> m_handler x = None) \<Longrightarrow> sched_ok s'"
  by (simp add: sched_ok_def)

definition aborted_jobs :: "('t, 'j) sched \<Rightarrow> 't \<Rightarrow> 'j list" where
  "aborted_jobs s t =
    (if m_expired (timers s t) then [] else
     case m_handler (timers s t) of None \<Rightarrow> [] | Some h \<Rightarrow> [h operation_aborted])"

lemma timer_expires_at_ok:
  assumes "sched_ok (w_sched w)"
  obtains s where "timer_expires_at t e w = Inr (w\<lparr>w_sched := s\<rparr>)" and "sched_ok s"
    and "timers s = (timers (w_sched w))(t := \<lparr>m_expiration_time = e, m_handler = None, m_expired = False\<rparr>)"
    and "m_service s = m_service (w_sched w) @ aborted_jobs (w_sched w) t"
    and "g_simulation_time s = g_simulation_time (w_sched w)"
proof -
  let ?s = "w_sched w"
  define s1 where "s1 = snd (cancel t ?s)"
  define s2 where "s2 = set_timer t ((timers s1 t)\<lparr>m_expiration_time := e, m_expired := False\<rparr>) s1"
  define s where "s = s2\<lparr>m_timer_queue := before_upper (expiry s2) (expiry s2 t) (m_timer_queue s2) @ t #
      from_upper (expiry s2) (expiry s2 t) (m_timer_queue s2)\<rparr>"
  have run: "\<not> m_stopped s2" using assms by (simp add: s2_def s1_def sched_simps sched_ok_def)
  have ok: "expires_at t e ?s = Inr (fst (cancel t ?s), s)"
    using run by (simp add: expires_at_def Let_def split_beta add_timer_def s_def s2_def s1_def)
  have tm: "timers s = (timers ?s)(t := \<lparr>m_expiration_time = e, m_handler = None, m_expired = False\<rparr>)"
    using sched_okD(2) [OF assms, of t]
    by (auto simp: s_def s2_def s1_def sched_simps fun_eq_iff)
  show ?thesis
  proof (rule that)
    show "timer_expires_at t e w = Inr (w\<lparr>w_sched := s\<rparr>)"
      by (simp add: timer_expires_at_def ok)
    show "sched_ok s"
      using assms _ tm by (rule sched_ok_upd) (use run in \<open>simp_all add: s_def\<close>)
    show "m_service s = m_service ?s @ aborted_jobs ?s t"
      by (auto simp: s_def s2_def s1_def sched_simps aborted_jobs_def)
    show "g_simulation_time s = g_simulation_time ?s"
      by (simp add: s_def s2_def s1_def sched_simps)
  qed (rule tm)
qed

text \<open>Arming a timer and waiting on it, as the queue and the sockets do, always succeeds.\<close>

lemma arm_and_wait_ok:
  assumes "sched_ok (w_sched w)"
  obtains s where "bindE (timer_expires_at t e w) (timer_async_wait t h) = Inr (w\<lparr>w_sched := s\<rparr>)"
    and "sched_ok s"
    and "timers s = (timers (w_sched w))(t := \<lparr>m_expiration_time = e, m_handler = Some h, m_expired = False\<rparr>)"
    and "m_service s = m_service (w_sched w) @ aborted_jobs (w_sched w) t"
    and "g_simulation_time s = g_simulation_time (w_sched w)"
proof -
  obtain s where s: "timer_expires_at t e w = Inr (w\<lparr>w_sched := s\<rparr>)" "sched_ok s"
    "timers s = (timers (w_sched w))(t := \<lparr>m_expiration_time = e, m_handler = None, m_expired = False\<rparr>)"
    "m_service s = m_service (w_sched w) @ aborted_jobs (w_sched w) t"
    "g_simulation_time s = g_simulation_time (w_sched w)"
    using timer_expires_at_ok [OF assms] by metis
  let ?s = "set_timer t ((timers s t)\<lparr>m_handler := Some h\<rparr>) s"
  show ?thesis
  proof (rule that [of ?s])
    show "bindE (timer_expires_at t e w) (timer_async_wait t h) = Inr (w\<lparr>w_sched := ?s\<rparr>)"
      using s(1) by (simp add: timer_async_wait_def async_wait_def s(3) Let_def)
    show "sched_ok ?s"
      using s(2) _ set_timer_simps(1) by (rule sched_ok_upd) (use s(2,3) in \<open>simp_all add: sched_ok_def\<close>)
  qed (simp_all add: s(3-5))
qed

end
