(* ===== verification/Tcp_Socket.thy ===== *)
theory Tcp_Socket
  imports World
begin

text \<open>
  \<open>tcp::socket\<close> (\<open>tcp_socket.cpp\<close>) and \<open>simulation::internal_connect\<close>. Every operation
  takes the number \<open>k\<close> of the socket. Operations that hand packets to the network take the
  parameter \<open>fwd\<close> (\<open>forward_packet\<close>): a route without a queue delivers a packet before
  \<open>forward_packet\<close> returns, so the world is read again after each call of it. An error code
  passed by reference is part of the result; the calls are those with a clear one, except
  where it is a parameter. The \<open>try\<close> blocks of \<open>open\<close>, \<open>close\<close> and \<open>bind\<close> catch exceptions
  that nothing inside them throws (\<open>std::bad_alloc\<close> apart). Buffers are shorter than 2 GiB,
  so that \<open>int(buf.size())\<close> is their size.
\<close>

section \<open>Construction, move and destruction\<close>

definition new_tcp_socket :: "nat \<Rightarrow> 'u tcp_socket" where
  "new_tcp_socket ios = \<lparr>m_io_service = ios, m_bound_to = default_endpoint,
    m_user_bound_to = default_endpoint, m_forwarder = None, m_open = False, m_non_blocking = False,
    m_dont_fragment = False, m_max_receive_queue_size = 64 * 1024, m_send_queue_time = 200000,
    m_connect_handler = None, m_mss = 1475, m_send_handler = None, m_wait_send_handler = None,
    m_send_buffer = [], m_incoming_queue = [], m_queue_size = 0, m_recv_handler = None,
    m_wait_recv_handler = None, m_recv_buffer = [], m_is_v4 = True, m_recv_null_buffers = False,
    m_send_null_buffers = False, m_channel = None, m_next_outgoing_seq = 0, m_next_incoming_seq = 0,
    m_last_drop_seq = 0, m_cwnd = 1475 * 2, m_bytes_in_flight = 0, m_reorder_buffer = Map.empty,
    m_outstanding_packet_sizes = Map.empty, m_outgoing_packets = []\<rparr>"

definition tcp_construct :: "nat \<Rightarrow> 'u world \<Rightarrow> nat \<times> 'u world" where
  "tcp_construct ios w =
    (let k = w_next_id w;
         w1 = upd_tcp k (\<lambda>_. new_tcp_socket ios) (w\<lparr>w_next_id := Suc k\<rparr>)
     in (k, upd_sched (\<lambda>s. timer_construct (Recv_timer k) (timer_construct (Connect_timer k) s)) w1))"

text \<open>
  The default move constructor of a timer copies the expiry and the flag and takes the handler;
  the entry of the simulation's timer queue keeps pointing at the old timer.
\<close>

definition move_timer :: "timer_id \<Rightarrow> timer_id \<Rightarrow> 'u world \<Rightarrow> 'u world" where
  "move_timer t t' w = upd_sched (\<lambda>s.
    set_timer t ((timers s t)\<lparr>m_handler := None\<rparr>) (set_timer t' (timers s t) s)) w"

definition tcp_move :: "nat \<Rightarrow> 'u world \<Rightarrow> fault + (nat \<times> 'u world)" where
  "tcp_move k w =
    (let k' = w_next_id w; s = w_tcp w k;
         w1 = upd_tcp k' (\<lambda>_. s) (w\<lparr>w_next_id := Suc k'\<rparr>);
         w2 = move_timer (Recv_timer k) (Recv_timer k') (move_timer (Connect_timer k) (Connect_timer k') w1);
         w3 = set_forwarder (m_forwarder s) (Some (Tcp k')) w2;
         w4 = upd_tcp k (\<lambda>s. s\<lparr>m_connect_handler := None, m_send_handler := None,
           m_wait_send_handler := None, m_send_buffer := [], m_incoming_queue := [],
           m_recv_handler := None, m_wait_recv_handler := None, m_recv_buffer := [],
           m_channel := None, m_reorder_buffer := Map.empty,
           m_outstanding_packet_sizes := Map.empty, m_outgoing_packets := [],
           m_forwarder := None, m_open := False, m_bound_to := default_endpoint\<rparr>) w3
     in if m_bound_to s \<noteq> default_endpoint then
          bindE (rebind_socket k k' (m_bound_to s) (w_ports w4)) (\<lambda>ps. Inr (k', w4\<lparr>w_ports := ps\<rparr>))
        else Inr (k', w4))"

section \<open>Cancelling\<close>

definition abort_recv_handlers :: "nat \<Rightarrow> 'u world \<Rightarrow> 'u world" where
  "abort_recv_handlers k w =
    (let s = w_tcp w k;
         w1 = (if m_recv_handler s \<noteq> None then post_job (bind_io (m_recv_handler s) operation_aborted 0) w else w);
         w2 = (if m_wait_recv_handler s \<noteq> None
               then post_job (bind_ec (m_wait_recv_handler s) operation_aborted) w1 else w1);
         w3 = cancel_timer (Recv_timer k) w2
     in upd_tcp k (\<lambda>s. s\<lparr>m_recv_handler := None, m_wait_recv_handler := None, m_recv_buffer := [],
          m_recv_null_buffers := False\<rparr>) w3)"

definition abort_send_handlers :: "nat \<Rightarrow> 'u world \<Rightarrow> 'u world" where
  "abort_send_handlers k w =
    (let s = w_tcp w k;
         w1 = (if m_send_handler s \<noteq> None then post_job (bind_io (m_send_handler s) operation_aborted 0) w else w);
         w2 = (if m_wait_send_handler s \<noteq> None
               then post_job (bind_ec (m_wait_send_handler s) operation_aborted) w1 else w1)
     in upd_tcp k (\<lambda>s. s\<lparr>m_send_handler := None, m_wait_send_handler := None, m_send_buffer := [],
          m_send_null_buffers := False\<rparr>) w2)"

definition tcp_cancel :: "nat \<Rightarrow> 'u world \<Rightarrow> 'u world" where
  "tcp_cancel k w =
    (let w1 = abort_send_handlers k (abort_recv_handlers k w); s = w_tcp w1 k in
     if m_connect_handler s \<noteq> None then
       upd_tcp k (\<lambda>s. s\<lparr>m_connect_handler := None, m_channel := None\<rparr>)
         (post_job (bind_ec (m_connect_handler s) operation_aborted) w1)
     else w1)"

definition tcp_unbind :: "nat \<Rightarrow> 'u world \<Rightarrow> 'u world" where
  "tcp_unbind k w =
    (let s = w_tcp w k in
     if m_bound_to s \<noteq> default_endpoint then
       upd_tcp k (\<lambda>s. s\<lparr>m_bound_to := default_endpoint, m_user_bound_to := default_endpoint\<rparr>)
         (w\<lparr>w_ports := unbind_socket k (m_bound_to s) (w_ports w)\<rparr>)
     else w)"

definition tcp_drop_forwarder :: "nat \<Rightarrow> 'u world \<Rightarrow> 'u world" where
  "tcp_drop_forwarder k w =
    upd_tcp k (\<lambda>s. s\<lparr>m_forwarder := None\<rparr>) (set_forwarder (m_forwarder (w_tcp w k)) None w)"

definition tcp_destruct :: "nat \<Rightarrow> 'u world \<Rightarrow> 'u world" where
  "tcp_destruct k w =
    (let w1 = upd_tcp k (\<lambda>s. s\<lparr>m_channel := None\<rparr>) w;
         w2 = tcp_unbind k w1;
         w3 = upd_tcp k (\<lambda>s. s\<lparr>m_open := False\<rparr>) w2
     in tcp_cancel k (tcp_drop_forwarder k w3))"

section \<open>Sending\<close>

definition window_full :: "'u tcp_socket \<Rightarrow> bool" where
  "window_full s \<longleftrightarrow> m_cwnd s < m_bytes_in_flight s + m_mss s"

definition send_packet :: "'u net \<Rightarrow> nat \<Rightarrow> packet \<Rightarrow> 'u world \<Rightarrow> fault + 'u world" where
  "send_packet fwd k p w =
    (let n = length (p_buffer p);
         w1 = upd_tcp k (\<lambda>s. s\<lparr>m_bytes_in_flight := m_bytes_in_flight s + int n,
           m_outstanding_packet_sizes := (m_outstanding_packet_sizes s)(p_seq_nr p \<mapsto> int n)\<rparr>) w;
         s = w_tcp w1 k
     in bindE (derefE (m_channel s)) (\<lambda>c.
        let ch = w_channels w1 c in
        bindE (self_idx ch (m_bound_to s)) (\<lambda>idx.
        let p' = p\<lparr>p_byte_counter := c_bytes_sent ch idx\<rparr>;
            ch' = ch\<lparr>c_bytes_sent := (c_bytes_sent ch)(idx := c_bytes_sent ch idx + word_of_nat n)\<rparr>;
            w2 = upd_channel c (\<lambda>_. ch') w1
        in bindE (write_log (\<lambda>t. bindE (remote_idx ch' (m_bound_to s)) (\<lambda>remote.
                 log_tcp t p' (m_bound_to s) (c_ep ch' remote))) w2) (\<lambda>w3.
           fwd p' w3))))"

text \<open>
  \<open>close\<close> in two parts: the end of the connection, told to the other side when it is
  established, and the reset of the socket.
\<close>

definition close_channel :: "'u net \<Rightarrow> nat \<Rightarrow> 'u world \<Rightarrow> fault + 'u world" where
  "close_channel fwd k w =
    (let s = w_tcp w k in
     case m_channel s of
       None \<Rightarrow> Inr w
     | Some c \<Rightarrow>
         bindE (remote_idx (w_channels w c) (m_bound_to s)) (\<lambda>remote.
         let hops = c_hops (w_channels w c) remote in
         bindE (if hops \<noteq> [] \<and> m_connect_handler s = None then
                  let p = new_packet\<lparr>p_type := Error, p_ec := eof, p_from := m_bound_to s,
                            p_overhead := 40, p_hops := hops, p_seq_nr := m_next_outgoing_seq s\<rparr>
                  in send_packet fwd k p (upd_tcp k (\<lambda>s. s\<lparr>m_next_outgoing_seq := m_next_outgoing_seq s + 1\<rparr>) w)
                else Inr w) (\<lambda>w1.
         Inr (upd_tcp k (\<lambda>s. s\<lparr>m_channel := None\<rparr>) w1))))"

definition reset_socket :: "nat \<Rightarrow> 'u world \<Rightarrow> 'u world" where
  "reset_socket k w =
    (let w1 = upd_tcp k (\<lambda>s. s\<lparr>m_open := False\<rparr>) (tcp_unbind k w);
         w2 = tcp_drop_forwarder k w1;
         w3 = upd_tcp k (\<lambda>s. s\<lparr>m_queue_size := 0, m_mss := 1475, m_cwnd := 1475 * 2, m_bytes_in_flight := 0,
           m_outstanding_packet_sizes := Map.empty, m_recv_null_buffers := False,
           m_send_null_buffers := False, m_next_incoming_seq := 0, m_next_outgoing_seq := 0,
           m_last_drop_seq := 0\<rparr>) w2
     in tcp_cancel k w3)"

definition tcp_close :: "'u net \<Rightarrow> nat \<Rightarrow> 'u world \<Rightarrow> fault + 'u world" where
  "tcp_close fwd k w = bindE (close_channel fwd k w) (\<lambda>w1. Inr (reset_socket k w1))"

section \<open>Opening and binding\<close>

definition tcp_open :: "'u net \<Rightarrow> nat \<Rightarrow> bool \<Rightarrow> 'u world \<Rightarrow> fault + 'u world" where
  "tcp_open fwd k v4 w =
    bindE (tcp_close fwd k w) (\<lambda>w1.
    let f = w_next_id w1 in
    Inr (set_forwarder (Some f) (Some (Tcp k))
      (upd_tcp k (\<lambda>s. s\<lparr>m_open := True, m_is_v4 := v4, m_forwarder := Some f\<rparr>)
        (w1\<lparr>w_next_id := Suc f\<rparr>))))"

definition tcp_bind :: "nat \<Rightarrow> endpoint \<Rightarrow> 'u world \<Rightarrow> fault + (error_code \<times> 'u world)" where
  "tcp_bind k ep w =
    (let s = w_tcp w k in
     if \<not> m_open s then Inr (bad_descriptor, w)
     else if is_v4 (ep_address ep) \<noteq> m_is_v4 s then Inr (address_family_not_supported, w)
     else
       bindE (ios_bind_socket (m_io_service s) k ep w) (\<lambda>((ec, addr), w1).
       if ec \<noteq> success then Inr (ec, w1)
       else Inr (success, upd_tcp k (\<lambda>s. s\<lparr>m_bound_to := addr, m_user_bound_to := addr\<rparr>) w1)))"

text \<open>\<open>socket::internal_connect\<close>: attaching an incoming connection to a socket.\<close>

definition tcp_internal_connect ::
  "'u net \<Rightarrow> nat \<Rightarrow> endpoint \<Rightarrow> nat \<Rightarrow> 'u world \<Rightarrow> fault + 'u world" where
  "tcp_internal_connect fwd k bind_ip c w =
    bindE (tcp_open fwd k (m_is_v4 (w_tcp w k)) w) (\<lambda>w1.
    let w2 = upd_tcp k (\<lambda>s. s\<lparr>m_bound_to := bind_ip, m_user_bound_to := bind_ip, m_channel := Some c\<rparr>) w1 in
    case m_forwarder (w_tcp w2 k) of
      None \<Rightarrow> Inl Assertion_failed
    | Some f \<Rightarrow>
        bindE (replace_last (Forwarder f) (c_hops (w_channels w2 c) 1)) (\<lambda>r.
        Inr (upd_channel c (\<lambda>ch. ch\<lparr>c_hops := (c_hops ch)(1 := r)\<rparr>) w2)))"

section \<open>Queries\<close>

fun available_in :: "packet list \<Rightarrow> nat \<Rightarrow> error_code \<times> nat" where
  "available_in [] ret = (success, ret)"
| "available_in (p # ps) ret =
    (if p_type p = Error then (if 0 < ret then (success, ret) else (p_ec p, 0))
     else available_in ps (ret + length (p_buffer p)))"

definition available :: "'u tcp_socket \<Rightarrow> error_code \<times> nat" where
  "available s =
    (if \<not> m_open s then (bad_descriptor, 0)
     else if m_channel s = None then (not_connected, 0)
     else if m_incoming_queue s = [] then (success, 0)
     else available_in (m_incoming_queue s) 0)"

definition remote_endpoint :: "nat \<Rightarrow> 'u world \<Rightarrow> fault + (error_code \<times> endpoint)" where
  "remote_endpoint k w =
    (let s = w_tcp w k in
     if \<not> m_open s then Inr (bad_descriptor, default_endpoint)
     else case m_channel s of
       None \<Rightarrow> Inr (not_connected, default_endpoint)
     | Some c \<Rightarrow>
         bindE (remote_idx (w_channels w c) (m_bound_to s)) (\<lambda>remote.
         Inr (success, c_visible_ep (w_channels w c) remote)))"

section \<open>Writing\<close>

text \<open>
  The inner loop of \<open>write_some_impl\<close> over one buffer of \<open>n\<close> bytes at \<open>a\<close>: the result is the
  count of bytes sent so far, and whether the congestion window filled up (then the caller
  returns; the count is positive there, so the branch for zero is dead).
\<close>

definition payload_packet :: "nat \<Rightarrow> route \<Rightarrow> byte list \<Rightarrow> 'u tcp_socket \<Rightarrow> packet" where
  "payload_packet k hops bs s =
    new_packet\<lparr>p_type := Payload, p_buffer := bs, p_from := m_bound_to s, p_overhead := 40,
      p_hops := hops, p_seq_nr := m_next_outgoing_seq s, p_drop_fun := Some k\<rparr>"

function write_buffer ::
  "'u net \<Rightarrow> nat \<Rightarrow> route \<Rightarrow> nat \<Rightarrow> nat \<Rightarrow> nat \<Rightarrow> 'u world \<Rightarrow> fault + (nat \<times> bool \<times> 'u world)" where
  "write_buffer fwd k hops a n ret w =
    (if n = 0 then Inr (ret, False, w)
     else
       let s = w_tcp w k in
       if m_mss s < 0 then Inl Undefined_behaviour
       else if m_mss s = 0 then Inl Diverges
       else
         let size = min n (nat (m_mss s));
             p = payload_packet k hops (load (w_mem w) a size) s;
             w1 = upd_tcp k (\<lambda>s. s\<lparr>m_next_outgoing_seq := m_next_outgoing_seq s + 1\<rparr>) w
         in bindE (send_packet fwd k p w1) (\<lambda>w2.
            if window_full (w_tcp w2 k) then Inr (ret + size, True, w2)
            else write_buffer fwd k hops (a + size) (n - size) (ret + size) w2))"
  by pat_completeness auto
termination
  by (relation "measure (\<lambda>(fwd, k, hops, a, n, ret, w). n)") auto

declare write_buffer.simps [simp del]

fun write_buffers ::
  "'u net \<Rightarrow> nat \<Rightarrow> route \<Rightarrow> buffer list \<Rightarrow> nat \<Rightarrow> 'u world \<Rightarrow> fault + (nat \<times> 'u world)" where
  "write_buffers fwd k hops [] ret w = Inr (ret, w)"
| "write_buffers fwd k hops ((a, n) # bufs) ret w =
    bindE (write_buffer fwd k hops a n ret w) (\<lambda>(ret', full, w').
    if full then Inr (ret', w') else write_buffers fwd k hops bufs ret' w')"

text \<open>\<open>ec\<close> keeps the value it came in with when the call succeeds.\<close>

definition write_some_impl ::
  "'u net \<Rightarrow> nat \<Rightarrow> buffer list \<Rightarrow> error_code \<Rightarrow> 'u world \<Rightarrow> fault + (nat \<times> error_code \<times> 'u world)" where
  "write_some_impl fwd k bufs ec w =
    (let s = w_tcp w k in
     if \<not> m_open s then Inr (0, bad_descriptor, w)
     else case m_channel s of
       None \<Rightarrow> Inr (0, not_connected, w)
     | Some c \<Rightarrow>
         if m_connect_handler s \<noteq> None then Inr (0, would_block, w)
         else
           bindE (remote_idx (w_channels w c) (m_bound_to s)) (\<lambda>remote.
           let hops = c_hops (w_channels w c) remote in
           if hops = [] then Inr (0, not_connected, w)
           else if window_full s then Inr (0, would_block, w)
           else bindE (write_buffers fwd k hops bufs 0 w) (\<lambda>(ret, w'). Inr (ret, ec, w'))))"

definition async_write_some_impl ::
  "'u net \<Rightarrow> nat \<Rightarrow> buffer list \<Rightarrow> 'u io_handler option \<Rightarrow> 'u world \<Rightarrow> fault + 'u world" where
  "async_write_some_impl fwd k bufs handler w =
    bindE (write_some_impl fwd k bufs success w) (\<lambda>(n, ec, w1).
    if ec = would_block then
      Inr (upd_tcp k (\<lambda>s. s\<lparr>m_send_handler := handler, m_send_buffer := bufs\<rparr>) w1)
    else
      Inr (upd_tcp k (\<lambda>s. s\<lparr>m_send_handler := None, m_send_buffer := []\<rparr>)
        (post_job (bind_io handler ec (if ec \<noteq> success then 0 else n)) w1)))"

definition async_write_some ::
  "'u net \<Rightarrow> nat \<Rightarrow> buffer list \<Rightarrow> 'u io_handler option \<Rightarrow> 'u world \<Rightarrow> fault + 'u world" where
  "async_write_some fwd k bufs handler w =
    async_write_some_impl fwd k bufs handler (abort_send_handlers k w)"

definition write_some ::
  "'u net \<Rightarrow> nat \<Rightarrow> buffer list \<Rightarrow> error_code \<Rightarrow> 'u world \<Rightarrow> fault + (nat \<times> error_code \<times> 'u world)" where
  "write_some fwd k bufs ec w =
    bindE (assertE (m_non_blocking (w_tcp w k))) (\<lambda>_. write_some_impl fwd k bufs ec w)"

definition async_wait_write_impl :: "nat \<Rightarrow> 'u handler option \<Rightarrow> 'u world \<Rightarrow> 'u world" where
  "async_wait_write_impl k handler w =
    (let s = w_tcp w k in
     if \<not> m_open s then post_job (bind_ec handler bad_descriptor) w
     else if m_channel s = None then post_job (bind_ec handler not_connected) w
     else if m_connect_handler s = None \<and> \<not> window_full s then post_job (bind_ec handler success) w
     else upd_tcp k (\<lambda>s. s\<lparr>m_wait_send_handler := handler, m_send_null_buffers := True\<rparr>) w)"

definition maybe_wakeup_writer :: "'u net \<Rightarrow> nat \<Rightarrow> 'u world \<Rightarrow> fault + 'u world" where
  "maybe_wakeup_writer fwd k w =
    (let s = w_tcp w k in
     if m_send_handler s = None \<and> m_wait_send_handler s = None then Inr w
     else if m_send_null_buffers s then
       Inr (async_wait_write_impl k (m_wait_send_handler s)
         (upd_tcp k (\<lambda>s. s\<lparr>m_wait_send_handler := None\<rparr>) w))
     else
       async_write_some_impl fwd k (m_send_buffer s) (m_send_handler s)
         (upd_tcp k (\<lambda>s. s\<lparr>m_send_handler := None\<rparr>) w))"

section \<open>Reading\<close>

text \<open>
  The inner loop of \<open>read_some_impl\<close>: the data of the first packet is copied into the buffers
  from offset \<open>off\<close> of the first one. The result is the rest of the buffers with the new
  offset, the data left, the memory and the count of bytes copied.
\<close>

fun copy_packet ::
  "buffer list \<Rightarrow> nat \<Rightarrow> byte list \<Rightarrow> memory \<Rightarrow> buffer list \<times> nat \<times> byte list \<times> memory \<times> nat" where
  "copy_packet [] off d m = ([], off, d, m, 0)"
| "copy_packet ((a, n) # bufs) off d m =
    (let size = min (length d) (n - off);
         m' = store m (a + off) (take size d);
         d' = drop size d;
         off' = off + size
     in if d' = [] then
          (if off' = n then (bufs, 0, d', m', size) else ((a, n) # bufs, off', d', m', size))
        else
          let (bufs', off'', d'', m'', tot) = copy_packet bufs 0 d' m'
          in (bufs', off'', d'', m'', size + tot))"

text \<open>
  The outer loop over the incoming queue. The result is the queue left, the memory, the bytes
  received, and the error when the first packet is one.
\<close>

fun read_loop ::
  "buffer list \<Rightarrow> nat \<Rightarrow> packet list \<Rightarrow> memory \<Rightarrow> nat \<Rightarrow>
    fault + (packet list \<times> memory \<times> nat \<times> error_code option)" where
  "read_loop bufs off [] m tot = Inr ([], m, tot, None)"
| "read_loop bufs off (p # q) m tot =
    (case p_type p of
       Error \<Rightarrow>
         if 0 < tot then Inr (p # q, m, tot, None)
         else bindE (assertE (p_ec p \<noteq> success)) (\<lambda>_. Inr (q, m, 0, Some (p_ec p)))
     | Payload \<Rightarrow>
         let (bufs', off', d', m', n) = copy_packet bufs off (p_buffer p) m;
             q' = (if bufs \<noteq> [] \<and> d' = [] then q else p\<lparr>p_buffer := d'\<rparr> # q)
         in if bufs' = [] then Inr (q', m', tot + n, None)
            else read_loop bufs' off' q m' (tot + n)
     | _ \<Rightarrow> Inl Assertion_failed)"

definition read_some_impl :: "nat \<Rightarrow> buffer list \<Rightarrow> 'u world \<Rightarrow> fault + (nat \<times> error_code \<times> 'u world)" where
  "read_some_impl k bufs w =
    (let s = w_tcp w k in
     if buffer_size bufs = 0 then Inr (0, success, w)
     else if \<not> m_open s then Inr (0, bad_descriptor, w)
     else if m_channel s = None then Inr (0, not_connected, w)
     else if m_connect_handler s \<noteq> None then Inr (0, would_block, w)
     else if m_incoming_queue s = [] then Inr (0, would_block, w)
     else
       bindE (read_loop bufs 0 (m_incoming_queue s) (w_mem w) 0) (\<lambda>(q, m, tot, err).
       let w1 = upd_tcp k (\<lambda>s. s\<lparr>m_recv_buffer := bufs, m_incoming_queue := q,
                  m_queue_size := m_queue_size s - int tot\<rparr>) (w\<lparr>w_mem := m\<rparr>)
       in case err of
            Some ec \<Rightarrow> Inr (0, ec, upd_tcp k (\<lambda>s. s\<lparr>m_channel := None\<rparr>) w1)
          | None \<Rightarrow> bindE (assertE (0 < tot)) (\<lambda>_. Inr (tot, success, w1))))"

definition async_read_some_impl ::
  "nat \<Rightarrow> buffer list \<Rightarrow> 'u io_handler option \<Rightarrow> 'u world \<Rightarrow> fault + 'u world" where
  "async_read_some_impl k bufs handler w =
    (if buffer_size bufs = 0 then Inr (post_job (bind_io handler success 0) w)
     else
       bindE (read_some_impl k bufs w) (\<lambda>(n, ec, w1).
       if ec = would_block then
         bindE (assertE (m_incoming_queue (w_tcp w1 k) = [])) (\<lambda>_.
         Inr (upd_tcp k (\<lambda>s. s\<lparr>m_recv_buffer := bufs, m_recv_handler := handler,
           m_recv_null_buffers := False\<rparr>) w1))
       else
         Inr (upd_tcp k (\<lambda>s. s\<lparr>m_recv_handler := None, m_recv_buffer := []\<rparr>)
           (post_job (bind_io handler ec (if ec \<noteq> success then 0 else n)) w1))))"

definition async_read_some ::
  "nat \<Rightarrow> buffer list \<Rightarrow> 'u io_handler option \<Rightarrow> 'u world \<Rightarrow> fault + 'u world" where
  "async_read_some k bufs handler w = async_read_some_impl k bufs handler (abort_recv_handlers k w)"

definition read_some :: "nat \<Rightarrow> buffer list \<Rightarrow> 'u world \<Rightarrow> fault + (nat \<times> error_code \<times> 'u world)" where
  "read_some k bufs w =
    bindE (assertE (m_non_blocking (w_tcp w k))) (\<lambda>_. read_some_impl k bufs w)"

definition async_wait_read_impl :: "nat \<Rightarrow> 'u handler option \<Rightarrow> 'u world \<Rightarrow> 'u world" where
  "async_wait_read_impl k handler w =
    (let (ec, bytes) = available (w_tcp w k) in
     if ec \<noteq> success \<or> 0 < bytes then
       upd_tcp k (\<lambda>s. s\<lparr>m_recv_handler := None, m_recv_buffer := []\<rparr>) (post_job (bind_ec handler ec) w)
     else
       upd_tcp k (\<lambda>s. s\<lparr>m_wait_recv_handler := handler, m_recv_null_buffers := True\<rparr>) w)"

definition maybe_wakeup_reader :: "nat \<Rightarrow> 'u world \<Rightarrow> fault + 'u world" where
  "maybe_wakeup_reader k w =
    (let s = w_tcp w k in
     if length (m_incoming_queue s) \<noteq> 1 \<or> m_recv_handler s = None \<and> m_wait_recv_handler s = None then Inr w
     else if m_recv_null_buffers s then
       Inr (async_wait_read_impl k (m_wait_recv_handler s)
         (upd_tcp k (\<lambda>s. s\<lparr>m_wait_recv_handler := None\<rparr>) w))
     else
       async_read_some_impl k (m_recv_buffer s) (m_recv_handler s)
         (upd_tcp k (\<lambda>s. s\<lparr>m_recv_handler := None\<rparr>) w))"

datatype wait_type = Wait_read | Wait_write | Wait_error

definition tcp_async_wait :: "nat \<Rightarrow> wait_type \<Rightarrow> 'u handler option \<Rightarrow> 'u world \<Rightarrow> 'u world" where
  "tcp_async_wait k t handler w =
    (case t of
       Wait_write \<Rightarrow> async_wait_write_impl k handler (abort_send_handlers k w)
     | Wait_read \<Rightarrow> async_wait_read_impl k handler (abort_recv_handlers k w)
     | Wait_error \<Rightarrow> w)"

section \<open>Dropped and incoming packets\<close>

definition packet_dropped :: "nat \<Rightarrow> packet \<Rightarrow> 'u world \<Rightarrow> fault + 'u world" where
  "packet_dropped k p w =
    (let s = w_tcp w k in
     bindE (channel_of s w) (\<lambda>ch.
     bindE (remote_idx ch (m_bound_to s)) (\<lambda>remote.
     let w1 = upd_tcp k (\<lambda>s. s\<lparr>m_outgoing_packets := m_outgoing_packets s @ [p\<lparr>p_hops := c_hops ch remote\<rparr>]\<rparr>) w in
     if m_mss s = 0 then Inl Undefined_behaviour
     else
       let packets_in_cwnd = cdiv (m_cwnd s) (m_mss s) in
       if 0 < m_last_drop_seq s \<and> p_seq_nr p < m_last_drop_seq s + word_of_int packets_in_cwnd then Inr w1
       else
         let half = cdiv (m_cwnd s) 2 in
         Inr (upd_tcp k (\<lambda>s. s\<lparr>m_last_drop_seq := p_seq_nr p,
           m_cwnd := (if half < m_mss s then m_mss s else half)\<rparr>) w1))))"

text \<open>The loop that sends dropped packets again, with fuel for the synchronous effects of sending.\<close>

fun resend_packets :: "'u net \<Rightarrow> nat \<Rightarrow> nat \<Rightarrow> 'u world \<Rightarrow> fault + 'u world" where
  "resend_packets fwd 0 k w = Inl Out_of_fuel"
| "resend_packets fwd (Suc fuel) k w =
    (let s = w_tcp w k in
     case m_outgoing_packets s of
       [] \<Rightarrow> Inr w
     | p # ps \<Rightarrow>
         if m_bytes_in_flight s + int (length (p_buffer p)) \<le> m_cwnd s then
           bindE (send_packet fwd k p (upd_tcp k (\<lambda>s. s\<lparr>m_outgoing_packets := ps\<rparr>) w))
             (resend_packets fwd fuel k)
         else Inr w)"

definition incoming_ack :: "'u net \<Rightarrow> nat \<Rightarrow> nat \<Rightarrow> packet \<Rightarrow> 'u world \<Rightarrow> fault + 'u world" where
  "incoming_ack fwd fuel k p w =
    (let s = w_tcp w k; was_writeable = window_full s in
     case m_outstanding_packet_sizes s (p_seq_nr p) of
       None \<Rightarrow> Inl Assertion_failed
     | Some acked \<Rightarrow>
         bindE (assertE (acked \<le> m_bytes_in_flight s)) (\<lambda>_.
         let w1 = upd_tcp k (\<lambda>s. s\<lparr>
               m_outstanding_packet_sizes := (m_outstanding_packet_sizes s)(p_seq_nr p := None),
               m_bytes_in_flight := m_bytes_in_flight s - acked\<rparr>) w
         in bindE (resend_packets fwd fuel k w1) (\<lambda>w2.
            let s2 = w_tcp w2 k in
            if m_cwnd s2 = 0 then Inl Undefined_behaviour
            else
              let w3 = upd_tcp k (\<lambda>s. s\<lparr>m_cwnd := m_cwnd s + cdiv (m_mss s * acked) (m_cwnd s)\<rparr>) w2;
                  is_writeable = (\<not> window_full (w_tcp w3 k))
              in if \<not> was_writeable \<and> is_writeable then maybe_wakeup_writer fwd k w3 else Inr w3)))"

definition incoming_syn_ack :: "'u net \<Rightarrow> nat \<Rightarrow> 'u world \<Rightarrow> fault + 'u world" where
  "incoming_syn_ack fwd k w =
    (case m_connect_handler (w_tcp w k) of
       None \<Rightarrow> Inl Assertion_failed
     | Some h \<Rightarrow>
         maybe_wakeup_writer fwd k
           (upd_tcp k (\<lambda>s. s\<lparr>m_connect_handler := None\<rparr>) (post_job (h success) w)))"

text \<open>The packets that follow on from sequence number \<open>n\<close> in the reorder buffer.\<close>

function drain_reorder ::
  "64 word \<Rightarrow> (64 word \<rightharpoonup> packet) \<Rightarrow> packet list \<times> 64 word \<times> (64 word \<rightharpoonup> packet)" where
  "drain_reorder n m =
    (case m n of
       None \<Rightarrow> ([], n, m)
     | Some p \<Rightarrow> (let (ps, n', m') = drain_reorder (n + 1) (m(n := None)) in (p # ps, n', m')))"
  by pat_completeness auto
termination
proof (relation "measure (\<lambda>(n, m). card (dom m))")
  fix n :: "64 word" and m :: "64 word \<rightharpoonup> packet" and p
  assume "m n = Some p"
  then have "card (dom m - {n}) < card (dom m)"
    by (intro psubset_card_mono) (auto simp: finite_subset [OF subset_UNIV])
  then show "((n + 1, m(n := None)), n, m) \<in> measure (\<lambda>(n, m). card (dom m))"
    by (simp add: dom_fun_upd)
qed simp

declare drain_reorder.simps [simp del]

definition ack_packet :: "packet \<Rightarrow> route \<Rightarrow> packet" where
  "ack_packet p hops = new_packet\<lparr>p_type := Ack, p_seq_nr := p_seq_nr p, p_hops := hops\<rparr>"

definition incoming_data :: "'u net \<Rightarrow> nat \<Rightarrow> packet \<Rightarrow> 'u world \<Rightarrow> fault + 'u world" where
  "incoming_data fwd k p w =
    (let s = w_tcp w k in
     bindE (channel_of s w) (\<lambda>ch.
     bindE (remote_idx ch (m_bound_to s)) (\<lambda>remote.
     bindE (fwd (ack_packet p (c_hops ch remote)) w) (\<lambda>w1.
     let s1 = w_tcp w1 k in
     if p_seq_nr p \<noteq> m_next_incoming_seq s1 then
       Inr (if m_reorder_buffer s1 (p_seq_nr p) = None
            then upd_tcp k (\<lambda>s. s\<lparr>m_reorder_buffer := (m_reorder_buffer s)(p_seq_nr p \<mapsto> p)\<rparr>) w1
            else w1)
     else
       let (ps, next_seq, rb) = drain_reorder (m_next_incoming_seq s1 + 1) (m_reorder_buffer s1) in
       maybe_wakeup_reader k (upd_tcp k (\<lambda>s. s\<lparr>m_next_incoming_seq := next_seq, m_reorder_buffer := rb,
         m_incoming_queue := m_incoming_queue s @ p # ps\<rparr>) w1)))))"

definition tcp_incoming_packet :: "'u net \<Rightarrow> nat \<Rightarrow> nat \<Rightarrow> packet \<Rightarrow> 'u world \<Rightarrow> fault + 'u world" where
  "tcp_incoming_packet fwd fuel k p w =
    (case p_type p of
       Uninitialized \<Rightarrow> Inl Assertion_failed
     | Ack \<Rightarrow> incoming_ack fwd fuel k p w
     | Syn \<Rightarrow> Inr w
     | Syn_ack \<Rightarrow> incoming_syn_ack fwd k w
     | Error \<Rightarrow> incoming_data fwd k p w
     | Payload \<Rightarrow> incoming_data fwd k p w)"

section \<open>Connecting\<close>

definition internal_is_listening :: "nat \<Rightarrow> 'u world \<Rightarrow> bool" where
  "internal_is_listening k w =
    (case w_acceptors w k of None \<Rightarrow> False | Some a \<Rightarrow> 0 < m_queue_size_limit a)"

text \<open>\<open>simulation::internal_connect\<close>; the channel is a new one.\<close>

definition sim_internal_connect ::
  "'u net \<Rightarrow> nat \<Rightarrow> endpoint \<Rightarrow> 'u world \<Rightarrow> fault + (nat option \<times> error_code \<times> 'u world)" where
  "sim_internal_connect fwd k target w =
    (case om_find target (m_listen_sockets (w_ports w)) of
       None \<Rightarrow> Inr (None, connection_refused, w)
     | Some remote \<Rightarrow>
         if \<not> internal_is_listening remote w then Inr (None, connection_refused, w)
         else
           let s = w_tcp w k; r = w_tcp w remote;
               c = w_next_id w;
               (ec1, here) = local_bound_to s;
               network_route = channel_route (w_config w) (ep_address here) (ep_address target);
               (ec2, there) = local_bound_to r;
               ec = (if ec2 \<noteq> success then ec2 else ec1)
           in
           bindE (get_socket_outgoing_route r w) (\<lambda>r_out.
           bindE (get_socket_incoming_route s w) (\<lambda>s_in.
           bindE (get_socket_outgoing_route s w) (\<lambda>s_out.
           bindE (get_socket_incoming_route r w) (\<lambda>r_in.
           if ec \<noteq> success then Inr (None, ec, w)
           else
             let hops1 = route_plus (route_plus s_out network_route) r_in;
                 ch = \<lparr>c_hops = (\<lambda>_. [])(0 := route_plus (route_plus r_out network_route) s_in, 1 := hops1),
                   c_ep = (\<lambda>_. default_endpoint)(0 := here, 1 := there),
                   c_visible_ep = (\<lambda>_. default_endpoint)(0 := here, 1 := there),
                   c_bytes_sent = (\<lambda>_. w_indeterminate w)\<rparr>;
                 p = new_packet\<lparr>p_type := Syn, p_overhead := 28, p_from := here, p_channel := Some c,
                       p_hops := hops1\<rparr>
             in bindE (fwd p (upd_channel c (\<lambda>_. ch) (w\<lparr>w_next_id := Suc c\<rparr>))) (\<lambda>w1.
                Inr (Some c, success, w1)))))))"

definition bind_for_connect ::
  "nat \<Rightarrow> endpoint \<Rightarrow> 'u world \<Rightarrow> fault + (error_code \<times> 'u world)" where
  "bind_for_connect k target w =
    (let s = w_tcp w k in
     if ep_address (m_bound_to s) = default_address then
       let ep = Endpoint (if is_v4 (ep_address target) then any_v4 else any_v6) 0 in
       bindE (ios_bind_socket (m_io_service s) k ep w) (\<lambda>((ec, addr), w1).
       if ec \<noteq> success then Inr (ec, w1)
       else Inr (success, upd_tcp k (\<lambda>s. s\<lparr>m_bound_to := addr, m_user_bound_to := addr\<rparr>) w1))
     else Inr (success, w))"

definition async_connect ::
  "'u net \<Rightarrow> nat \<Rightarrow> endpoint \<Rightarrow> 'u handler option \<Rightarrow> 'u world \<Rightarrow> fault + 'u world" where
  "async_connect fwd k target h w =
    bindE (if \<not> m_open (w_tcp w k) then tcp_open fwd k (is_v4 (ep_address target)) w else Inr w) (\<lambda>w1.
    bindE (assertE (h \<noteq> None)) (\<lambda>_.
    bindE (assertE (m_connect_handler (w_tcp w1 k) = None)) (\<lambda>_.
    bindE (bind_for_connect k target w1) (\<lambda>(ec, w2).
    if ec \<noteq> success then Inr (post_job (bind_ec h ec) w2)
    else if is_v4 (ep_address (m_bound_to (w_tcp w2 k))) \<noteq> is_v4 (ep_address target) then
      Inr (post_job (bind_ec h address_family_not_supported) w2)
    else
      bindE (sim_internal_connect fwd k target w2) (\<lambda>(c, ec, w3).
      let w4 = upd_tcp k (\<lambda>s. s\<lparr>m_channel := c\<rparr>) w3; s = w_tcp w4 k in
      bindE (get_path_mtu (m_io_service s) (ep_address (m_bound_to s)) (ep_address target) w4) (\<lambda>mtu.
      let w5 = upd_tcp k (\<lambda>s. s\<lparr>m_mss := mtu, m_cwnd := mtu * 2\<rparr>) w4 in
      if ec \<noteq> success then
        bindE (timer_expires_after (Connect_timer k) 50000000
          (upd_tcp k (\<lambda>s. s\<lparr>m_channel := None\<rparr>) w5)) (\<lambda>w6.
        timer_async_wait (Connect_timer k) (\<lambda>_. bind_ec h ec) w6)
      else Inr (upd_tcp k (\<lambda>s. s\<lparr>m_connect_handler := h\<rparr>) w5)))))))"

end
