(* ===== verification/Acceptor.thy ===== *)
theory Acceptor
  imports Tcp_Socket
begin

text \<open>
  \<open>tcp::acceptor\<close> (\<open>acceptor.cpp\<close>). An acceptor is a TCP socket with an entry in
  \<open>w_acceptors\<close>; an entry is what makes a call of a virtual function reach this class. The
  handler that takes a socket by value gets the number of the socket that was moved or
  constructed for it; the socket an aborted handler gets is numbered when the job is posted.
  \<open>m_accept_into->internal_connect\<close> never reports an error (\<open>tcp_internal_connect\<close>), so
  the branches for one in \<open>check_accept_queue\<close> are left out.
\<close>

section \<open>State\<close>

definition new_acceptor :: "'u acceptor" where
  "new_acceptor = \<lparr>m_accept_handler = None, m_accept_handler2 = None, m_queue_size_limit = -1,
    m_incoming_conns = [], m_new_socket = None, m_accept_into = None, m_remote_endpoint = None\<rparr>"

definition upd_acceptor :: "nat \<Rightarrow> ('u acceptor \<Rightarrow> 'u acceptor) \<Rightarrow> 'u world \<Rightarrow> 'u world" where
  "upd_acceptor k f w = w\<lparr>w_acceptors := (w_acceptors w)(k := map_option f (w_acceptors w k))\<rparr>"

definition acceptor_of :: "nat \<Rightarrow> 'u world \<Rightarrow> fault + 'u acceptor" where
  "acceptor_of k w = derefE (w_acceptors w k)"

definition acceptor_construct :: "nat \<Rightarrow> 'u world \<Rightarrow> nat \<times> 'u world" where
  "acceptor_construct ios w =
    (let (k, w1) = tcp_construct ios w
     in (k, w1\<lparr>w_acceptors := (w_acceptors w1)(k \<mapsto> new_acceptor)\<rparr>))"

text \<open>The defaulted move constructor: the pointers are copied, the rest is moved.\<close>

definition acceptor_move :: "nat \<Rightarrow> 'u world \<Rightarrow> fault + (nat \<times> 'u world)" where
  "acceptor_move k w =
    bindE (acceptor_of k w) (\<lambda>a.
    bindE (tcp_move k w) (\<lambda>(k', w1).
    bindE (case m_new_socket a of
        None \<Rightarrow> Inr (None, w1)
      | Some j \<Rightarrow> bindE (tcp_move j w1) (\<lambda>(j', w2). Inr (Some j', w2))) (\<lambda>(ns, w2).
    Inr (k', upd_acceptor k (\<lambda>a. a\<lparr>m_accept_handler := None, m_accept_handler2 := None, m_incoming_conns := []\<rparr>)
      (w2\<lparr>w_acceptors := (w_acceptors w2)(k' \<mapsto> a\<lparr>m_new_socket := ns\<rparr>)\<rparr>)))))"

section \<open>Listening and cancelling\<close>

definition listen :: "nat \<Rightarrow> int \<Rightarrow> 'u world \<Rightarrow> error_code \<times> 'u world" where
  "listen k qs w =
    (let qs' = (if qs = -1 then 20 else qs); s = w_tcp w k in
     if \<not> m_open s then (bad_descriptor, w)
     else if m_bound_to s = default_endpoint then (invalid_argument, w)
     else (success, upd_acceptor k (\<lambda>a. a\<lparr>m_queue_size_limit := qs'\<rparr>) w))"

text \<open>
  Posting the pending handler, of either kind, with \<open>operation_aborted\<close>; some of the places
  that do this also reset the pointers when there was a handler.
\<close>

definition abort_accept :: "bool \<Rightarrow> nat \<Rightarrow> 'u world \<Rightarrow> fault + 'u world" where
  "abort_accept reset k w =
    bindE (acceptor_of k w) (\<lambda>a.
    let clear = (\<lambda>a. if reset then a\<lparr>m_accept_into := None, m_remote_endpoint := None\<rparr> else a);
        w1 = (case m_accept_handler a of
                None \<Rightarrow> w
              | Some h \<Rightarrow> upd_acceptor k (\<lambda>a. clear (a\<lparr>m_accept_handler := None\<rparr>))
                  (post_job (h operation_aborted) w))
    in case m_accept_handler2 a of
         None \<Rightarrow> Inr w1
       | Some h \<Rightarrow>
           let (j, w2) = tcp_construct (m_io_service (w_tcp w1 k)) w1 in
           Inr (upd_acceptor k (\<lambda>a. clear (a\<lparr>m_accept_handler2 := None\<rparr>))
             (post_job (h operation_aborted j) w2)))"

definition acceptor_cancel :: "nat \<Rightarrow> 'u world \<Rightarrow> fault + 'u world" where
  "acceptor_cancel k w = abort_accept False k w"

text \<open>\<open>close(ec)\<close>, and \<open>close()\<close>, which only does what \<open>cancel\<close> does.\<close>

definition acceptor_close :: "'u net \<Rightarrow> nat \<Rightarrow> 'u world \<Rightarrow> fault + 'u world" where
  "acceptor_close fwd k w =
    bindE (acceptor_cancel k (upd_acceptor k (\<lambda>a. a\<lparr>m_queue_size_limit := -1\<rparr>) w)) (tcp_close fwd k)"

definition acceptor_close_all :: "nat \<Rightarrow> 'u world \<Rightarrow> fault + 'u world" where
  "acceptor_close_all k w = abort_accept False k w"

definition acceptor_destruct :: "'u net \<Rightarrow> nat \<Rightarrow> 'u world \<Rightarrow> fault + 'u world" where
  "acceptor_destruct fwd k w = bindE (acceptor_close fwd k w) (\<lambda>w1. Inr (tcp_destruct k w1))"

section \<open>Accepting\<close>

text \<open>The connections waiting at a closed acceptor are reset.\<close>

fun reset_conns :: "'u net \<Rightarrow> endpoint \<Rightarrow> nat list \<Rightarrow> 'u world \<Rightarrow> fault + 'u world" where
  "reset_conns fwd from_ep [] w = Inr w"
| "reset_conns fwd from_ep (c # cs) w =
    bindE (fwd (new_packet\<lparr>p_from := from_ep, p_type := Error, p_ec := connection_reset,
        p_overhead := 28, p_hops := c_hops (w_channels w c) 0\<rparr>) w)
      (reset_conns fwd from_ep cs)"

definition destroy_new_socket :: "nat \<Rightarrow> 'u world \<Rightarrow> 'u world" where
  "destroy_new_socket k w =
    (case w_acceptors w k of
       None \<Rightarrow> w
     | Some a \<Rightarrow>
         (case m_new_socket a of
            None \<Rightarrow> w
          | Some j \<Rightarrow> upd_acceptor k (\<lambda>a. a\<lparr>m_new_socket := None\<rparr>) (tcp_destruct j w)))"

text \<open>
  \<open>check_accept_queue\<close> in the order of its statements: what a closed acceptor does with its
  queue and handlers, the delivery of an accepted socket to the pending handler, taking the
  first connection, and the whole.
\<close>

definition flush_closed :: "'u net \<Rightarrow> nat \<Rightarrow> 'u world \<Rightarrow> fault + 'u world" where
  "flush_closed fwd k w =
    bindE (acceptor_of k w) (\<lambda>a.
    bindE (reset_conns fwd (m_bound_to (w_tcp w k)) (m_incoming_conns a) w) (\<lambda>w1.
    abort_accept True k (upd_acceptor k (\<lambda>a. a\<lparr>m_incoming_conns := []\<rparr>) w1)))"

definition deliver_accepted :: "nat \<Rightarrow> 'u world \<Rightarrow> fault + 'u world" where
  "deliver_accepted k w =
    bindE (acceptor_of k w) (\<lambda>a.
    bindE (case m_accept_handler a of
        Some h \<Rightarrow> Inr (upd_acceptor k (\<lambda>a. a\<lparr>m_accept_handler := None\<rparr>) (post_job (h success) w))
      | None \<Rightarrow>
          (case m_accept_handler2 a of
             None \<Rightarrow> Inr w
           | Some h \<Rightarrow>
               bindE (derefE (m_accept_into a)) (\<lambda>j.
               bindE (tcp_move j w) (\<lambda>(j', w1).
               Inr (upd_acceptor k (\<lambda>a. a\<lparr>m_accept_handler2 := None\<rparr>) (post_job (h success j') w1)))))) (\<lambda>w2.
    Inr (upd_acceptor k (\<lambda>a. a\<lparr>m_accept_into := None\<rparr>) (destroy_new_socket k w2))))"

definition accept_first :: "'u net \<Rightarrow> nat \<Rightarrow> 'u acceptor \<Rightarrow> nat \<Rightarrow> nat list \<Rightarrow> 'u world \<Rightarrow> fault + 'u world" where
  "accept_first fwd k a c cs w =
    (let w1 = (case m_remote_endpoint a of
            None \<Rightarrow> w
          | Some e \<Rightarrow> w\<lparr>w_eps := (w_eps w)(e := c_ep (w_channels w c) 0)\<rparr>);
         w2 = upd_acceptor k (\<lambda>a. a\<lparr>m_incoming_conns := cs, m_remote_endpoint := None\<rparr>) w1
     in bindE (derefE (m_accept_into a)) (\<lambda>into.
        bindE (tcp_internal_connect fwd into (m_bound_to (w_tcp w2 k)) c w2) (\<lambda>w3.
        let p = new_packet\<lparr>p_from := m_bound_to (w_tcp w3 k), p_type := Syn_ack, p_channel := Some c,
                  p_overhead := 28, p_hops := c_hops (w_channels w3 c) 0\<rparr>
        in bindE (fwd p w3) (deliver_accepted k))))"

definition check_accept_queue :: "'u net \<Rightarrow> nat \<Rightarrow> 'u world \<Rightarrow> fault + 'u world" where
  "check_accept_queue fwd k w =
    bindE (if \<not> m_open (w_tcp w k) then flush_closed fwd k w else Inr w) (\<lambda>w1.
    bindE (acceptor_of k w1) (\<lambda>a.
    if m_accept_handler a = None \<and> m_accept_handler2 a = None then Inr w1
    else case m_incoming_conns a of
      [] \<Rightarrow> Inr w1
    | c # cs \<Rightarrow> accept_first fwd k a c cs w1))"

definition close_if_open :: "'u net \<Rightarrow> nat \<Rightarrow> 'u world \<Rightarrow> fault + 'u world" where
  "close_if_open fwd peer w = (if m_open (w_tcp w peer) then tcp_close fwd peer w else Inr w)"

definition async_accept :: "'u net \<Rightarrow> nat \<Rightarrow> nat \<Rightarrow> 'u handler \<Rightarrow> 'u world \<Rightarrow> fault + 'u world" where
  "async_accept fwd k peer h w =
    bindE (close_if_open fwd peer w) (\<lambda>w1.
    bindE (abort_accept True k w1) (\<lambda>w2.
    check_accept_queue fwd k (upd_acceptor k (\<lambda>a. a\<lparr>m_accept_handler := Some h,
      m_accept_into := Some peer, m_remote_endpoint := None\<rparr>) w2)))"

definition async_accept_endpoint ::
  "'u net \<Rightarrow> nat \<Rightarrow> nat \<Rightarrow> nat \<Rightarrow> 'u handler \<Rightarrow> 'u world \<Rightarrow> fault + 'u world" where
  "async_accept_endpoint fwd k peer peer_endpoint h w =
    bindE (close_if_open fwd peer w) (\<lambda>w1.
    bindE (abort_accept False k w1) (\<lambda>w2.
    check_accept_queue fwd k (upd_acceptor k (\<lambda>a. a\<lparr>m_accept_handler := Some h,
      m_accept_into := Some peer, m_remote_endpoint := Some peer_endpoint\<rparr>) w2)))"

definition async_accept_socket :: "'u net \<Rightarrow> nat \<Rightarrow> 'u io_handler \<Rightarrow> 'u world \<Rightarrow> fault + 'u world" where
  "async_accept_socket fwd k h w =
    bindE (abort_accept True k (upd_acceptor k (\<lambda>a. a\<lparr>m_remote_endpoint := None\<rparr>) w)) (\<lambda>w1.
    let (j, w2) = tcp_construct (m_io_service (w_tcp w1 k)) (destroy_new_socket k w1) in
    check_accept_queue fwd k (upd_acceptor k (\<lambda>a. a\<lparr>m_new_socket := Some j,
      m_accept_handler2 := Some h, m_accept_into := Some j\<rparr>) w2))"

definition do_check_accept_queue :: "'u net \<Rightarrow> nat \<Rightarrow> error_code \<Rightarrow> 'u world \<Rightarrow> fault + 'u world" where
  "do_check_accept_queue fwd k ec w = (if ec \<noteq> success then Inr w else check_accept_queue fwd k w)"

definition acceptor_incoming_packet :: "'u net \<Rightarrow> nat \<Rightarrow> packet \<Rightarrow> 'u world \<Rightarrow> fault + 'u world" where
  "acceptor_incoming_packet fwd k p w =
    (case p_type p of
       Syn \<Rightarrow>
         bindE (derefE (p_channel p)) (\<lambda>c.
         check_accept_queue fwd k (upd_acceptor k (\<lambda>a. a\<lparr>m_incoming_conns := m_incoming_conns a @ [c]\<rparr>) w))
     | _ \<Rightarrow> Inl Assertion_failed)"

end
