(* ===== verification/Udp_Socket.thy ===== *)
theory Udp_Socket
  imports Tcp_Socket
begin

text \<open>
  \<open>udp::socket\<close> (\<open>udp_socket.cpp\<close>) and \<open>simulation::find_udp_socket\<close>. Times are in
  nanoseconds, \<open>m_send_queue_time\<close> is in microseconds. The handlers \<open>abort_send_handlers\<close> and
  \<open>async_wait\<close> bind by reference are looked up when the job runs.
\<close>

section \<open>Construction and move\<close>

definition new_udp_socket :: "nat \<Rightarrow> int \<Rightarrow> 'u udp_socket" where
  "new_udp_socket ios time = \<lparr>m_io_service = ios, m_bound_to = default_endpoint,
    m_user_bound_to = default_endpoint, m_forwarder = None, m_open = False, m_non_blocking = False,
    m_dont_fragment = False, m_max_receive_queue_size = 64 * 1024, m_send_queue_time = 200000,
    u_next_send = time, u_send_handler = None, u_wait_send_handler = None, u_recv_handler = None,
    u_wait_recv_handler = None, u_recv_buffer = [], u_recv_sender = None, u_incoming_queue = [],
    u_recv_null_buffers = False, u_queue_size = 0, u_is_v4 = True\<rparr>"

definition udp_construct :: "nat \<Rightarrow> 'u world \<Rightarrow> nat \<times> 'u world" where
  "udp_construct ios w =
    (let k = w_next_id w;
         w1 = upd_udp k (\<lambda>_. new_udp_socket ios (now (w_sched w))) (w\<lparr>w_next_id := Suc k\<rparr>)
     in (k, upd_sched (\<lambda>s. timer_construct (Udp_send_timer k) (timer_construct (Udp_recv_timer k) s)) w1))"

definition udp_move :: "nat \<Rightarrow> 'u world \<Rightarrow> fault + (nat \<times> 'u world)" where
  "udp_move k w =
    (let k' = w_next_id w; s = w_udp w k;
         w1 = upd_udp k' (\<lambda>_. s) (w\<lparr>w_next_id := Suc k'\<rparr>);
         w2 = move_timer (Udp_send_timer k) (Udp_send_timer k') (move_timer (Udp_recv_timer k) (Udp_recv_timer k') w1);
         w3 = set_forwarder (m_forwarder s) (Some (Udp k')) w2;
         w4 = upd_udp k (\<lambda>s. s\<lparr>u_send_handler := None, u_wait_send_handler := None,
           u_recv_handler := None, u_wait_recv_handler := None, u_recv_buffer := [],
           u_incoming_queue := [], m_forwarder := None, m_open := False,
           m_bound_to := default_endpoint\<rparr>) w3
     in if m_bound_to s \<noteq> default_endpoint then
          bindE (rebind_udp_socket k' (m_bound_to s) (w_ports w4)) (\<lambda>ps. Inr (k', w4\<lparr>w_ports := ps\<rparr>))
        else Inr (k', w4))"

section \<open>Cancelling and closing\<close>

definition udp_abort_send_handlers :: "nat \<Rightarrow> 'u world \<Rightarrow> 'u world" where
  "udp_abort_send_handlers k w =
    (let s = w_udp w k;
         w1 = (if u_send_handler s \<noteq> None then post_job (Udp_send k operation_aborted 0) w else w);
         w2 = (if u_wait_send_handler s \<noteq> None then post_job (Udp_wait_send k operation_aborted) w1 else w1);
         w3 = cancel_timer (Udp_send_timer k) w2
     in upd_udp k (\<lambda>s. s\<lparr>u_send_handler := None, u_wait_send_handler := None\<rparr>) w3)"

definition udp_abort_recv_handlers :: "nat \<Rightarrow> 'u world \<Rightarrow> 'u world" where
  "udp_abort_recv_handlers k w =
    (let s = w_udp w k;
         w1 = (if u_recv_handler s \<noteq> None then post_job (bind_io (u_recv_handler s) operation_aborted 0) w else w);
         w2 = (if u_wait_recv_handler s \<noteq> None
               then post_job (bind_ec (u_wait_recv_handler s) operation_aborted) w1 else w1);
         w3 = cancel_timer (Udp_recv_timer k) w2
     in upd_udp k (\<lambda>s. s\<lparr>u_recv_handler := None, u_wait_recv_handler := None, u_recv_buffer := []\<rparr>) w3)"

definition udp_cancel :: "nat \<Rightarrow> 'u world \<Rightarrow> 'u world" where
  "udp_cancel k w =
    cancel_timer (Udp_send_timer k) (cancel_timer (Udp_recv_timer k)
      (udp_abort_send_handlers k (udp_abort_recv_handlers k w)))"

definition udp_close :: "nat \<Rightarrow> 'u world \<Rightarrow> 'u world" where
  "udp_close k w =
    (let s = w_udp w k;
         w1 = (if m_bound_to s \<noteq> default_endpoint then
                 upd_udp k (\<lambda>s. s\<lparr>m_bound_to := default_endpoint, m_user_bound_to := default_endpoint\<rparr>)
                   (w\<lparr>w_ports := unbind_udp_socket k (m_bound_to s) (w_ports w)\<rparr>)
               else w);
         w2 = upd_udp k (\<lambda>s. s\<lparr>m_open := False, m_forwarder := None\<rparr>) (set_forwarder (m_forwarder s) None w1)
     in udp_cancel k w2)"

definition udp_destruct :: "nat \<Rightarrow> 'u world \<Rightarrow> 'u world" where
  "udp_destruct k w = udp_close k w"

section \<open>Opening and binding\<close>

definition udp_open :: "nat \<Rightarrow> bool \<Rightarrow> 'u world \<Rightarrow> 'u world" where
  "udp_open k v4 w =
    (let w1 = udp_close k w; f = w_next_id w1
     in set_forwarder (Some f) (Some (Udp k))
          (upd_udp k (\<lambda>s. s\<lparr>m_open := True, u_is_v4 := v4, m_forwarder := Some f\<rparr>) (w1\<lparr>w_next_id := Suc f\<rparr>)))"

definition udp_bind :: "nat \<Rightarrow> endpoint \<Rightarrow> 'u world \<Rightarrow> fault + (error_code \<times> 'u world)" where
  "udp_bind k ep w =
    (let s = w_udp w k in
     if \<not> m_open s then Inr (bad_descriptor, w)
     else if is_v4 (ep_address ep) \<noteq> u_is_v4 s then Inr (address_family_not_supported, w)
     else
       bindE (ios_bind_udp_socket (m_io_service s) k ep w) (\<lambda>((ec, addr), w1).
       if ec \<noteq> success then Inr (ec, w1)
       else Inr (success, upd_udp k (\<lambda>s. s\<lparr>m_bound_to := addr, m_user_bound_to := addr\<rparr>) w1)))"

section \<open>Receiving\<close>

text \<open>One datagram is copied into the buffers; what does not fit is lost.\<close>

fun copy_datagram :: "buffer list \<Rightarrow> byte list \<Rightarrow> memory \<Rightarrow> memory \<times> nat" where
  "copy_datagram [] d m = (m, 0)"
| "copy_datagram ((a, n) # bufs) d m =
    (let to_copy = min (length d) n;
         m' = store m a (take to_copy d);
         d' = drop to_copy d
     in if d' = [] then (m', to_copy)
        else let (m'', count) = copy_datagram bufs d' m' in (m'', to_copy + count))"

definition receive_from_impl ::
  "nat \<Rightarrow> buffer list \<Rightarrow> nat option \<Rightarrow> 'u world \<Rightarrow> fault + (nat \<times> error_code \<times> 'u world)" where
  "receive_from_impl k bufs sender w =
    bindE (assertE (bufs \<noteq> [])) (\<lambda>_.
    let s = w_udp w k in
    if \<not> m_open s then Inr (0, bad_descriptor, w)
    else if m_bound_to s = default_endpoint then Inr (0, invalid_argument, w)
    else case u_incoming_queue s of
      [] \<Rightarrow> Inr (0, would_block, w)
    | p # q \<Rightarrow>
        let w1 = (case sender of None \<Rightarrow> w | Some e \<Rightarrow> w\<lparr>w_eps := (w_eps w)(e := p_from p)\<rparr>);
            (m, n) = copy_datagram bufs (p_buffer p) (w_mem w)
        in Inr (n, success, upd_udp k (\<lambda>s. s\<lparr>u_incoming_queue := q, u_queue_size := u_queue_size s - int n\<rparr>)
             (w1\<lparr>w_mem := m\<rparr>)))"

definition async_wait_receive_impl ::
  "nat \<Rightarrow> nat option \<Rightarrow> 'u handler option \<Rightarrow> 'u world \<Rightarrow> 'u world" where
  "async_wait_receive_impl k sender handler w =
    (let s = w_udp w k in
     if \<not> m_open s then post_job (bind_ec handler bad_descriptor) w
     else if m_bound_to s = default_endpoint then post_job (bind_ec handler invalid_argument) w
     else if u_incoming_queue s \<noteq> [] then post_job (bind_ec handler success) w
     else upd_udp k (\<lambda>s. s\<lparr>u_recv_null_buffers := True, u_wait_recv_handler := handler,
            u_recv_sender := sender\<rparr>) w)"

definition async_receive_from_impl ::
  "nat \<Rightarrow> buffer list \<Rightarrow> nat option \<Rightarrow> 'u io_handler option \<Rightarrow> 'u world \<Rightarrow> fault + 'u world" where
  "async_receive_from_impl k bufs sender handler w =
    bindE (receive_from_impl k bufs sender w) (\<lambda>(n, ec, w1).
    if ec = would_block then
      Inr (upd_udp k (\<lambda>s. s\<lparr>u_recv_buffer := bufs, u_recv_handler := handler, u_recv_sender := sender,
        u_recv_null_buffers := False\<rparr>) w1)
    else
      Inr (upd_udp k (\<lambda>s. s\<lparr>u_recv_handler := None, u_recv_buffer := [], u_recv_sender := None,
        u_recv_null_buffers := False\<rparr>)
        (post_job (bind_io handler ec (if ec \<noteq> success then 0 else n)) w1)))"

definition async_receive_from ::
  "nat \<Rightarrow> buffer list \<Rightarrow> nat option \<Rightarrow> 'u io_handler option \<Rightarrow> 'u world \<Rightarrow> fault + 'u world" where
  "async_receive_from k bufs sender handler w =
    async_receive_from_impl k bufs sender handler (udp_abort_recv_handlers k w)"

definition receive_from ::
  "nat \<Rightarrow> buffer list \<Rightarrow> nat \<Rightarrow> 'u world \<Rightarrow> fault + (nat \<times> error_code \<times> 'u world)" where
  "receive_from k bufs sender w =
    bindE (assertE (bufs \<noteq> [])) (\<lambda>_. receive_from_impl k bufs (Some sender) (udp_abort_recv_handlers k w))"

definition udp_maybe_wakeup_reader :: "nat \<Rightarrow> 'u world \<Rightarrow> fault + 'u world" where
  "udp_maybe_wakeup_reader k w =
    (let s = w_udp w k in
     if length (u_incoming_queue s) \<noteq> 1 \<or> u_recv_handler s = None \<and> u_wait_recv_handler s = None then Inr w
     else if u_recv_null_buffers s then
       Inr (async_wait_receive_impl k (u_recv_sender s) (u_wait_recv_handler s)
         (upd_udp k (\<lambda>s. s\<lparr>u_wait_recv_handler := None\<rparr>) w))
     else
       async_receive_from_impl k (u_recv_buffer s) (u_recv_sender s) (u_recv_handler s)
         (upd_udp k (\<lambda>s. s\<lparr>u_recv_handler := None\<rparr>) w))"

definition udp_incoming_packet :: "nat \<Rightarrow> packet \<Rightarrow> 'u world \<Rightarrow> fault + 'u world" where
  "udp_incoming_packet k p w =
    (if 256 * 1024 < u_queue_size (w_udp w k) + packet_size p then Inr w
     else udp_maybe_wakeup_reader k (upd_udp k (\<lambda>s. s\<lparr>u_queue_size := u_queue_size s + int (length (p_buffer p)),
       u_incoming_queue := u_incoming_queue s @ [p]\<rparr>) w))"

section \<open>Waiting and sending\<close>

definition udp_async_wait :: "nat \<Rightarrow> wait_type \<Rightarrow> 'u handler option \<Rightarrow> 'u world \<Rightarrow> fault + 'u world" where
  "udp_async_wait k t handler w =
    (case t of
       Wait_write \<Rightarrow>
         let w1 = udp_abort_send_handlers k w; s = w_udp w1 k; time = now (w_sched w1);
             half = cdiv (m_send_queue_time s) 2 * 1000
         in if half < u_next_send s - time then
              bindE (timer_expires_at (Udp_recv_timer k) (u_next_send s + half) w1) (\<lambda>w2.
              timer_async_wait (Udp_recv_timer k) (\<lambda>_. Udp_wait_send k success)
                (upd_udp k (\<lambda>s. s\<lparr>u_wait_send_handler := handler\<rparr>) w2))
            else Inr (post_job (bind_ec handler success) w1)
     | Wait_read \<Rightarrow> Inr (async_wait_receive_impl k None handler (udp_abort_recv_handlers k w))
     | Wait_error \<Rightarrow> Inr w)"

definition find_udp_socket :: "'u udp_socket \<Rightarrow> endpoint \<Rightarrow> 'u world \<Rightarrow> fault + route" where
  "find_udp_socket s ep w =
    (case om_find ep (m_udp_sockets (w_ports w)) of
       None \<Rightarrow> Inr []
     | Some j \<Rightarrow>
         (case local_bound_to s of (ec, src) \<Rightarrow>
           if ec \<noteq> success then Inl (Thrown ec)
           else
             bindE (get_socket_incoming_route (w_udp w j) w) (\<lambda>r.
             Inr (route_append r (channel_route (w_config w) (ep_address src) (ep_address ep))))))"

definition send_to_impl ::
  "'u net \<Rightarrow> nat \<Rightarrow> buffer list \<Rightarrow> endpoint \<Rightarrow> 'u world \<Rightarrow> fault + (nat \<times> error_code \<times> 'u world)" where
  "send_to_impl fwd k b dst w =
    bindE (assertE (m_non_blocking (w_udp w k))) (\<lambda>_.
    bindE (if m_bound_to (w_udp w k) = default_endpoint then udp_bind k default_endpoint w
           else Inr (success, w)) (\<lambda>(ec, w1).
    if ec \<noteq> success then Inr (0, ec, w1)
    else
      let ret = buffer_size b; s = w_udp w1 k; time = now (w_sched w1) in
      if ret = 0 then Inr (0, invalid_argument, w1)
      else
        bindE (get_path_mtu (m_io_service s) (ep_address (m_bound_to s)) (ep_address dst) w1) (\<lambda>mtu.
        if 65535 < ret then Inr (0, message_size, w1)
        else if m_dont_fragment s \<and> mtu < int ret then Inr (ret, success, w1)
        else if m_send_queue_time s * 1000 < u_next_send s - time then Inr (0, would_block, w1)
        else
          bindE (find_udp_socket s dst w1) (\<lambda>hops.
          if hops = [] then Inr (ret, success, w1)
          else
            bindE (get_outgoing_route (m_io_service s) (ep_address (m_bound_to s)) w1) (\<lambda>out.
            let w2 = upd_udp k (\<lambda>s. s\<lparr>u_next_send := max time (u_next_send s)\<rparr>) w1;
                p = new_packet\<lparr>p_overhead := 28, p_type := Payload, p_from := m_bound_to s,
                      p_hops := route_prepend out hops,
                      p_buffer := concat (map (\<lambda>(a, n). load (w_mem w2) a n) b)\<rparr>
            in bindE (write_log (\<lambda>t. log_udp t p (m_bound_to s) dst) w2) (\<lambda>w3.
               bindE (fwd p w3) (\<lambda>w4.
               Inr (ret, success, upd_udp k (\<lambda>s. s\<lparr>u_next_send :=
                 u_next_send s + send_time_ns nic_bandwidth (packet_size p)\<rparr>) w4)))))))) "

definition send_to ::
  "'u net \<Rightarrow> nat \<Rightarrow> buffer list \<Rightarrow> endpoint \<Rightarrow> 'u world \<Rightarrow> fault + (nat \<times> error_code \<times> 'u world)" where
  "send_to fwd k b dst w = send_to_impl fwd k b dst (udp_abort_send_handlers k w)"

end
