(* ===== verification/Queue.thy ===== *)
theory Queue
  imports Udp_Socket
begin

text \<open>
  The network queue (\<open>queue.cpp\<close>): bounded by bytes, forwarding one packet at a time after
  the propagation delay and the time the packet takes at the queue's bandwidth. Its two
  continuations \<open>begin_send_next_packet\<close> and \<open>next_packet_sent\<close> are bound without the error
  code, so an aborted wait runs them too.
\<close>

section \<open>Operations\<close>

definition queue_construct :: "int \<Rightarrow> int \<Rightarrow> int \<Rightarrow> 'u world \<Rightarrow> nat \<times> 'u world" where
  "queue_construct bandwidth propagation_delay max_queue_size w =
    (let q = w_next_id w;
         w1 = upd_queue q (\<lambda>_. \<lparr>q_max_queue_size = max_queue_size,
           q_forwarding_latency = propagation_delay, q_bandwidth = bandwidth, q_queue_size = 0,
           q_queue = [], q_last_forward = now (w_sched w)\<rparr>) (w\<lparr>w_next_id := Suc q\<rparr>)
     in (q, upd_sched (timer_construct (Forward_timer q)) w1))"

definition queue_full :: "queue \<Rightarrow> packet \<Rightarrow> bool" where
  "queue_full x p \<longleftrightarrow>
    ok_to_drop p \<and> 0 < q_max_queue_size x \<and> q_max_queue_size x < q_queue_size x + packet_size p"

definition begin_send_next_packet :: "nat \<Rightarrow> 'u world \<Rightarrow> fault + 'u world" where
  "begin_send_next_packet q w =
    (let x = w_queues w q; time = now (w_sched w) in
     case q_queue x of
       [] \<Rightarrow> Inl Undefined_behaviour
     | (ts, p) # _ \<Rightarrow>
         if time < ts then
           bindE (timer_expires_at (Forward_timer q) ts w) (\<lambda>w1.
           timer_async_wait (Forward_timer q) (\<lambda>_. Begin_send q) w1)
         else if q_bandwidth x = 0 then
           Inr (post_job (Next_sent q) (upd_queue q (\<lambda>x. x\<lparr>q_last_forward := time\<rparr>) w))
         else
           let last = time + send_time_ns (q_bandwidth x) (packet_size p) in
           bindE (timer_expires_at (Forward_timer q) last
             (upd_queue q (\<lambda>x. x\<lparr>q_last_forward := last\<rparr>) w)) (\<lambda>w1.
           timer_async_wait (Forward_timer q) (\<lambda>_. Next_sent q) w1))"

definition queue_incoming_packet :: "nat \<Rightarrow> packet \<Rightarrow> 'u world \<Rightarrow> fault + 'u world" where
  "queue_incoming_packet q p w =
    (let x = w_queues w q in
     if queue_full x p then
       (case p_drop_fun p of
          None \<Rightarrow> Inr w
        | Some k \<Rightarrow> packet_dropped k (p\<lparr>p_drop_fun := None\<rparr>) w)
     else
       let w1 = upd_queue q (\<lambda>x. x\<lparr>q_queue := q_queue x @ [(now (w_sched w) + q_forwarding_latency x, p)],
                  q_queue_size := q_queue_size x + packet_size p\<rparr>) w
       in if 1 < length (q_queue (w_queues w1 q)) then Inr w1
          else begin_send_next_packet q w1)"

definition next_packet_sent :: "'u net \<Rightarrow> nat \<Rightarrow> 'u world \<Rightarrow> fault + 'u world" where
  "next_packet_sent fwd q w =
    (case q_queue (w_queues w q) of
       [] \<Rightarrow> Inl Undefined_behaviour
     | (ts, p) # rest \<Rightarrow>
         bindE (fwd p (upd_queue q (\<lambda>x. x\<lparr>q_queue := rest, q_queue_size := q_queue_size x - packet_size p\<rparr>) w)) (\<lambda>w1.
         if q_queue (w_queues w1 q) \<noteq> [] then begin_send_next_packet q w1 else Inr w1))"

section \<open>Invariant\<close>

text \<open>
  The byte count is that of the packets held, and a queue that holds packets has an event
  pending that goes on with them: its timer is armed with one of the continuations, or
  \<open>next_packet_sent\<close> is in the message queue.
\<close>

definition queue_sized :: "nat \<Rightarrow> 'u world \<Rightarrow> bool" where
  "queue_sized q w \<longleftrightarrow>
    q_queue_size (w_queues w q) = sum_list (map (packet_size \<circ> snd) (q_queue (w_queues w q)))"

definition forwarding_pending :: "nat \<Rightarrow> 'u world \<Rightarrow> bool" where
  "forwarding_pending q w \<longleftrightarrow>
    (let t = timers (w_sched w) (Forward_timer q) in
       \<not> m_expired t \<and> m_handler t \<in> {Some (\<lambda>_. Begin_send q), Some (\<lambda>_. Next_sent q)}) \<or>
    Next_sent q \<in> set (m_service (w_sched w))"

definition queue_live :: "nat \<Rightarrow> 'u world \<Rightarrow> bool" where
  "queue_live q w \<longleftrightarrow> q_queue (w_queues w q) = [] \<or> forwarding_pending q w"

definition queue_ok :: "nat \<Rightarrow> 'u world \<Rightarrow> bool" where
  "queue_ok q w \<longleftrightarrow> sched_ok (w_sched w) \<and> queue_sized q w \<and> queue_live q w"

lemma begin_send_ok:
  assumes "sched_ok (w_sched w)" and "q_queue (w_queues w q) \<noteq> []"
  obtains s l where "begin_send_next_packet q w = Inr (upd_queue q (\<lambda>x. x\<lparr>q_last_forward := l\<rparr>) (w\<lparr>w_sched := s\<rparr>))"
    and "sched_ok s" and "\<And>w'. w_sched w' = s \<Longrightarrow> forwarding_pending q w'"
    and "g_simulation_time s = g_simulation_time (w_sched w)"
proof -
  obtain ts p rest where q: "q_queue (w_queues w q) = (ts, p) # rest"
    using assms(2) by (metis list.exhaust surj_pair)
  let ?x = "w_queues w q" and ?time = "now (w_sched w)"
  have same: "upd_queue q (\<lambda>x. x\<lparr>q_last_forward := q_last_forward ?x\<rparr>) v = v" if "w_queues v q = ?x" for v
    by (simp add: upd_queue_def flip: that)
  consider "?time < ts" | "\<not> ?time < ts" "q_bandwidth ?x = 0" | "\<not> ?time < ts" "q_bandwidth ?x \<noteq> 0"
    by blast
  then show ?thesis
  proof cases
    case 1
    obtain s where s: "bindE (timer_expires_at (Forward_timer q) ts w)
        (timer_async_wait (Forward_timer q) (\<lambda>_. Begin_send q)) = Inr (w\<lparr>w_sched := s\<rparr>)" "sched_ok s"
      "timers s = (timers (w_sched w))(Forward_timer q :=
        \<lparr>m_expiration_time = ts, m_handler = Some (\<lambda>_. Begin_send q), m_expired = False\<rparr>)"
      "g_simulation_time s = g_simulation_time (w_sched w)"
      by (rule arm_and_wait_ok [OF assms(1), of "Forward_timer q" ts "\<lambda>_. Begin_send q"])
    have "begin_send_next_packet q w =
        Inr (upd_queue q (\<lambda>x. x\<lparr>q_last_forward := q_last_forward ?x\<rparr>) (w\<lparr>w_sched := s\<rparr>))"
      using 1 s(1) by (simp add: begin_send_next_packet_def q same)
    from this s(2) _ s(4) show ?thesis
      by (rule that) (simp add: forwarding_pending_def s(3))
  next
    case 2
    let ?s = "post (Next_sent q) (w_sched w)"
    have "begin_send_next_packet q w =
        Inr (upd_queue q (\<lambda>x. x\<lparr>q_last_forward := ?time\<rparr>) (w\<lparr>w_sched := ?s\<rparr>))"
      using 2 by (simp add: begin_send_next_packet_def q post_job_def upd_sched_def upd_queue_def)
    then show ?thesis
      by (rule that) (use assms(1) in \<open>simp_all add: forwarding_pending_def\<close>)
  next
    case 3
    define l where "l = ?time + send_time_ns (q_bandwidth ?x) (packet_size p)"
    define w1 where "w1 = upd_queue q (\<lambda>x. x\<lparr>q_last_forward := l\<rparr>) w"
    have "sched_ok (w_sched w1)" using assms(1) by (simp add: w1_def)
    then obtain s where s: "bindE (timer_expires_at (Forward_timer q) l w1)
        (timer_async_wait (Forward_timer q) (\<lambda>_. Next_sent q)) = Inr (w1\<lparr>w_sched := s\<rparr>)" "sched_ok s"
      "timers s = (timers (w_sched w1))(Forward_timer q :=
        \<lparr>m_expiration_time = l, m_handler = Some (\<lambda>_. Next_sent q), m_expired = False\<rparr>)"
      "g_simulation_time s = g_simulation_time (w_sched w1)"
      by (rule arm_and_wait_ok [of w1 "Forward_timer q" l "\<lambda>_. Next_sent q"])
    have "begin_send_next_packet q w = Inr (upd_queue q (\<lambda>x. x\<lparr>q_last_forward := l\<rparr>) (w\<lparr>w_sched := s\<rparr>))"
      using 3 s(1) by (simp add: begin_send_next_packet_def q Let_def w1_def l_def upd_queue_def)
    from this s(2) _ _ show ?thesis
      by (rule that) (use s(4) in \<open>simp_all add: forwarding_pending_def s(3) w1_def\<close>)
  qed
qed

text \<open>A packet the queue takes: it goes to the end, and nothing outside the queue changes but the scheduler.\<close>

definition enqueue :: "nat \<Rightarrow> packet \<Rightarrow> 'u world \<Rightarrow> 'u world" where
  "enqueue q p w = upd_queue q (\<lambda>x. x\<lparr>q_queue := q_queue x @ [(now (w_sched w) + q_forwarding_latency x, p)],
    q_queue_size := q_queue_size x + packet_size p\<rparr>) w"

lemma queue_incoming_ok:
  assumes "sched_ok (w_sched w)" and "queue_live q w" and "\<not> queue_full (w_queues w q) p"
  obtains s l where "queue_incoming_packet q p w =
      Inr (upd_queue q (\<lambda>x. x\<lparr>q_last_forward := l\<rparr>) ((enqueue q p w)\<lparr>w_sched := s\<rparr>))"
    and "sched_ok s" and "\<And>w'. w_sched w' = s \<Longrightarrow> forwarding_pending q w'"
    and "g_simulation_time s = g_simulation_time (w_sched w)"
proof (cases "q_queue (w_queues w q) = []")
  case True
  have "sched_ok (w_sched (enqueue q p w))" and "q_queue (w_queues (enqueue q p w) q) \<noteq> []"
    using assms(1) by (simp_all add: enqueue_def)
  then obtain s l where b: "begin_send_next_packet q (enqueue q p w) =
      Inr (upd_queue q (\<lambda>x. x\<lparr>q_last_forward := l\<rparr>) ((enqueue q p w)\<lparr>w_sched := s\<rparr>))"
    and s: "sched_ok s" "\<And>w'. w_sched w' = s \<Longrightarrow> forwarding_pending q w'"
      "g_simulation_time s = g_simulation_time (w_sched (enqueue q p w))"
    using begin_send_ok [of "enqueue q p w" q] by metis
  have e: "queue_incoming_packet q p w = begin_send_next_packet q (enqueue q p w)"
    using True assms(3) by (simp add: queue_incoming_packet_def enqueue_def Let_def)
  show ?thesis
    by (rule that [OF b [folded e] s(1,2)]) (use s(3) in \<open>simp_all add: enqueue_def\<close>)
next
  case False
  let ?l = "q_last_forward (w_queues w q)"
  have "queue_incoming_packet q p w = Inr (enqueue q p w)"
    using False assms(3) by (simp add: queue_incoming_packet_def enqueue_def Let_def)
  moreover have "enqueue q p w =
      upd_queue q (\<lambda>x. x\<lparr>q_last_forward := ?l\<rparr>) ((enqueue q p w)\<lparr>w_sched := w_sched w\<rparr>)"
    by (simp add: enqueue_def upd_queue_def)
  ultimately have "queue_incoming_packet q p w =
      Inr (upd_queue q (\<lambda>x. x\<lparr>q_last_forward := ?l\<rparr>) ((enqueue q p w)\<lparr>w_sched := w_sched w\<rparr>))"
    by simp
  then show ?thesis
    by (rule that)
      (use assms(1,2) False in \<open>auto simp: queue_live_def forwarding_pending_def\<close>)
qed

section \<open>The interface of a hop that keeps packets in order\<close>

text \<open>
  What the senders rely on: as long as the packets to come fit, the hop takes each of them, at
  the end of what it holds.
\<close>

locale fifo_hop =
  fixes contents :: "'s \<Rightarrow> packet list"
    and push :: "packet \<Rightarrow> 's \<Rightarrow> fault + 's"
    and fits :: "packet list \<Rightarrow> 's \<Rightarrow> bool"
  assumes push_fits: "fits (p # ps) s \<Longrightarrow>
      \<exists>s'. push p s = Inr s' \<and> contents s' = contents s @ [p] \<and> fits ps s'"
begin

lemma eachE_fits:
  "fits ps s \<Longrightarrow> \<exists>s'. eachE push ps s = Inr s' \<and> contents s' = contents s @ ps \<and> fits [] s'"
proof (induction ps arbitrary: s)
  case Nil
  then show ?case by simp
next
  case (Cons p ps)
  from push_fits [OF Cons.prems] obtain s1 where
    s1: "push p s = Inr s1" "contents s1 = contents s @ [p]" "fits ps s1"
    by blast
  with Cons.IH [OF s1(3)] show ?case by fastforce
qed

end

definition queue_packets :: "nat \<Rightarrow> 'u world \<Rightarrow> packet list" where
  "queue_packets q w = map snd (q_queue (w_queues w q))"

definition queue_fits :: "nat \<Rightarrow> packet list \<Rightarrow> 'u world \<Rightarrow> bool" where
  "queue_fits q ps w \<longleftrightarrow> queue_ok q w \<and>
    (let x = w_queues w q in
       q_max_queue_size x \<le> 0 \<or>
       (\<forall>p \<in> set ps. 0 \<le> packet_size p) \<and>
       q_queue_size x + sum_list (map packet_size ps) \<le> q_max_queue_size x)"

lemma queue_incoming_fits:
  assumes "queue_fits q (p # ps) w"
  shows "\<exists>w'. queue_incoming_packet q p w = Inr w' \<and> queue_packets q w' = queue_packets q w @ [p] \<and>
    queue_fits q ps w'"
proof -
  have ok: "sched_ok (w_sched w)" "queue_sized q w" "queue_live q w"
    using assms by (simp_all add: queue_fits_def queue_ok_def)
  have "\<forall>p \<in> set ps. 0 \<le> packet_size p \<Longrightarrow> 0 \<le> sum_list (map packet_size ps)"
    by (rule sum_list_nonneg) auto
  then have "\<not> queue_full (w_queues w q) p"
    using assms by (auto simp: queue_fits_def queue_full_def Let_def)
  with ok obtain s l where e: "queue_incoming_packet q p w =
      Inr (upd_queue q (\<lambda>x. x\<lparr>q_last_forward := l\<rparr>) ((enqueue q p w)\<lparr>w_sched := s\<rparr>))"
    and s: "sched_ok s" "\<And>w'. w_sched w' = s \<Longrightarrow> forwarding_pending q w'"
    using queue_incoming_ok [of w q p] by metis
  let ?w = "upd_queue q (\<lambda>x. x\<lparr>q_last_forward := l\<rparr>) ((enqueue q p w)\<lparr>w_sched := s\<rparr>)"
  have "queue_packets q ?w = queue_packets q w @ [p]"
    by (simp add: queue_packets_def enqueue_def)
  moreover have "queue_live q ?w"
    using s(2) by (simp add: queue_live_def)
  moreover have "queue_sized q ?w"
    using ok(2) by (simp add: queue_sized_def enqueue_def)
  ultimately have "queue_packets q ?w = queue_packets q w @ [p] \<and> queue_fits q ps ?w"
    using assms s(1) by (auto simp: queue_fits_def queue_ok_def enqueue_def Let_def)
  with e show ?thesis by blast
qed

interpretation qf: fifo_hop "queue_packets q" "queue_incoming_packet q" "queue_fits q" for q
  by unfold_locales (rule queue_incoming_fits)

section \<open>Properties\<close>

text \<open>
  C14. A burst of packets that fits a queue is taken whole: no call aborts and nothing is
  dropped, the packets stand behind those already there in the order they came, the byte count
  is exact and within the limit, and an event is pending that goes on with them.
\<close>

theorem queue_accepts_burst:
  assumes "queue_fits q ps w"
  shows "\<exists>w'. eachE (queue_incoming_packet q) ps w = Inr w' \<and>
    queue_packets q w' = queue_packets q w @ ps \<and>
    q_queue_size (w_queues w' q) = sum_list (map packet_size (queue_packets q w')) \<and>
    (q_max_queue_size (w_queues w' q) \<le> 0 \<or>
      q_queue_size (w_queues w' q) \<le> q_max_queue_size (w_queues w' q)) \<and>
    (queue_packets q w' \<noteq> [] \<longrightarrow> forwarding_pending q w')"
proof -
  obtain w' where w': "eachE (queue_incoming_packet q) ps w = Inr w'"
    "queue_packets q w' = queue_packets q w @ ps" "queue_fits q [] w'"
    using qf.eachE_fits [OF assms] by blast
  have "q_queue_size (w_queues w' q) = sum_list (map packet_size (queue_packets q w'))"
    using w'(3) by (simp add: queue_fits_def queue_ok_def queue_sized_def queue_packets_def)
  moreover have "queue_packets q w' \<noteq> [] \<longrightarrow> forwarding_pending q w'"
    using w'(3) by (auto simp add: queue_fits_def queue_ok_def queue_live_def queue_packets_def)
  ultimately show ?thesis
    using w' by (auto simp: queue_fits_def Let_def)
qed

text \<open>A world with nothing in it, for the witnesses; most instantiate \<open>'u\<close> by numbers.\<close>

definition new_world :: "'u world" where
  "new_world = \<lparr>w_sched = \<lparr>g_simulation_time = 0, timers = (\<lambda>_. new_timer), m_timer_queue = [],
      m_service = [], m_stopped = False\<rparr>,
    w_ports = fresh_ports,
    w_config = \<lparr>channel_route = (\<lambda>_ _. []), path_mtu = (\<lambda>_ _. 1475),
      hostname_lookup = (\<lambda>_ _. ([], host_not_found, 0))\<rparr>,
    w_nodes = Map.empty,
    w_queues = (\<lambda>_. \<lparr>q_max_queue_size = 0, q_forwarding_latency = 30000000, q_bandwidth = 0,
      q_queue_size = 0, q_queue = [], q_last_forward = 0\<rparr>),
    w_forwarders = (\<lambda>_. None),
    w_channels = (\<lambda>_. \<lparr>c_hops = (\<lambda>_. []), c_ep = (\<lambda>_. default_endpoint),
      c_visible_ep = (\<lambda>_. default_endpoint), c_bytes_sent = (\<lambda>_. 0)\<rparr>),
    w_tcp = (\<lambda>_. new_tcp_socket 0), w_acceptors = Map.empty, w_udp = (\<lambda>_. new_udp_socket 0 0),
    w_resolvers = (\<lambda>_. \<lparr>m_ios = 0, m_queue = []\<rparr>), w_mem = (\<lambda>_. 0), w_eps = (\<lambda>_. default_endpoint),
    w_pcap = None, w_indeterminate = 0, w_next_id = 100\<rparr>"

abbreviation empty_world :: "nat world" where
  "empty_world \<equiv> new_world"

lemma empty_world_ok [simp]: "queue_ok q empty_world"
  by (simp add: queue_ok_def sched_ok_def queue_sized_def queue_live_def new_world_def new_timer_def)

lemma queue_accepts_burst_witness:
  "\<exists>w'. eachE (queue_incoming_packet 3) [new_packet, new_packet\<lparr>p_buffer := [1, 2]\<rparr>] empty_world = Inr w' \<and>
    queue_packets 3 w' = [new_packet, new_packet\<lparr>p_buffer := [1, 2]\<rparr>] \<and>
    q_queue_size (w_queues w' 3) = 42"
proof -
  have "queue_fits 3 [new_packet, new_packet\<lparr>p_buffer := [1, 2]\<rparr>] empty_world"
    by (simp add: queue_fits_def) (simp add: new_world_def)
  from queue_accepts_burst [OF this] show ?thesis
    by (auto simp: queue_packets_def new_world_def packet_size_def new_packet_def)
qed

text \<open>
  A packet a full queue drops goes back to its sender, but without its drop function: it
  stands at the end of the sender's packets to send again, and when a full queue meets it
  again, under whatever route and byte counter, it is lost without a trace.
\<close>

theorem dropped_twice_is_lost:
  fixes w w1 :: "'u world"
  assumes "queue_full (w_queues w q) p" and "p_drop_fun p = Some k"
    and "queue_incoming_packet q p w = Inr w1"
  shows "\<exists>p'. m_outgoing_packets (w_tcp w1 k) = m_outgoing_packets (w_tcp w k) @ [p'] \<and>
    p_buffer p' = p_buffer p \<and> p_seq_nr p' = p_seq_nr p \<and> w_queues w1 = w_queues w \<and>
    (\<forall>h b q2 (w2 :: 'u world). queue_full (w_queues w2 q2) p' \<longrightarrow>
      queue_incoming_packet q2 (p'\<lparr>p_hops := h, p_byte_counter := b\<rparr>) w2 = Inr w2)"
proof -
  from assms have "packet_dropped k (p\<lparr>p_drop_fun := None\<rparr>) w = Inr w1"
    by (simp add: queue_incoming_packet_def)
  then obtain h where "m_outgoing_packets (w_tcp w1 k) =
      m_outgoing_packets (w_tcp w k) @ [p\<lparr>p_drop_fun := None, p_hops := h\<rparr>]" and "w_queues w1 = w_queues w"
    by (auto simp: packet_dropped_def Let_def split: if_splits)
  then show ?thesis
    by (auto simp: queue_incoming_packet_def queue_full_def ok_to_drop_def packet_size_def)
qed

lemma dropped_twice_is_lost_witness:
  "\<exists>(w :: nat world) w1 p'. queue_incoming_packet 3 (new_packet\<lparr>p_type := Payload, p_buffer := [1, 2], p_drop_fun := Some 7\<rparr>) w = Inr w1 \<and>
    m_outgoing_packets (w_tcp w1 7) = [p'] \<and> queue_incoming_packet 3 (p'\<lparr>p_hops := [], p_byte_counter := 5\<rparr>) w1 = Inr w1"
proof -
  let ?p = "new_packet\<lparr>p_type := Payload, p_buffer := [1, 2], p_drop_fun := Some 7\<rparr>"
  let ?w = "upd_queue 3 (\<lambda>x. x\<lparr>q_max_queue_size := 10\<rparr>)
    (upd_tcp 7 (\<lambda>s. s\<lparr>m_channel := Some 0\<rparr>) empty_world)"
  have full: "queue_full (w_queues ?w 3) ?p"
    by (simp add: queue_full_def ok_to_drop_def packet_size_def new_packet_def new_world_def)
  obtain w1 where w1: "queue_incoming_packet 3 ?p ?w = Inr w1"
    using full by (simp add: queue_incoming_packet_def packet_dropped_def channel_of_def remote_idx_def
        new_world_def new_tcp_socket_def Let_def cdiv_def)
  obtain p' where p': "m_outgoing_packets (w_tcp w1 7) = m_outgoing_packets (w_tcp ?w 7) @ [p']"
    "p_buffer p' = p_buffer ?p" "w_queues w1 = w_queues ?w"
    "\<And>h b q2 (w2 :: nat world). queue_full (w_queues w2 q2) p' \<Longrightarrow>
      queue_incoming_packet q2 (p'\<lparr>p_hops := h, p_byte_counter := b\<rparr>) w2 = Inr w2"
    using dropped_twice_is_lost [OF full _ w1] by auto
  have out: "m_outgoing_packets (w_tcp w1 7) = [p']"
    using p'(1) by (simp add: new_world_def new_tcp_socket_def)
  have "p' = ?p\<lparr>p_drop_fun := None, p_hops := []\<rparr>"
    using w1 full p'(1) by (auto simp: queue_incoming_packet_def packet_dropped_def channel_of_def remote_idx_def
        new_world_def new_tcp_socket_def Let_def cdiv_def)
  then have "queue_full (w_queues w1 3) p'"
    using full by (simp add: p'(3) queue_full_def ok_to_drop_def packet_size_def)
  then have "queue_incoming_packet 3 (p'\<lparr>p_hops := [], p_byte_counter := 5\<rparr>) w1 = Inr w1"
    by (rule p'(4))
  with w1 out show ?thesis
    by blast
qed

end
