(* ===== verification/Network.thy ===== *)
theory Network
  imports Acceptor Queue Udp_Socket
begin

text \<open>
  \<open>forward_packet\<close> (\<open>simulator.cpp\<close>) and the sinks a packet can reach: a queue, a NAT
  (\<open>nat.cpp\<close>), and a socket behind its forwarder (\<open>sink_forwarder.cpp\<close>), TCP or UDP, where the
  virtual call reaches the acceptor when the socket is one. The recursion through the network
  is bounded by fuel.
\<close>

definition nat_incoming_packet :: "'u net \<Rightarrow> address \<Rightarrow> packet \<Rightarrow> 'u world \<Rightarrow> fault + 'u world" where
  "nat_incoming_packet fwd external_addr p w =
    (let p' = p\<lparr>p_from := set_address external_addr (p_from p)\<rparr>;
         w' = (case p_channel p of
                 None \<Rightarrow> w
               | Some c \<Rightarrow> upd_channel c (\<lambda>ch. ch\<lparr>c_visible_ep :=
                   (c_visible_ep ch)(0 := set_address external_addr (c_visible_ep ch 0))\<rparr>) w)
     in fwd p' w')"

definition socket_incoming_packet :: "'u net \<Rightarrow> nat \<Rightarrow> nat \<Rightarrow> packet \<Rightarrow> 'u world \<Rightarrow> fault + 'u world" where
  "socket_incoming_packet fwd fuel k p w =
    (case w_acceptors w k of
       None \<Rightarrow> tcp_incoming_packet fwd fuel k p w
     | Some _ \<Rightarrow> acceptor_incoming_packet fwd k p w)"

definition forwarder_incoming_packet :: "'u net \<Rightarrow> nat \<Rightarrow> nat \<Rightarrow> packet \<Rightarrow> 'u world \<Rightarrow> fault + 'u world" where
  "forwarder_incoming_packet fwd fuel f p w =
    (case w_forwarders w f of
       None \<Rightarrow> Inr w
     | Some (Tcp k) \<Rightarrow> socket_incoming_packet fwd fuel k p w
     | Some (Udp k) \<Rightarrow> udp_incoming_packet k p w)"

definition sink_incoming_packet :: "'u net \<Rightarrow> nat \<Rightarrow> sink \<Rightarrow> packet \<Rightarrow> 'u world \<Rightarrow> fault + 'u world" where
  "sink_incoming_packet fwd fuel s p w =
    (case s of
       sink.Queue q \<Rightarrow> queue_incoming_packet q p w
     | Nat a \<Rightarrow> nat_incoming_packet fwd a p w
     | Forwarder f \<Rightarrow> forwarder_incoming_packet fwd fuel f p w)"

fun forward_packet :: "nat \<Rightarrow> 'u net" where
  "forward_packet 0 p w = Inl Out_of_fuel"
| "forward_packet (Suc n) p w =
    (case pop_front (p_hops p) of
       (None, _) \<Rightarrow> Inr w
     | (Some hop, rest) \<Rightarrow> sink_incoming_packet (forward_packet n) n hop (p\<lparr>p_hops := rest\<rparr>) w)"

section \<open>Fuel\<close>

text \<open>The address that the last of the NATs a packet passes gives to its sender.\<close>

definition translated :: "address list \<Rightarrow> endpoint \<Rightarrow> endpoint" where
  "translated as ep = (if as = [] then ep else set_address (last as) ep)"

lemma translated_simps [simp]:
  "translated [] ep = ep" "translated (a # as) ep = translated as (set_address a ep)"
  by (simp_all add: translated_def set_address_def)

definition translate_channel :: "address list \<Rightarrow> nat option \<Rightarrow> 'u world \<Rightarrow> 'u world" where
  "translate_channel as c w =
    (case c of
       None \<Rightarrow> w
     | Some c \<Rightarrow> if as = [] then w else upd_channel c (\<lambda>ch. ch\<lparr>c_visible_ep :=
         (c_visible_ep ch)(0 := translated as (c_visible_ep ch 0))\<rparr>) w)"

lemma translate_channel_Nil [simp]: "translate_channel [] c w = w"
  by (simp add: translate_channel_def split: option.splits)

lemma translate_channel_Cons:
  "translate_channel as c (case c of None \<Rightarrow> w | Some d \<Rightarrow> upd_channel d (\<lambda>ch. ch\<lparr>c_visible_ep :=
      (c_visible_ep ch)(0 := set_address a (c_visible_ep ch 0))\<rparr>) w) = translate_channel (a # as) c w"
  by (simp add: translate_channel_def upd_channel_def split: option.splits)

text \<open>
  C29. A packet that has NATs and then a queue ahead of it always gets into the queue, with fuel for
  the hops it passes, whatever is behind the queue: forwarding comes to an end there. The sender
  it shows, and the one its channel shows to the other side, has the address of the last NAT.
\<close>

theorem packet_reaches_queue:
  assumes "p_hops p = map Nat as @ sink.Queue q # rest" and "length as < n"
  shows "forward_packet n p w =
    queue_incoming_packet q (p\<lparr>p_hops := rest, p_from := translated as (p_from p)\<rparr>)
      (translate_channel as (p_channel p) w)"
  using assms
proof (induction as arbitrary: n p w)
  case Nil
  then show ?case
    by (cases n) (simp_all add: pop_front_def sink_incoming_packet_def)
next
  case (Cons a as)
  then obtain n' where n: "n = Suc n'" by (cases n) auto
  let ?p = "p\<lparr>p_hops := map Nat as @ sink.Queue q # rest, p_from := set_address a (p_from p)\<rparr>"
  have "forward_packet n p w = forward_packet n' ?p (case p_channel p of None \<Rightarrow> w
      | Some d \<Rightarrow> upd_channel d (\<lambda>ch. ch\<lparr>c_visible_ep :=
          (c_visible_ep ch)(0 := set_address a (c_visible_ep ch 0))\<rparr>) w)"
    using Cons.prems by (simp add: n pop_front_def sink_incoming_packet_def nat_incoming_packet_def)
  also have "\<dots> = queue_incoming_packet q (?p\<lparr>p_hops := rest, p_from := translated as (p_from ?p)\<rparr>)
      (translate_channel (a # as) (p_channel p) w)"
    using Cons.prems n by (subst Cons.IH) (simp_all add: translate_channel_Cons)
  finally show ?case by simp
qed

lemma packet_reaches_queue_witness:
  "forward_packet 3 (new_packet\<lparr>p_hops := [Nat (V4 1), Nat (V4 2), sink.Queue 8, Forwarder 5]\<rparr>) empty_world =
    queue_incoming_packet 8 (new_packet\<lparr>p_hops := [Forwarder 5], p_from := Endpoint (V4 2) 0\<rparr>) empty_world"
  using packet_reaches_queue [of "new_packet\<lparr>p_hops := [Nat (V4 1), Nat (V4 2), sink.Queue 8, Forwarder 5]\<rparr>"
      "[V4 1, V4 2]" 8 "[Forwarder 5]" 3 empty_world]
  by (simp add: new_packet_def set_address_def default_endpoint_def translate_channel_def)

end
