(* ===== verification/Tcp_Flow.thy ===== *)
theory Tcp_Flow
  imports Queue Acceptor
begin

text \<open>
  The send window and the reorder buffer. The invariant of a TCP socket says that the bytes in
  flight cover the packets not acknowledged yet, which is what the assertion in the handling of
  an acknowledgement relies on, and that the reorder buffer files each packet under its own
  sequence number. It is shown for each operation, for any network that keeps it; theory
  \<open>Network\<close> shows that \<open>forward_packet\<close> does. The second half shows which acknowledgements
  and which arrivals wake the application.
\<close>

section \<open>Invariant\<close>

definition unacked :: "(64 word \<rightharpoonup> int) \<Rightarrow> int" where
  "unacked m = (\<Sum>n \<in> dom m. the (m n))"

definition tcp_inv :: "'u tcp_socket \<Rightarrow> bool" where
  "tcp_inv s \<longleftrightarrow>
    (\<forall>n v. m_outstanding_packet_sizes s n = Some v \<longrightarrow> 0 \<le> v) \<and>
    unacked (m_outstanding_packet_sizes s) \<le> m_bytes_in_flight s \<and>
    (\<forall>n p. m_reorder_buffer s n = Some p \<longrightarrow> p_seq_nr p = n)"

definition world_inv :: "'u world \<Rightarrow> bool" where
  "world_inv w \<longleftrightarrow> (\<forall>k. tcp_inv (w_tcp w k))"

lemma finite_dom_word [simp]: "finite (dom (m :: 64 word \<rightharpoonup> 'a))"
  by (rule finite_subset [OF subset_UNIV]) simp

lemma unacked_empty [simp]: "unacked Map.empty = 0"
  by (simp add: unacked_def)

lemma unacked_nonneg: "(\<And>n v. m n = Some v \<Longrightarrow> 0 \<le> v) \<Longrightarrow> 0 \<le> unacked m"
  unfolding unacked_def by (rule sum_nonneg) auto

lemma unacked_remove: "m n = Some v \<Longrightarrow> unacked (m(n := None)) = unacked m - v"
  unfolding unacked_def dom_fun_upd
  by (simp add: sum_diff1 domI)

lemma unacked_insert:
  assumes "\<And>n v. m n = Some v \<Longrightarrow> 0 \<le> v"
  shows "unacked (m(n \<mapsto> v)) \<le> unacked m + v"
proof -
  have fresh: "unacked (m(n \<mapsto> v)) = unacked m + v" if "m n = None" for m :: "64 word \<rightharpoonup> int"
  proof -
    have "n \<notin> dom m" using that by auto
    then have "(\<Sum>x \<in> insert n (dom m). the ((m(n \<mapsto> v)) x)) = v + (\<Sum>x \<in> dom m. the ((m(n \<mapsto> v)) x))"
      by simp
    also have "(\<Sum>x \<in> dom m. the ((m(n \<mapsto> v)) x)) = unacked m"
      unfolding unacked_def using \<open>n \<notin> dom m\<close> by (intro sum.cong) auto
    finally show ?thesis by (simp add: unacked_def)
  qed
  show ?thesis
  proof (cases "m n")
    case None
    then show ?thesis by (simp add: fresh)
  next
    case (Some u)
    have "unacked (m(n \<mapsto> v)) = unacked ((m(n := None))(n \<mapsto> v))" by simp
    also have "\<dots> = unacked (m(n := None)) + v" by (rule fresh) simp
    also have "\<dots> = unacked m - u + v" using Some by (simp add: unacked_remove)
    finally show ?thesis using assms [OF Some] by simp
  qed
qed

lemma tcp_inv_in_flight: "tcp_inv s \<Longrightarrow> 0 \<le> m_bytes_in_flight s"
  using unacked_nonneg [of "m_outstanding_packet_sizes s"] by (force simp: tcp_inv_def)

lemma tcp_inv_acked:
  assumes "tcp_inv s" and "m_outstanding_packet_sizes s n = Some v"
  shows "v \<le> m_bytes_in_flight s"
proof -
  have "0 \<le> unacked ((m_outstanding_packet_sizes s)(n := None))"
    using assms(1) by (intro unacked_nonneg) (auto simp: tcp_inv_def split: if_splits)
  then show ?thesis
    using assms by (simp add: unacked_remove tcp_inv_def)
qed

lemma tcp_inv_sent:
  assumes "tcp_inv s" and "0 \<le> v"
  shows "tcp_inv (s\<lparr>m_bytes_in_flight := m_bytes_in_flight s + v,
    m_outstanding_packet_sizes := (m_outstanding_packet_sizes s)(n \<mapsto> v)\<rparr>)"
  using assms unacked_insert [of "m_outstanding_packet_sizes s" n v] by (force simp: tcp_inv_def)

lemma tcp_inv_ack:
  assumes "tcp_inv s" and "m_outstanding_packet_sizes s n = Some v"
  shows "tcp_inv (s\<lparr>m_outstanding_packet_sizes := (m_outstanding_packet_sizes s)(n := None),
    m_bytes_in_flight := m_bytes_in_flight s - v\<rparr>)"
  using assms by (auto simp: tcp_inv_def unacked_remove)

lemma tcp_inv_new [simp]: "tcp_inv (new_tcp_socket ios)"
  by (simp add: tcp_inv_def new_tcp_socket_def)

text \<open>An update of fields the invariant does not mention keeps it.\<close>

definition flow_state :: "'u tcp_socket \<Rightarrow> int \<times> (64 word \<rightharpoonup> int) \<times> (64 word \<rightharpoonup> packet)" where
  "flow_state s = (m_bytes_in_flight s, m_outstanding_packet_sizes s, m_reorder_buffer s)"

lemma flow_state_update [simp]:
  "flow_state (s\<lparr>m_io_service := x1\<rparr>) = flow_state s"
  "flow_state (s\<lparr>m_bound_to := x2\<rparr>) = flow_state s"
  "flow_state (s\<lparr>m_user_bound_to := x3\<rparr>) = flow_state s"
  "flow_state (s\<lparr>m_forwarder := x4\<rparr>) = flow_state s"
  "flow_state (s\<lparr>m_open := x5\<rparr>) = flow_state s"
  "flow_state (s\<lparr>m_non_blocking := x6\<rparr>) = flow_state s"
  "flow_state (s\<lparr>m_dont_fragment := x7\<rparr>) = flow_state s"
  "flow_state (s\<lparr>m_max_receive_queue_size := x8\<rparr>) = flow_state s"
  "flow_state (s\<lparr>m_send_queue_time := x9\<rparr>) = flow_state s"
  "flow_state (s\<lparr>m_connect_handler := x10\<rparr>) = flow_state s"
  "flow_state (s\<lparr>m_mss := x11\<rparr>) = flow_state s"
  "flow_state (s\<lparr>m_send_handler := x12\<rparr>) = flow_state s"
  "flow_state (s\<lparr>m_wait_send_handler := x13\<rparr>) = flow_state s"
  "flow_state (s\<lparr>m_send_buffer := x14\<rparr>) = flow_state s"
  "flow_state (s\<lparr>m_incoming_queue := x15\<rparr>) = flow_state s"
  "flow_state (s\<lparr>m_queue_size := x16\<rparr>) = flow_state s"
  "flow_state (s\<lparr>m_recv_handler := x17\<rparr>) = flow_state s"
  "flow_state (s\<lparr>m_wait_recv_handler := x18\<rparr>) = flow_state s"
  "flow_state (s\<lparr>m_recv_buffer := x19\<rparr>) = flow_state s"
  "flow_state (s\<lparr>m_is_v4 := x20\<rparr>) = flow_state s"
  "flow_state (s\<lparr>m_recv_null_buffers := x21\<rparr>) = flow_state s"
  "flow_state (s\<lparr>m_send_null_buffers := x22\<rparr>) = flow_state s"
  "flow_state (s\<lparr>m_channel := x23\<rparr>) = flow_state s"
  "flow_state (s\<lparr>m_next_outgoing_seq := x24\<rparr>) = flow_state s"
  "flow_state (s\<lparr>m_next_incoming_seq := x25\<rparr>) = flow_state s"
  "flow_state (s\<lparr>m_last_drop_seq := x26\<rparr>) = flow_state s"
  "flow_state (s\<lparr>m_cwnd := x27\<rparr>) = flow_state s"
  "flow_state (s\<lparr>m_outgoing_packets := x28\<rparr>) = flow_state s"
  by (simp_all add: flow_state_def)

lemma tcp_inv_cong: "flow_state s = flow_state s' \<Longrightarrow> tcp_inv s = tcp_inv s'"
  by (simp add: tcp_inv_def flow_state_def)

lemma world_inv_cong: "w_tcp w = w_tcp w' \<Longrightarrow> world_inv w = world_inv w'"
  by (simp add: world_inv_def)

lemma world_invD: "world_inv w \<Longrightarrow> tcp_inv (w_tcp w k)"
  by (simp add: world_inv_def)

lemma world_inv_upd: "world_inv w \<Longrightarrow> tcp_inv (f (w_tcp w k)) \<Longrightarrow> world_inv (upd_tcp k f w)"
  by (simp add: world_inv_def)

lemma world_inv_same [simp]:
  assumes "\<And>s. flow_state (f s) = flow_state s"
  shows "world_inv (upd_tcp k f w) = world_inv w"
proof -
  have "tcp_inv (f (w_tcp w k)) = tcp_inv (w_tcp w k)"
    using assms by (rule tcp_inv_cong)
  then show ?thesis by (auto simp: world_inv_def)
qed

lemma world_inv_frame [simp]:
  "world_inv (upd_sched g w) = world_inv w"
  "world_inv (post_job j w) = world_inv w"
  "world_inv (cancel_timer t w) = world_inv w"
  "world_inv (set_forwarder i r w) = world_inv w"
  "world_inv (upd_channel c h w) = world_inv w"
  "world_inv (upd_queue q x w) = world_inv w"
  "world_inv (upd_udp k u w) = world_inv w"
  "world_inv (upd_acceptor k a w) = world_inv w"
  "world_inv (w\<lparr>w_sched := s\<rparr>) = world_inv w"
  "world_inv (w\<lparr>w_ports := ps\<rparr>) = world_inv w"
  "world_inv (w\<lparr>w_next_id := n\<rparr>) = world_inv w"
  "world_inv (w\<lparr>w_mem := m\<rparr>) = world_inv w"
  "world_inv (w\<lparr>w_eps := es\<rparr>) = world_inv w"
  "world_inv (w\<lparr>w_pcap := l\<rparr>) = world_inv w"
  "world_inv (w\<lparr>w_acceptors := acc\<rparr>) = world_inv w"
  "world_inv (move_timer t t' w) = world_inv w"
  by (auto simp: move_timer_def upd_acceptor_def intro!: world_inv_cong)

section \<open>Operations without the network\<close>

named_theorems inv_op \<open>an operation keeps the invariant\<close>

lemma timer_ops_inv [inv_op]:
  "timer_expires_at t e w = Inr w' \<Longrightarrow> world_inv w \<Longrightarrow> world_inv w'"
  "timer_expires_after t e w = Inr w' \<Longrightarrow> world_inv w \<Longrightarrow> world_inv w'"
  "timer_async_wait t h w = Inr w' \<Longrightarrow> world_inv w \<Longrightarrow> world_inv w'"
  by (auto simp: timer_expires_at_def timer_expires_after_def timer_async_wait_def)

lemma write_log_inv [inv_op]: "write_log f w = Inr w' \<Longrightarrow> world_inv w \<Longrightarrow> world_inv w'"
  by (auto simp: write_log_def split: option.splits)

lemma ios_bind_inv [inv_op]:
  "ios_bind_socket i k ep w = Inr (r, w') \<Longrightarrow> world_inv w \<Longrightarrow> world_inv w'"
  "ios_bind_udp_socket i k ep w = Inr (r, w') \<Longrightarrow> world_inv w \<Longrightarrow> world_inv w'"
  by (auto simp: ios_bind_socket_def ios_bind_udp_socket_def)

lemma abort_inv [simp]:
  "world_inv w \<Longrightarrow> world_inv (abort_recv_handlers k w)"
  "world_inv w \<Longrightarrow> world_inv (abort_send_handlers k w)"
  by (auto simp: abort_recv_handlers_def abort_send_handlers_def Let_def)

lemma tcp_cancel_inv [simp]: "world_inv w \<Longrightarrow> world_inv (tcp_cancel k w)"
  by (auto simp: tcp_cancel_def Let_def)

lemma tcp_small_inv [simp]:
  "world_inv w \<Longrightarrow> world_inv (tcp_unbind k w)"
  "world_inv w \<Longrightarrow> world_inv (tcp_drop_forwarder k w)"
  "world_inv w \<Longrightarrow> world_inv (snd (tcp_construct ios w))"
  by (auto simp: tcp_unbind_def tcp_drop_forwarder_def tcp_construct_def Let_def
      intro!: world_inv_upd)

lemma tcp_destruct_inv [simp]: "world_inv w \<Longrightarrow> world_inv (tcp_destruct k w)"
  by (auto simp: tcp_destruct_def Let_def)

lemma tcp_inv_moved_from:
  "tcp_inv s \<Longrightarrow> m_bytes_in_flight s' = m_bytes_in_flight s \<Longrightarrow>
    m_outstanding_packet_sizes s' = Map.empty \<Longrightarrow> m_reorder_buffer s' = Map.empty \<Longrightarrow> tcp_inv s'"
  using tcp_inv_in_flight [of s] by (simp add: tcp_inv_def)

definition moved_from :: "'u tcp_socket \<Rightarrow> 'u tcp_socket" where
  "moved_from s = s\<lparr>m_connect_handler := None, m_send_handler := None,
     m_wait_send_handler := None, m_send_buffer := [], m_incoming_queue := [],
     m_recv_handler := None, m_wait_recv_handler := None, m_recv_buffer := [],
     m_channel := None, m_reorder_buffer := Map.empty,
     m_outstanding_packet_sizes := Map.empty, m_outgoing_packets := [],
     m_forwarder := None, m_open := False, m_bound_to := default_endpoint\<rparr>"

lemma tcp_move_inv [inv_op]:
  assumes "tcp_move k w = Inr (k', w')" and "world_inv w"
  shows "world_inv w'"
proof -
  define w3 where "w3 = set_forwarder (m_forwarder (w_tcp w k)) (Some (Tcp (w_next_id w)))
    (move_timer (Recv_timer k) (Recv_timer (w_next_id w))
      (move_timer (Connect_timer k) (Connect_timer (w_next_id w))
        (upd_tcp (w_next_id w) (\<lambda>_. w_tcp w k) (w\<lparr>w_next_id := Suc (w_next_id w)\<rparr>))))"
  have "world_inv (upd_tcp (w_next_id w) (\<lambda>_. w_tcp w k) (w\<lparr>w_next_id := n\<rparr>))" for n
    using assms(2) by (intro world_inv_upd) (simp_all add: world_invD)
  then have "world_inv w3" by (simp add: w3_def)
  moreover have "tcp_inv (moved_from (w_tcp w3 k))"
    using world_invD [OF \<open>world_inv w3\<close>, of k]
    by (rule tcp_inv_moved_from) (simp_all add: moved_from_def)
  ultimately have "world_inv (upd_tcp k moved_from w3)"
    by (rule world_inv_upd)
  then show ?thesis
    using assms(1) unfolding tcp_move_def Let_def w3_def [symmetric] moved_from_def [abs_def]
    by (auto split: if_splits)
qed

lemma packet_dropped_inv [inv_op]: "packet_dropped k p w = Inr w' \<Longrightarrow> world_inv w \<Longrightarrow> world_inv w'"
  by (auto simp: packet_dropped_def Let_def split: if_splits)

lemma read_some_impl_inv [inv_op]: "read_some_impl k bufs w = Inr (n, ec, w') \<Longrightarrow> world_inv w \<Longrightarrow> world_inv w'"
  by (auto simp: read_some_impl_def Let_def split: if_splits option.splits)

lemma async_read_some_impl_inv [inv_op]:
  "async_read_some_impl k bufs h w = Inr w' \<Longrightarrow> world_inv w \<Longrightarrow> world_inv w'"
  by (auto simp: async_read_some_impl_def split: if_splits dest!: read_some_impl_inv)

lemma wait_inv [simp]:
  "world_inv w \<Longrightarrow> world_inv (async_wait_read_impl k h w)"
  "world_inv w \<Longrightarrow> world_inv (async_wait_write_impl k h w)"
  by (auto simp: async_wait_read_impl_def async_wait_write_impl_def Let_def split_beta)

lemma tcp_async_wait_inv [simp]: "world_inv w \<Longrightarrow> world_inv (tcp_async_wait k t h w)"
  by (simp add: tcp_async_wait_def split: wait_type.split)

lemma maybe_wakeup_reader_inv [inv_op]: "maybe_wakeup_reader k w = Inr w' \<Longrightarrow> world_inv w \<Longrightarrow> world_inv w'"
  by (auto simp: maybe_wakeup_reader_def Let_def split: if_splits dest!: async_read_some_impl_inv)

lemma tcp_bind_inv [inv_op]: "tcp_bind k ep w = Inr (ec, w') \<Longrightarrow> world_inv w \<Longrightarrow> world_inv w'"
  by (auto simp: tcp_bind_def Let_def split: if_splits dest!: ios_bind_inv)

lemma bind_for_connect_inv [inv_op]: "bind_for_connect k t w = Inr (ec, w') \<Longrightarrow> world_inv w \<Longrightarrow> world_inv w'"
  by (auto simp: bind_for_connect_def Let_def split: if_splits dest!: ios_bind_inv)

lemma listen_inv [simp]: "world_inv w \<Longrightarrow> world_inv (snd (listen k qs w))"
  by (simp add: listen_def Let_def)

lemma abort_accept_inv [inv_op]: "abort_accept r k w = Inr w' \<Longrightarrow> world_inv w \<Longrightarrow> world_inv w'"
  using tcp_small_inv(3) [of "upd_acceptor k _ _"]
  by (auto simp: abort_accept_def Let_def split_beta split: option.splits)

lemma destroy_new_socket_inv [simp]: "world_inv w \<Longrightarrow> world_inv (destroy_new_socket k w)"
  by (auto simp: destroy_new_socket_def split: option.split)

lemma begin_send_inv [inv_op]: "begin_send_next_packet q w = Inr w' \<Longrightarrow> world_inv w \<Longrightarrow> world_inv w'"
  by (auto simp: begin_send_next_packet_def Let_def split: if_splits list.splits dest!: timer_ops_inv)

lemma queue_incoming_inv [inv_op]: "queue_incoming_packet q p w = Inr w' \<Longrightarrow> world_inv w \<Longrightarrow> world_inv w'"
  by (auto simp: queue_incoming_packet_def Let_def split: if_splits option.splits
      dest!: packet_dropped_inv begin_send_inv)

lemma reset_socket_inv [simp]: "world_inv w \<Longrightarrow> world_inv (reset_socket k w)"
proof -
  assume "world_inv w"
  then have "world_inv (tcp_drop_forwarder k (upd_tcp k (\<lambda>s. s\<lparr>m_open := False\<rparr>) (tcp_unbind k w)))"
    by simp
  from world_invD [OF this, of k] this show ?thesis
    unfolding reset_socket_def Let_def by (intro tcp_cancel_inv world_inv_upd) (simp_all add: tcp_inv_def)
qed

section \<open>Operations on a network that keeps the invariant\<close>

text \<open>What the sockets and acceptors rely on when they hand a packet on.\<close>

locale sound_net =
  fixes fwd :: "'u net"
  assumes fwd_inv: "fwd p w = Inr w' \<Longrightarrow> world_inv w \<Longrightarrow> world_inv w'"
begin

lemma send_packet_inv:
  assumes "send_packet fwd k p w = Inr w'" and "world_inv w"
  shows "world_inv w'"
proof -
  define w1 where "w1 = upd_tcp k (\<lambda>s. s\<lparr>m_bytes_in_flight := m_bytes_in_flight s + int (length (p_buffer p)),
    m_outstanding_packet_sizes := (m_outstanding_packet_sizes s)(p_seq_nr p \<mapsto> int (length (p_buffer p)))\<rparr>) w"
  have "world_inv w1"
    unfolding w1_def using assms(2) by (rule world_inv_upd) (simp add: tcp_inv_sent world_invD assms(2))
  with assms(1) show ?thesis
    unfolding send_packet_def Let_def w1_def [symmetric] by (auto dest!: write_log_inv fwd_inv)
qed

lemma close_channel_inv: "close_channel fwd k w = Inr w' \<Longrightarrow> world_inv w \<Longrightarrow> world_inv w'"
  by (auto simp: close_channel_def Let_def split: option.splits if_splits dest!: send_packet_inv)

lemma tcp_close_inv: "tcp_close fwd k w = Inr w' \<Longrightarrow> world_inv w \<Longrightarrow> world_inv w'"
  by (auto simp: tcp_close_def dest!: close_channel_inv)

lemma tcp_open_inv: "tcp_open fwd k v4 w = Inr w' \<Longrightarrow> world_inv w \<Longrightarrow> world_inv w'"
  by (auto simp: tcp_open_def Let_def dest!: tcp_close_inv)

lemma tcp_internal_connect_inv:
  "tcp_internal_connect fwd k b c w = Inr w' \<Longrightarrow> world_inv w \<Longrightarrow> world_inv w'"
  by (auto simp: tcp_internal_connect_def Let_def split: option.splits dest!: tcp_open_inv)

lemma write_buffer_inv:
  "write_buffer fwd k hops a n ret w = Inr (r, full, w') \<Longrightarrow> world_inv w \<Longrightarrow> world_inv w'"
proof (induction n arbitrary: a ret w rule: less_induct)
  case (less n)
  show ?case
  proof (cases "n = 0")
    case True
    with less.prems show ?thesis by (simp add: write_buffer.simps)
  next
    case False
    let ?s = "w_tcp w k"
    define size where "size = min n (nat (m_mss ?s))"
    define w1 where "w1 = upd_tcp k (\<lambda>s. s\<lparr>m_next_outgoing_seq := m_next_outgoing_seq s + 1\<rparr>) w"
    from less.prems(1) False obtain w2 where mss: "0 < m_mss ?s"
      and sent: "send_packet fwd k (payload_packet k hops (load (w_mem w) a size) ?s) w1 = Inr w2"
      and rest: "if window_full (w_tcp w2 k) then w' = w2
        else write_buffer fwd k hops (a + size) (n - size) (ret + size) w2 = Inr (r, full, w')"
      unfolding write_buffer.simps [of fwd k hops a n] Let_def size_def w1_def
      by (auto split: if_splits)
    have "world_inv w2"
      using sent by (rule send_packet_inv) (use less.prems(2) in \<open>simp add: w1_def\<close>)
    moreover have "n - size < n"
      using False mss by (simp add: size_def)
    ultimately show ?thesis
      using rest less.IH by (auto split: if_splits)
  qed
qed

lemma write_buffers_inv:
  "write_buffers fwd k hops bufs ret w = Inr (r, w') \<Longrightarrow> world_inv w \<Longrightarrow> world_inv w'"
proof (induction bufs arbitrary: ret w)
  case Nil
  then show ?case by simp
next
  case (Cons b bufs)
  obtain a n where "b = (a, n)" by fastforce
  with Cons show ?case by (auto split: if_splits dest: write_buffer_inv)
qed

lemma write_some_impl_inv:
  "write_some_impl fwd k bufs ec w = Inr (n, ec', w') \<Longrightarrow> world_inv w \<Longrightarrow> world_inv w'"
  by (auto simp: write_some_impl_def Let_def split: if_splits option.splits dest!: write_buffers_inv)

lemma async_write_some_impl_inv:
  "async_write_some_impl fwd k bufs h w = Inr w' \<Longrightarrow> world_inv w \<Longrightarrow> world_inv w'"
  by (auto simp: async_write_some_impl_def split: if_splits dest!: write_some_impl_inv)

lemma maybe_wakeup_writer_inv: "maybe_wakeup_writer fwd k w = Inr w' \<Longrightarrow> world_inv w \<Longrightarrow> world_inv w'"
  by (auto simp: maybe_wakeup_writer_def Let_def split: if_splits dest!: async_write_some_impl_inv)

lemma resend_packets_inv: "resend_packets fwd fuel k w = Inr w' \<Longrightarrow> world_inv w \<Longrightarrow> world_inv w'"
proof (induction fuel arbitrary: w)
  case 0
  then show ?case by simp
next
  case (Suc fuel)
  then show ?case
    by (auto simp: Let_def split: list.splits if_splits dest!: send_packet_inv)
qed

lemma incoming_ack_inv:
  assumes "incoming_ack fwd fuel k p w = Inr w'" and "world_inv w"
  shows "world_inv w'"
proof -
  from assms(1) obtain v w2 where v: "m_outstanding_packet_sizes (w_tcp w k) (p_seq_nr p) = Some v"
    and r: "resend_packets fwd fuel k (upd_tcp k (\<lambda>s. s\<lparr>
               m_outstanding_packet_sizes := (m_outstanding_packet_sizes s)(p_seq_nr p := None),
               m_bytes_in_flight := m_bytes_in_flight s - v\<rparr>) w) = Inr w2"
    and w': "let w3 = upd_tcp k (\<lambda>s. s\<lparr>m_cwnd := m_cwnd s + cdiv (m_mss s * v) (m_cwnd s)\<rparr>) w2
      in maybe_wakeup_writer fwd k w3 = Inr w' \<or> w' = w3"
    by (auto simp: incoming_ack_def Let_def split: option.splits if_splits)
  have "world_inv (upd_tcp k (\<lambda>s. s\<lparr>
      m_outstanding_packet_sizes := (m_outstanding_packet_sizes s)(p_seq_nr p := None),
      m_bytes_in_flight := m_bytes_in_flight s - v\<rparr>) w)"
    using assms(2) by (rule world_inv_upd) (simp add: tcp_inv_ack world_invD assms(2) v)
  with r have "world_inv w2" by (rule resend_packets_inv)
  with w' show ?thesis by (auto simp: Let_def dest!: maybe_wakeup_writer_inv)
qed

lemma incoming_syn_ack_inv: "incoming_syn_ack fwd k w = Inr w' \<Longrightarrow> world_inv w \<Longrightarrow> world_inv w'"
  by (auto simp: incoming_syn_ack_def split: option.splits dest!: maybe_wakeup_writer_inv)

lemma drain_reorder_subset: "drain_reorder n m = (ps, n', m') \<Longrightarrow> m' k = Some p \<Longrightarrow> m k = Some p"
proof (induction n m arbitrary: ps rule: drain_reorder.induct)
  case (1 n m)
  from "1.prems" show ?case
    by (subst (asm) drain_reorder.simps)
      (auto split: option.splits prod.splits if_splits dest: "1.IH")
qed

lemma incoming_data_inv:
  assumes "incoming_data fwd k p w = Inr w'" and "world_inv w"
  shows "world_inv w'"
proof -
  from assms(1) obtain a w1 where "fwd a w = Inr w1"
    and w': "(let s = w_tcp w1 k in w' = w1 \<or>
      w' = upd_tcp k (\<lambda>s. s\<lparr>m_reorder_buffer := (m_reorder_buffer s)(p_seq_nr p \<mapsto> p)\<rparr>) w1 \<or>
      (\<exists>ps n rb. drain_reorder (m_next_incoming_seq s + 1) (m_reorder_buffer s) = (ps, n, rb) \<and>
        maybe_wakeup_reader k (upd_tcp k (\<lambda>s. s\<lparr>m_next_incoming_seq := n, m_reorder_buffer := rb,
          m_incoming_queue := m_incoming_queue s @ p # ps\<rparr>) w1) = Inr w'))"
    unfolding incoming_data_def Let_def by (auto split: if_splits prod.splits)
  from this(1) have inv: "world_inv w1" using assms(2) by (rule fwd_inv)
  have s: "tcp_inv (w_tcp w1 k)" using inv by (rule world_invD)
  have "world_inv (upd_tcp k (\<lambda>s. s\<lparr>m_reorder_buffer := (m_reorder_buffer s)(p_seq_nr p \<mapsto> p)\<rparr>) w1)"
    using inv by (rule world_inv_upd) (use s in \<open>auto simp: tcp_inv_def\<close>)
  moreover have "world_inv (upd_tcp k (\<lambda>s. s\<lparr>m_next_incoming_seq := n, m_reorder_buffer := rb,
      m_incoming_queue := m_incoming_queue s @ p # ps\<rparr>) w1)"
    if "drain_reorder (m_next_incoming_seq (w_tcp w1 k) + 1) (m_reorder_buffer (w_tcp w1 k)) = (ps, n, rb)"
    for ps n rb
    using inv by (rule world_inv_upd) (use s drain_reorder_subset [OF that] in \<open>auto simp: tcp_inv_def\<close>)
  ultimately show ?thesis
    using w' inv by (auto simp: Let_def dest: maybe_wakeup_reader_inv)
qed

lemma tcp_incoming_inv: "tcp_incoming_packet fwd fuel k p w = Inr w' \<Longrightarrow> world_inv w \<Longrightarrow> world_inv w'"
  by (auto simp: tcp_incoming_packet_def split: packet_type.splits
      dest: incoming_ack_inv incoming_syn_ack_inv incoming_data_inv)

lemma sim_internal_connect_inv:
  "sim_internal_connect fwd k t w = Inr (c, ec, w') \<Longrightarrow> world_inv w \<Longrightarrow> world_inv w'"
  by (auto simp: sim_internal_connect_def Let_def split: option.splits if_splits prod.splits dest!: fwd_inv)

lemma async_connect_inv: "async_connect fwd k t h w = Inr w' \<Longrightarrow> world_inv w \<Longrightarrow> world_inv w'"
  by (auto simp: async_connect_def Let_def split: if_splits
      dest!: tcp_open_inv bind_for_connect_inv sim_internal_connect_inv timer_ops_inv)

lemma reset_conns_inv: "reset_conns fwd e cs w = Inr w' \<Longrightarrow> world_inv w \<Longrightarrow> world_inv w'"
  by (induction cs arbitrary: w) (auto dest!: fwd_inv)

lemma flush_closed_inv: "flush_closed fwd k w = Inr w' \<Longrightarrow> world_inv w \<Longrightarrow> world_inv w'"
  by (auto simp: flush_closed_def dest!: reset_conns_inv abort_accept_inv)

lemma accept_first_inv:
  assumes "accept_first fwd k a c cs w = Inr w'" and "world_inv w"
  shows "world_inv w'"
proof -
  have "world_inv w'" if "deliver_accepted k w = Inr w'" and "world_inv w" for w
    using that by (auto simp: deliver_accepted_def split: option.splits dest!: tcp_move_inv)
  with assms show ?thesis
    by (auto simp: accept_first_def Let_def split: option.splits dest!: tcp_internal_connect_inv fwd_inv)
qed

lemma check_accept_queue_inv: "check_accept_queue fwd k w = Inr w' \<Longrightarrow> world_inv w \<Longrightarrow> world_inv w'"
  by (auto simp: check_accept_queue_def split: if_splits list.splits dest!: flush_closed_inv accept_first_inv)

lemma async_accept_inv:
  "async_accept fwd k peer h w = Inr w' \<Longrightarrow> world_inv w \<Longrightarrow> world_inv w'"
  "async_accept_endpoint fwd k peer e h w = Inr w' \<Longrightarrow> world_inv w \<Longrightarrow> world_inv w'"
  by (auto simp: async_accept_def async_accept_endpoint_def close_if_open_def split: if_splits
      dest!: tcp_close_inv abort_accept_inv check_accept_queue_inv)

lemma tcp_construct_inv: "tcp_construct ios w = (j, w') \<Longrightarrow> world_inv w \<Longrightarrow> world_inv w'"
  using tcp_small_inv(3) [of w ios] by simp

lemma async_accept_socket_inv:
  "async_accept_socket fwd k h2 w = Inr w' \<Longrightarrow> world_inv w \<Longrightarrow> world_inv w'"
  by (auto simp: async_accept_socket_def Let_def split: prod.splits
      dest!: abort_accept_inv tcp_construct_inv check_accept_queue_inv)

lemma acceptor_close_inv: "acceptor_close fwd k w = Inr w' \<Longrightarrow> world_inv w \<Longrightarrow> world_inv w'"
  by (auto simp: acceptor_close_def acceptor_cancel_def dest!: abort_accept_inv tcp_close_inv)

lemma acceptor_incoming_inv: "acceptor_incoming_packet fwd k p w = Inr w' \<Longrightarrow> world_inv w \<Longrightarrow> world_inv w'"
  by (auto simp: acceptor_incoming_packet_def split: packet_type.splits dest!: check_accept_queue_inv)

end

section \<open>Who is woken up\<close>

lemma resend_nothing: "m_outgoing_packets (w_tcp w k) = [] \<Longrightarrow> resend_packets fwd (Suc n) k w = Inr w"
  by (simp add: Let_def)

lemma cdiv_mult_nonneg: "0 \<le> a \<Longrightarrow> 0 \<le> b \<Longrightarrow> 0 < c \<Longrightarrow> 0 \<le> cdiv (a * b) c"
  by (simp add: cdiv_nonneg pos_imp_zdiv_nonneg_iff)

text \<open>The socket after an acknowledgement of \<open>v\<close> bytes in packet \<open>n\<close>, when nothing is sent again.\<close>

definition acked :: "64 word \<Rightarrow> int \<Rightarrow> 'u tcp_socket \<Rightarrow> 'u tcp_socket" where
  "acked n v s = s\<lparr>m_outstanding_packet_sizes := (m_outstanding_packet_sizes s)(n := None),
    m_bytes_in_flight := m_bytes_in_flight s - v, m_cwnd := m_cwnd s + cdiv (m_mss s * v) (m_cwnd s)\<rparr>"

lemma incoming_ack_wakes:
  assumes "p_type p = Ack" and "m_outgoing_packets (w_tcp w k) = []"
    and "m_outstanding_packet_sizes (w_tcp w k) (p_seq_nr p) = Some v"
    and "v \<le> m_bytes_in_flight (w_tcp w k)" and "m_cwnd (w_tcp w k) \<noteq> 0"
  shows "tcp_incoming_packet fwd (Suc n) k p w =
    (let w1 = upd_tcp k (acked (p_seq_nr p) v) w in
     if \<not> window_full (w_tcp w k) \<and> \<not> window_full (w_tcp w1 k) then maybe_wakeup_writer fwd k w1 else Inr w1)"
proof -
  have "upd_tcp k (\<lambda>s. s\<lparr>m_cwnd := m_cwnd s + cdiv (m_mss s * v) (m_cwnd s)\<rparr>)
      (upd_tcp k (\<lambda>s. s\<lparr>m_outstanding_packet_sizes := (m_outstanding_packet_sizes s)(p_seq_nr p := None),
         m_bytes_in_flight := m_bytes_in_flight s - v\<rparr>) w) = upd_tcp k (acked (p_seq_nr p) v) w"
    by (simp add: upd_tcp_def acked_def)
  then show ?thesis
    using assms
    by (simp add: tcp_incoming_packet_def incoming_ack_def Let_def resend_nothing del: resend_packets.simps)
qed

text \<open>
  C37. An acknowledgement that finds the send window full wakes no writer, also when it opens the
  window, as one of a full segment does when the bytes in flight are within the congestion window:
  the handlers stay, no job is posted and no packet sent. (The flag \<open>was_writeable\<close> holds whether the
  window was full.) Only the next acknowledgement, which finds the window open, wakes the writer; so
  the acknowledgement of the last packet in flight leaves a pending write asleep for good.
\<close>

theorem full_window_ack_wakes_nobody:
  assumes "window_full (w_tcp w k)" and "m_outgoing_packets (w_tcp w k) = []"
    and "m_outstanding_packet_sizes (w_tcp w k) (p_seq_nr p) = Some v"
    and "0 \<le> v" and "v \<le> m_bytes_in_flight (w_tcp w k)" and "0 < m_mss (w_tcp w k)" and "0 < m_cwnd (w_tcp w k)"
    and "p_type p = Ack"
  shows "\<exists>w'. tcp_incoming_packet fwd (Suc n) k p w = Inr w' \<and>
    m_bytes_in_flight (w_tcp w' k) = m_bytes_in_flight (w_tcp w k) - v \<and>
    (m_bytes_in_flight (w_tcp w k) + m_mss (w_tcp w k) \<le> m_cwnd (w_tcp w k) + v \<longrightarrow> \<not> window_full (w_tcp w' k)) \<and>
    m_send_handler (w_tcp w' k) = m_send_handler (w_tcp w k) \<and>
    m_wait_send_handler (w_tcp w' k) = m_wait_send_handler (w_tcp w k) \<and>
    w_sched w' = w_sched w \<and> w_queues w' = w_queues w \<and>
    (\<forall>p2 u. p_type p2 = Ack \<longrightarrow> m_outstanding_packet_sizes (w_tcp w' k) (p_seq_nr p2) = Some u \<longrightarrow>
      0 \<le> u \<longrightarrow> u \<le> m_bytes_in_flight (w_tcp w' k) \<longrightarrow> \<not> window_full (w_tcp w' k) \<longrightarrow>
      tcp_incoming_packet fwd (Suc n) k p2 w' =
        maybe_wakeup_writer fwd k (upd_tcp k (acked (p_seq_nr p2) u) w'))"
proof -
  let ?w = "upd_tcp k (acked (p_seq_nr p) v) w" and ?s = "w_tcp w k"
  have grow: "0 \<le> cdiv (m_mss s * u) (m_cwnd s)" if "0 \<le> u" "0 < m_mss s" "0 < m_cwnd s" for u and s :: "'a tcp_socket"
    using that by (intro cdiv_mult_nonneg) simp_all
  have run: "tcp_incoming_packet fwd (Suc n) k p w = Inr ?w"
    using assms by (simp add: incoming_ack_wakes)
  have s: "m_mss (w_tcp ?w k) = m_mss ?s" "m_outgoing_packets (w_tcp ?w k) = []" "m_cwnd ?s \<le> m_cwnd (w_tcp ?w k)"
    "m_bytes_in_flight (w_tcp ?w k) = m_bytes_in_flight ?s - v"
    using assms grow [of v ?s] by (simp_all add: acked_def)
  have "tcp_incoming_packet fwd (Suc n) k p2 ?w = maybe_wakeup_writer fwd k (upd_tcp k (acked (p_seq_nr p2) u) ?w)"
    if "p_type p2 = Ack" "m_outstanding_packet_sizes (w_tcp ?w k) (p_seq_nr p2) = Some u"
      "0 \<le> u" "u \<le> m_bytes_in_flight (w_tcp ?w k)" "\<not> window_full (w_tcp ?w k)" for p2 u
  proof -
    have "0 < m_cwnd (w_tcp ?w k)" using s(3) assms(7) by simp
    moreover from this have "\<not> window_full (acked (p_seq_nr p2) u (w_tcp ?w k))"
      using that(3,5) grow [of u "w_tcp ?w k"] s(1) assms(6) unfolding window_full_def by (simp add: acked_def)
    ultimately show ?thesis
      using that s(2) by (simp add: incoming_ack_wakes Let_def)
  qed
  then show ?thesis
    using run s assms(6,7) by (intro exI [of _ ?w]) (simp add: window_full_def acked_def)
qed

lemma full_window_ack_wakes_nobody_witness:
  "\<exists>w'. tcp_incoming_packet (\<lambda>_. Inr) 1 5 (new_packet\<lparr>p_type := Ack, p_seq_nr := 9\<rparr>)
      (upd_tcp 5 (\<lambda>s. s\<lparr>m_cwnd := 2950, m_bytes_in_flight := 2950,
        m_outstanding_packet_sizes := [9 \<mapsto> 1475, 10 \<mapsto> 1475], m_send_handler := Some (\<lambda>_ _. App 3)\<rparr>) empty_world) = Inr w' \<and>
    m_send_handler (w_tcp w' 5) \<noteq> None \<and> \<not> window_full (w_tcp w' 5) \<and> m_service (w_sched w') = []"
proof -
  let ?w = "upd_tcp 5 (\<lambda>s. s\<lparr>m_cwnd := 2950, m_bytes_in_flight := 2950,
        m_outstanding_packet_sizes := [9 \<mapsto> 1475, 10 \<mapsto> 1475], m_send_handler := Some (\<lambda>_ _. App 3)\<rparr>) empty_world"
  let ?p = "new_packet\<lparr>p_type := Ack, p_seq_nr := 9\<rparr>"
  have s: "window_full (w_tcp ?w 5)" "m_outgoing_packets (w_tcp ?w 5) = []"
    "m_outstanding_packet_sizes (w_tcp ?w 5) (p_seq_nr ?p) = Some 1475" "(0 :: int) \<le> 1475"
    "1475 \<le> m_bytes_in_flight (w_tcp ?w 5)" "0 < m_mss (w_tcp ?w 5)" "0 < m_cwnd (w_tcp ?w 5)" "p_type ?p = Ack"
    by (simp_all add: new_world_def new_tcp_socket_def window_full_def)
  obtain w' where w': "tcp_incoming_packet (\<lambda>_. Inr) (Suc 0) 5 ?p ?w = Inr w'" "\<not> window_full (w_tcp w' 5)"
    "m_send_handler (w_tcp w' 5) = m_send_handler (w_tcp ?w 5)" "w_sched w' = w_sched ?w"
    using full_window_ack_wakes_nobody [OF s, of "\<lambda>_. Inr" 0] by (auto simp: new_world_def new_tcp_socket_def)
  then show ?thesis by (auto simp: new_world_def)
qed

text \<open>
  C38. A segment in order that leaves more than one packet in the incoming queue, because it
  fills a gap in front of packets in the reorder buffer or because the queue was not empty,
  does not wake the pending read: the data is there, the handler stays, and no job is posted
  beyond what the acknowledgement posts.
\<close>

theorem gap_fill_leaves_reader_waiting:
  assumes "m_channel (w_tcp w k) = Some c" and "remote_idx (w_channels w c) (m_bound_to (w_tcp w k)) = Inr r"
    and "fwd (ack_packet p (c_hops (w_channels w c) r)) w = Inr w1" and "w_tcp w1 k = w_tcp w k"
    and "p_seq_nr p = m_next_incoming_seq (w_tcp w k)"
    and "m_incoming_queue (w_tcp w k) \<noteq> [] \<or> m_reorder_buffer (w_tcp w k) (p_seq_nr p + 1) \<noteq> None"
    and "p_type p = Payload"
  shows "\<exists>w'. tcp_incoming_packet fwd n k p w = Inr w' \<and>
    1 < length (m_incoming_queue (w_tcp w' k)) \<and> p \<in> set (m_incoming_queue (w_tcp w' k)) \<and>
    m_recv_handler (w_tcp w' k) = m_recv_handler (w_tcp w k) \<and>
    m_wait_recv_handler (w_tcp w' k) = m_wait_recv_handler (w_tcp w k) \<and> w_sched w' = w_sched w1"
proof -
  let ?s = "w_tcp w k"
  obtain ps n' rb where d: "drain_reorder (m_next_incoming_seq ?s + 1) (m_reorder_buffer ?s) = (ps, n', rb)"
    by (metis prod_cases3)
  have "ps \<noteq> []" if "m_reorder_buffer ?s (p_seq_nr p + 1) \<noteq> None"
    using d that by (subst (asm) drain_reorder.simps) (auto simp: assms(5) split: prod.splits)
  with assms(6) have len: "1 < length (m_incoming_queue ?s @ p # ps)"
    by (cases "m_incoming_queue ?s"; cases ps) auto
  define w2 where "w2 = upd_tcp k (\<lambda>s. s\<lparr>m_next_incoming_seq := n', m_reorder_buffer := rb,
    m_incoming_queue := m_incoming_queue s @ p # ps\<rparr>) w1"
  have q: "m_incoming_queue (w_tcp w2 k) = m_incoming_queue ?s @ p # ps"
    by (simp add: w2_def assms(4))
  with len have "maybe_wakeup_reader k w2 = Inr w2"
    by (auto simp: maybe_wakeup_reader_def Let_def)
  then have "tcp_incoming_packet fwd n k p w = Inr w2"
    using assms(1-5,7) d
    by (simp add: tcp_incoming_packet_def incoming_data_def channel_of_def Let_def w2_def)
  with q len show ?thesis
    by (simp add: w2_def assms(4))
qed

lemma gap_fill_leaves_reader_waiting_witness:
  "\<exists>w'. tcp_incoming_packet (\<lambda>_. Inr) 0 5 (new_packet\<lparr>p_type := Payload, p_buffer := [1], p_seq_nr := 0\<rparr>)
      (upd_tcp 5 (\<lambda>s. s\<lparr>m_channel := Some 0, m_recv_handler := Some (\<lambda>_ _. App 3), m_recv_buffer := [(0, 10)],
        m_reorder_buffer := [1 \<mapsto> new_packet\<lparr>p_type := Payload, p_buffer := [2], p_seq_nr := 1\<rparr>]\<rparr>) empty_world) = Inr w' \<and>
    m_recv_handler (w_tcp w' 5) \<noteq> None \<and> 1 < length (m_incoming_queue (w_tcp w' 5)) \<and> m_service (w_sched w') = []"
proof -
  let ?w = "upd_tcp 5 (\<lambda>s. s\<lparr>m_channel := Some 0, m_recv_handler := Some (\<lambda>_ _. App 3), m_recv_buffer := [(0, 10)],
        m_reorder_buffer := [1 \<mapsto> new_packet\<lparr>p_type := Payload, p_buffer := [2], p_seq_nr := 1\<rparr>]\<rparr>) empty_world"
  let ?p = "new_packet\<lparr>p_type := Payload, p_buffer := [1], p_seq_nr := 0\<rparr>"
  have "m_channel (w_tcp ?w 5) = Some 0" "remote_idx (w_channels ?w 0) (m_bound_to (w_tcp ?w 5)) = Inr 1"
    "p_seq_nr ?p = m_next_incoming_seq (w_tcp ?w 5)"
    "m_incoming_queue (w_tcp ?w 5) \<noteq> [] \<or> m_reorder_buffer (w_tcp ?w 5) (p_seq_nr ?p + 1) \<noteq> None"
    "p_type ?p = Payload"
    by (simp_all add: new_world_def new_tcp_socket_def remote_idx_def)
  from gap_fill_leaves_reader_waiting [OF this(1,2) _ _ this(3,4,5), of "\<lambda>_. Inr" ?w 0] show ?thesis
    by (auto simp: new_world_def)
qed

end
