(* ===== verification/Tcp_Stream.thy ===== *)
theory Tcp_Stream
  imports Network Tcp_Flow
begin

text \<open>
  The byte stream of a TCP connection: reassembly of segments that arrive in any order, reading
  from the incoming queue into the application's buffers, and cutting a write into segments.
  The network is a hop that takes packets without calling back (a queue); theory \<open>Queue\<close> shows
  when it does.
\<close>

section \<open>Memory as a list of addresses\<close>

definition addrs :: "buffer list \<Rightarrow> nat list" where
  "addrs bufs = concat (map (\<lambda>(a, n). [a..<a + n]) bufs)"

fun write_at :: "memory \<Rightarrow> nat list \<Rightarrow> byte list \<Rightarrow> memory" where
  "write_at m (x # xs) (b # bs) = write_at (m(x := b)) xs bs"
| "write_at m [] bs = m"
| "write_at m xs [] = m"

lemma addrs_simps [simp]: "addrs [] = []" "addrs ((a, n) # bufs) = [a..<a + n] @ addrs bufs"
  by (simp_all add: addrs_def)

lemma length_addrs: "length (addrs bufs) = buffer_size bufs"
  by (induction bufs) (auto simp: buffer_size_def)

lemma gather_addrs: "concat (map (\<lambda>(a, n). load m a n) bufs) = map m (addrs bufs)"
  by (induction bufs) (auto simp: load_def)

lemma write_at_append:
  "length xs = length bs \<Longrightarrow> write_at m (xs @ ys) (bs @ cs) = write_at (write_at m xs bs) ys cs"
  by (induction m xs bs rule: write_at.induct) auto

lemma write_at_other: "x \<notin> set xs \<Longrightarrow> write_at m xs bs x = m x"
  by (induction m xs bs rule: write_at.induct) auto

lemma map_write_at: "distinct xs \<Longrightarrow> length xs = length bs \<Longrightarrow> map (write_at m xs bs) xs = bs"
  by (induction m xs bs rule: write_at.induct) (auto simp: write_at_other)

lemma store_write_at: "store m a bs = write_at m [a..<a + length bs] bs"
proof (induction bs arbitrary: m a)
  case Nil
  then show ?case by simp
next
  case (Cons b bs)
  have "store m a (b # bs) = store (m(a := b)) (Suc a) bs"
    by (rule ext) (auto simp: store_def nth_Cons' Suc_diff_le le_Suc_eq)
  also have "\<dots> = write_at (m(a := b)) [Suc a..<Suc a + length bs] bs"
    by (rule Cons.IH)
  also have "\<dots> = write_at m (a # [Suc a..<Suc a + length bs]) (b # bs)"
    by (simp only: write_at.simps)
  also have "a # [Suc a..<Suc a + length bs] = [a..<a + length (b # bs)]"
    by (subst (2) upt_rec) simp
  finally show ?case .
qed

section \<open>Reading\<close>

text \<open>The payload up to the first error packet.\<close>

fun stream :: "packet list \<Rightarrow> byte list" where
  "stream [] = []"
| "stream (p # q) = (if p_type p = Error then [] else p_buffer p @ stream q)"

definition readable :: "packet list \<Rightarrow> bool" where
  "readable q \<longleftrightarrow> (\<forall>p \<in> set q. p_type p = Error \<or> p_type p = Payload \<and> p_buffer p \<noteq> [])"

definition in_first :: "buffer list \<Rightarrow> nat \<Rightarrow> bool" where
  "in_first bufs off \<longleftrightarrow> (case bufs of [] \<Rightarrow> off = 0 | (a, n) # _ \<Rightarrow> off \<le> n)"

lemma copy_packet_writes:
  assumes "copy_packet bufs off d m = (bufs', off', d', m', c)" and "in_first bufs off"
  shows "c = min (length d) (length (drop off (addrs bufs))) \<and> d' = drop c d \<and>
    m' = write_at m (take c (drop off (addrs bufs))) (take c d) \<and>
    drop off' (addrs bufs') = drop c (drop off (addrs bufs)) \<and> in_first bufs' off' \<and> (d' = [] \<or> bufs' = [])"
  using assms
proof (induction bufs off d m arbitrary: bufs' off' d' m' c rule: copy_packet.induct)
  case (1 off d m)
  then show ?case by (auto simp: in_first_def)
next
  case (2 a n bufs off d m)
  define size where "size = min (length d) (n - off)"
  define m1 where "m1 = store m (a + off) (take size d)"
  define B where "B = [a + off..<a + n]"
  have off: "off \<le> n" using "2.prems"(2) by (simp add: in_first_def)
  have A: "drop off (addrs ((a, n) # bufs)) = B @ addrs bufs"
    using off by (simp add: B_def)
  have lenB: "length B = n - off" by (simp add: B_def)
  have "take size B = [a + off..<a + off + length (take size d)]"
    using off by (cases "length d \<le> n - off"; cases "length d = 0") (auto simp: B_def size_def min_def)
  then have m1: "m1 = write_at m (take size B) (take size d)"
    by (simp add: m1_def store_write_at)
  note prem = "2.prems"(1) [unfolded copy_packet.simps Let_def, folded size_def, folded m1_def]
  show ?case
  proof (cases "drop size d = []")
    case True
    then have len: "length d = size" by (simp add: size_def)
    then have "size \<le> n - off" by (simp add: size_def)
    with True prem off show ?thesis
      unfolding A by (auto simp: len m1 lenB B_def in_first_def drop_upt add.assoc split: if_splits list.split)
  next
    case False
    then have size: "size = n - off" "size < length d" by (auto simp: size_def)
    obtain bufs2 off2 d2 m2 c2 where r: "copy_packet bufs 0 (drop size d) m1 = (bufs2, off2, d2, m2, c2)"
      by (metis prod_cases5)
    have "in_first bufs 0" by (auto simp: in_first_def split: list.split)
    from "2.IH" [OF size_def m1_def refl _ _ r this] False
    have ih: "c2 = min (length d - size) (length (addrs bufs))" "d2 = drop (size + c2) d"
      "m2 = write_at m1 (take c2 (addrs bufs)) (take c2 (drop size d))"
      "drop off2 (addrs bufs2) = drop c2 (addrs bufs)" "in_first bufs2 off2" "d2 = [] \<or> bufs2 = []"
      by (auto simp: size_def m1_def add.commute)
    have res: "bufs' = bufs2" "off' = off2" "d' = d2" "m' = m2" "c = size + c2"
      using prem False r by (auto simp: size_def)
    have "m2 = write_at m (B @ take c2 (addrs bufs)) (take size d @ take c2 (drop size d))"
      using size ih(3) lenB by (subst write_at_append) (simp_all add: m1)
    moreover have "take size d @ take c2 (drop size d) = take c d"
      by (simp only: res(5) take_add)
    moreover have "take c (B @ addrs bufs) = B @ take c2 (addrs bufs)"
      and "drop c (B @ addrs bufs) = drop c2 (addrs bufs)"
      by (simp_all add: res(5) lenB size(1))
    moreover have "c = min (length d) (length (B @ addrs bufs))"
      using ih(1) size(2) unfolding size(1) by (auto simp: res(5) lenB size(1) min_def)
    ultimately show ?thesis
      using ih(2,4,5,6) unfolding A res(1-4) by (simp add: res(5))
  qed
qed

lemma read_loop_reads:
  assumes "readable q" and "in_first bufs off" and "bufs \<noteq> []"
    and "0 < tot \<or> (q \<noteq> [] \<and> p_type (hd q) = Payload)"
  defines "A \<equiv> drop off (addrs bufs)"
  defines "n \<equiv> min (length (stream q)) (length A)"
  shows "\<exists>q'. read_loop bufs off q m tot = Inr (q', write_at m (take n A) (take n (stream q)), tot + n, None) \<and>
    stream q' = drop n (stream q) \<and> readable q'"
  using assms(1-4) unfolding n_def A_def
proof (induction q arbitrary: bufs off m tot)
  case Nil
  then show ?case by (simp add: readable_def)
next
  case (Cons p q)
  have rd: "readable q" using Cons.prems(1) by (simp add: readable_def)
  show ?case
  proof (cases "p_type p = Error")
    case True
    with Cons.prems show ?thesis by simp
  next
    case False
    with Cons.prems(1) have p: "p_type p = Payload" "p_buffer p \<noteq> []"
      by (auto simp: readable_def)
    let ?A = "drop off (addrs bufs)" and ?d = "p_buffer p"
    obtain bufs' off' d' m' c where cp: "copy_packet bufs off ?d m = (bufs', off', d', m', c)"
      by (metis prod_cases5)
    from copy_packet_writes [OF cp Cons.prems(2)]
    have c: "c = min (length ?d) (length ?A)" and d': "d' = drop c ?d"
      and m': "m' = write_at m (take c ?A) (take c ?d)" and A': "drop off' (addrs bufs') = drop c ?A"
      and if': "in_first bufs' off'" and fin: "d' = [] \<or> bufs' = []"
      by auto
    show ?thesis
    proof (cases "bufs' = []")
      case True
      with A' have "length ?A \<le> c" by simp
      with c have cA: "c = length ?A" "c \<le> length ?d" by simp_all
      then have n: "min (length (stream (p # q))) (length ?A) = c" using p by simp
      let ?q = "if d' = [] then q else p\<lparr>p_buffer := d'\<rparr> # q"
      have "read_loop bufs off (p # q) m tot = Inr (?q, m', tot + c, None)"
        using True p Cons.prems(3) by (simp add: cp)
      moreover have "stream ?q = drop c (stream (p # q))"
        using p cA d' by simp
      moreover have "readable ?q"
        using rd p by (simp add: readable_def)
      moreover have "m' = write_at m (take c ?A) (take c (stream (p # q)))"
        using p cA m' by simp
      ultimately show ?thesis unfolding n by blast
    next
      case False
      with fin have d: "d' = []" by simp
      with d' c have cd: "c = length ?d" by simp
      with c have le: "length ?d \<le> length ?A" by simp
      have "0 < tot + c" using p cd by simp
      from Cons.IH [OF rd if' False disjI1 [OF this], of m'] obtain q' where
        q': "read_loop bufs' off' q m' (tot + c) = Inr (q',
          write_at m' (take (min (length (stream q)) (length (drop c ?A))) (drop c ?A))
            (take (min (length (stream q)) (length (drop c ?A))) (stream q)),
          tot + c + min (length (stream q)) (length (drop c ?A)), None)"
        "stream q' = drop (min (length (stream q)) (length (drop c ?A))) (stream q)" "readable q'"
        unfolding A' by blast
      define n where "n = min (length (stream q)) (length (drop c ?A))"
      have n: "min (length (stream (p # q))) (length ?A) = c + n"
        using p cd le by (simp add: n_def)
      have "write_at m' (take n (drop c ?A)) (take n (stream q)) =
          write_at m (take c ?A @ take n (drop c ?A)) (take c ?d @ take n (stream q))"
        using cd le by (simp add: m' write_at_append)
      also have "\<dots> = write_at m (take (c + n) ?A) (take (c + n) (stream (p # q)))"
        using p cd by (simp add: take_add)
      finally have "read_loop bufs off (p # q) m tot = Inr (q',
          write_at m (take (c + n) ?A) (take (c + n) (stream (p # q))), tot + (c + n), None)"
        using p Cons.prems(3) False d q'(1) unfolding n_def [symmetric] by (simp add: cp add.assoc)
      moreover have "stream q' = drop (c + n) (stream (p # q))"
        using p cd q'(2) unfolding n_def [symmetric] by simp
      ultimately show ?thesis using q'(3) unfolding n by blast
    qed
  qed
qed

lemma read_some_reads:
  assumes "m_open (w_tcp w k)" and "m_channel (w_tcp w k) \<noteq> None" and "m_connect_handler (w_tcp w k) = None"
    and "m_incoming_queue (w_tcp w k) = p # q" and "p_type p = Payload" and "readable (p # q)"
    and "0 < buffer_size bufs" and "distinct (addrs bufs)"
  shows "\<exists>n w'. read_some_impl k bufs w = Inr (n, success, w') \<and>
    n = min (length (stream (p # q))) (buffer_size bufs) \<and> 0 < n \<and>
    map (w_mem w') (take n (addrs bufs)) = take n (stream (p # q)) \<and>
    (\<forall>x. x \<notin> set (take n (addrs bufs)) \<longrightarrow> w_mem w' x = w_mem w x) \<and>
    stream (m_incoming_queue (w_tcp w' k)) = drop n (stream (p # q)) \<and>
    readable (m_incoming_queue (w_tcp w' k)) \<and> w_sched w' = w_sched w"
proof -
  let ?n = "min (length (stream (p # q))) (buffer_size bufs)"
  have bufs: "bufs \<noteq> []" using assms(7) by (auto simp: buffer_size_def)
  have "in_first bufs 0" by (auto simp: in_first_def split: list.split)
  from read_loop_reads [OF assms(6) this bufs, of 0 "w_mem w"] assms(5) obtain q' where
    q': "read_loop bufs 0 (p # q) (w_mem w) 0 =
      Inr (q', write_at (w_mem w) (take ?n (addrs bufs)) (take ?n (stream (p # q))), ?n, None)"
    "stream q' = drop ?n (stream (p # q))" "readable q'"
    by (auto simp: length_addrs)
  have "0 < ?n" using assms(5-7) by (simp add: readable_def)
  moreover have "length (take ?n (addrs bufs)) = length (take ?n (stream (p # q)))"
    by (simp add: length_addrs)
  moreover have "distinct (take ?n (addrs bufs))" using assms(8) by simp
  ultimately show ?thesis
    using assms(1-4,7) q' unfolding read_some_impl_def Let_def
    by (auto simp: map_write_at write_at_other simp del: stream.simps)
qed

text \<open>
  C6. Reading from a connected socket whose incoming queue starts with payload delivers the
  next bytes of the stream: as many as are there or as fit, written to the buffers in order, and
  what is left in the queue is the rest of the stream; nothing else in memory changes.
\<close>

theorem read_some_delivers_stream:
  assumes "m_open (w_tcp w k)" and "m_channel (w_tcp w k) \<noteq> None" and "m_connect_handler (w_tcp w k) = None"
    and "m_incoming_queue (w_tcp w k) = p # q" and "p_type p = Payload" and "readable (p # q)"
    and "0 < buffer_size bufs" and "distinct (addrs bufs)"
  shows "\<exists>n w'. read_some_impl k bufs w = Inr (n, success, w') \<and>
    n = min (length (stream (p # q))) (buffer_size bufs) \<and> 0 < n \<and>
    map (w_mem w') (take n (addrs bufs)) = take n (stream (p # q)) \<and>
    (\<forall>x. x \<notin> set (take n (addrs bufs)) \<longrightarrow> w_mem w' x = w_mem w x) \<and>
    stream (m_incoming_queue (w_tcp w' k)) = drop n (stream (p # q)) \<and>
    readable (m_incoming_queue (w_tcp w' k)) \<and> w_sched w' = w_sched w"
  using read_some_reads [OF assms] .

lemma read_some_delivers_stream_witness:
  "\<exists>n w'. read_some_impl 5 [(10, 2), (20, 2)] (upd_tcp 5 (\<lambda>s. s\<lparr>m_open := True, m_channel := Some 0,
      m_incoming_queue := [new_packet\<lparr>p_type := Payload, p_buffer := [1, 2, 3]\<rparr>,
        new_packet\<lparr>p_type := Payload, p_buffer := [4, 5]\<rparr>]\<rparr>) empty_world) = Inr (n, success, w') \<and>
    n = 4 \<and> map (w_mem w') [10, 11, 20, 21] = [1, 2, 3, 4] \<and>
    stream (m_incoming_queue (w_tcp w' 5)) = [5]"
proof -
  let ?p = "new_packet\<lparr>p_type := Payload, p_buffer := [1, 2, 3 :: byte]\<rparr>"
  let ?q = "[new_packet\<lparr>p_type := Payload, p_buffer := [4, 5 :: byte]\<rparr>]"
  let ?w = "upd_tcp 5 (\<lambda>s. s\<lparr>m_open := True, m_channel := Some 0, m_incoming_queue := ?p # ?q\<rparr>) empty_world"
  have "m_open (w_tcp ?w 5)" "m_channel (w_tcp ?w 5) \<noteq> None" "m_connect_handler (w_tcp ?w 5) = None"
    "m_incoming_queue (w_tcp ?w 5) = ?p # ?q" "p_type ?p = Payload" "readable (?p # ?q)"
    "0 < buffer_size [(10::nat, 2::nat), (20, 2)]"
    by (simp_all add: new_world_def new_tcp_socket_def readable_def buffer_size_def)
  moreover have a: "addrs [(10::nat, 2::nat), (20, 2)] = [10, 11, 20, 21]"
    by (simp add: upt_rec)
  ultimately show ?thesis
    using read_some_delivers_stream [of ?w 5 ?p ?q "[(10, 2), (20, 2)]"]
    by (auto simp: buffer_size_def numeral_eq_Suc)
qed

section \<open>A network that does not call back\<close>

text \<open>
  What a connection relies on while it sends along \<open>hops\<close>: the packets that may be sent are
  taken, in order, and handing one over changes no socket, no channel and no memory.
\<close>

locale quiet_net =
  fixes fwd :: "'u net" and hops :: route and sendable :: "packet \<Rightarrow> bool"
    and ok :: "'u world \<Rightarrow> bool" and sent :: "'u world \<Rightarrow> packet list"
  assumes quiet: "ok w \<Longrightarrow> sendable p \<Longrightarrow> p_hops p = hops \<Longrightarrow>
      \<exists>w'. fwd p w = Inr w' \<and> ok w' \<and> sent w' = sent w @ [p\<lparr>p_hops := tl hops\<rparr>] \<and>
        w_tcp w' = w_tcp w \<and> w_channels w' = w_channels w \<and> w_mem w' = w_mem w \<and> w_pcap w' = w_pcap w"
    and ok_frame: "w_sched w' = w_sched w \<Longrightarrow> w_queues w' = w_queues w \<Longrightarrow> ok w' = ok w \<and> sent w' = sent w"

lemma forward_to_queue:
  assumes "queue_ok q w" and "\<not> queue_full (w_queues w q) p" and "p_hops p = sink.Queue q # r"
  shows "\<exists>w'. forward_packet (Suc n) p w = Inr w' \<and> queue_ok q w' \<and>
    queue_packets q w' = queue_packets q w @ [p\<lparr>p_hops := r\<rparr>] \<and>
    q_max_queue_size (w_queues w' q) = q_max_queue_size (w_queues w q) \<and>
    w_tcp w' = w_tcp w \<and> w_channels w' = w_channels w \<and> w_mem w' = w_mem w \<and> w_pcap w' = w_pcap w"
proof -
  let ?p = "p\<lparr>p_hops := r\<rparr>"
  have nf: "\<not> queue_full (w_queues w q) ?p"
    using assms(2) by (simp add: queue_full_def ok_to_drop_def packet_size_def)
  have ok: "sched_ok (w_sched w)" "queue_live q w" "queue_sized q w"
    using assms(1) by (simp_all add: queue_ok_def)
  obtain s l where e: "queue_incoming_packet q ?p w =
      Inr (upd_queue q (\<lambda>x. x\<lparr>q_last_forward := l\<rparr>) ((enqueue q ?p w)\<lparr>w_sched := s\<rparr>))"
    and s: "sched_ok s" "\<And>w'. w_sched w' = s \<Longrightarrow> forwarding_pending q w'"
    using queue_incoming_ok [OF ok(1,2) nf] by metis
  have "forward_packet (Suc n) p w = queue_incoming_packet q ?p w"
    by (simp add: pop_front_def assms(3) sink_incoming_packet_def)
  moreover have "queue_ok q (upd_queue q (\<lambda>x. x\<lparr>q_last_forward := l\<rparr>) ((enqueue q ?p w)\<lparr>w_sched := s\<rparr>))"
    using s ok(3) by (simp add: queue_ok_def queue_live_def queue_sized_def enqueue_def)
  ultimately show ?thesis
    unfolding e by (simp add: queue_packets_def enqueue_def)
qed

lemma queue_ok_frame:
  "w_sched w' = w_sched w \<Longrightarrow> w_queues w' = w_queues w \<Longrightarrow> queue_ok q w' = queue_ok q w"
  by (simp add: queue_ok_def queue_sized_def queue_live_def forwarding_pending_def)

text \<open>A queue takes every control packet; a queue without a limit takes every packet.\<close>

interpretation control: quiet_net "forward_packet (Suc n)" "sink.Queue q # r" "\<lambda>p. \<not> ok_to_drop p"
  "queue_ok q" "queue_packets q" for n q r
proof unfold_locales
  fix w :: "'u world" and p :: packet
  assume "queue_ok q w" and "\<not> ok_to_drop p" and "p_hops p = sink.Queue q # r"
  then show "\<exists>w'. forward_packet (Suc n) p w = Inr w' \<and> queue_ok q w' \<and>
      queue_packets q w' = queue_packets q w @ [p\<lparr>p_hops := tl (sink.Queue q # r)\<rparr>] \<and>
      w_tcp w' = w_tcp w \<and> w_channels w' = w_channels w \<and> w_mem w' = w_mem w \<and> w_pcap w' = w_pcap w"
    using forward_to_queue [of q w p r n] by (simp add: queue_full_def) blast
next
  fix w w' :: "'u world"
  assume a: "w_sched w' = w_sched w" "w_queues w' = w_queues w"
  from queue_ok_frame [OF a, of q] a(2) show "queue_ok q w' = queue_ok q w \<and> queue_packets q w' = queue_packets q w"
    by (simp add: queue_packets_def)
qed

interpretation unlimited: quiet_net "forward_packet (Suc n)" "sink.Queue q # r" "\<lambda>_. True"
  "\<lambda>w. queue_ok q w \<and> q_max_queue_size (w_queues w q) \<le> 0" "queue_packets q" for n q r
proof unfold_locales
  fix w :: "'u world" and p :: packet
  assume a: "queue_ok q w \<and> q_max_queue_size (w_queues w q) \<le> 0" "p_hops p = sink.Queue q # r"
  then have "\<not> queue_full (w_queues w q) p" by (auto simp: queue_full_def)
  with a show "\<exists>w'. forward_packet (Suc n) p w = Inr w' \<and>
      (queue_ok q w' \<and> q_max_queue_size (w_queues w' q) \<le> 0) \<and>
      queue_packets q w' = queue_packets q w @ [p\<lparr>p_hops := tl (sink.Queue q # r)\<rparr>] \<and>
      w_tcp w' = w_tcp w \<and> w_channels w' = w_channels w \<and> w_mem w' = w_mem w \<and> w_pcap w' = w_pcap w"
    using forward_to_queue [of q w p r n] by (metis list.sel(3))
next
  fix w w' :: "'u world"
  assume a: "w_sched w' = w_sched w" "w_queues w' = w_queues w"
  from queue_ok_frame [OF a, of q] a(2) show "(queue_ok q w' \<and> q_max_queue_size (w_queues w' q) \<le> 0) =
      (queue_ok q w \<and> q_max_queue_size (w_queues w q) \<le> 0) \<and> queue_packets q w' = queue_packets q w"
    by (simp add: queue_packets_def)
qed

section \<open>Reassembly\<close>

text \<open>
  What a socket holds after the segments numbered by \<open>A\<close> have arrived, \<open>pk i\<close> being the one with
  sequence number \<open>i\<close>: all those before the first gap \<open>f\<close> are in the incoming queue in order,
  those behind it in the reorder buffer.
\<close>

definition reassembled :: "(nat \<Rightarrow> packet) \<Rightarrow> nat set \<Rightarrow> 'u tcp_socket \<Rightarrow> bool" where
  "reassembled pk A s \<longleftrightarrow>
    (\<exists>f. {..<f} \<subseteq> A \<and> f \<notin> A \<and> m_next_incoming_seq s = of_nat f \<and> m_incoming_queue s = map pk [0..<f] \<and>
      (\<forall>x. m_reorder_buffer s x = (if f < unat x \<and> unat x \<in> A then Some (pk (unat x)) else None)))"

lemma drain_reorder_gap:
  assumes "\<And>i. a \<le> i \<Longrightarrow> i < b \<Longrightarrow> i \<in> A" and "b \<notin> A" and "a \<le> b" and "b < 2 ^ 64"
    and "\<And>x. m x = (if a \<le> unat x \<and> unat x \<in> A then Some (pk (unat x)) else None)"
  shows "\<exists>m'. drain_reorder (of_nat a) m = (map pk [a..<b], of_nat b, m') \<and>
    (\<forall>x. m' x = (if b < unat x \<and> unat x \<in> A then Some (pk (unat x)) else None))"
  using assms
proof (induction "b - a" arbitrary: a m)
  case 0
  then have "a = b" by simp
  moreover have u: "unat (of_nat b :: 64 word) = b"
    using "0.prems"(4) by (simp add: unat_of_nat take_bit_nat_eq_self)
  ultimately have "drain_reorder (of_nat a) m = (map pk [a..<b], of_nat b, m)"
    using "0.prems"(2,5) by (simp add: drain_reorder.simps)
  moreover have "m x = (if b < unat x \<and> unat x \<in> A then Some (pk (unat x)) else None)" for x
    using "0.prems"(2,5) \<open>a = b\<close> by (auto simp: le_less)
  ultimately show ?case by blast
next
  case (Suc n)
  then have ab: "a < b" by simp
  with Suc.prems(4) have u: "unat (of_nat a :: 64 word) = a"
    by (simp add: unat_of_nat take_bit_nat_eq_self)
  let ?m = "m(of_nat a := None)"
  have "?m x = (if Suc a \<le> unat x \<and> unat x \<in> A then Some (pk (unat x)) else None)" for x
  proof (cases "x = of_nat a")
    case True
    then show ?thesis by (simp add: u)
  next
    case False
    then have "unat x \<noteq> a" by auto
    with False Suc.prems(5) show ?thesis by auto
  qed
  note m_a = this
  have "n = b - Suc a" and "\<And>i. Suc a \<le> i \<Longrightarrow> i < b \<Longrightarrow> i \<in> A" and "Suc a \<le> b"
    using Suc.hyps(2) Suc.prems(1) ab by simp_all
  from Suc.hyps(1) [OF this(1,2) Suc.prems(2) this(3) Suc.prems(4) m_a]
  obtain m' where m': "drain_reorder (of_nat (Suc a)) ?m = (map pk [Suc a..<b], of_nat b, m')"
    "\<forall>x. m' x = (if b < unat x \<and> unat x \<in> A then Some (pk (unat x)) else None)"
    by blast
  have "m (of_nat a) = Some (pk a)"
    using Suc.prems(1) [of a] ab by (simp add: Suc.prems(5) u)
  then have "drain_reorder (of_nat a) m = (pk a # map pk [Suc a..<b], of_nat b, m')"
    using m'(1) by (simp add: drain_reorder.simps [of "of_nat a"] add.commute)
  with m'(2) ab show ?case by (simp add: upt_conv_Cons)
qed

lemma first_gap:
  assumes "A \<subseteq> {..<N}" and "{..<f} \<subseteq> (A :: nat set)"
  obtains b where "{..<b} \<subseteq> A" and "b \<notin> A" and "f \<le> b" and "b \<le> N"
proof -
  define b where "b = (LEAST b. b \<notin> A)"
  have "N \<notin> A" using assms(1) by auto
  then have "b \<notin> A" "b \<le> N" unfolding b_def by (rule LeastI, intro Least_le)
  moreover have "{..<b} \<subseteq> A" unfolding b_def using not_less_Least by blast
  moreover have "f \<le> b" using assms(2) \<open>b \<notin> A\<close> by (meson lessThan_iff not_le subsetD)
  ultimately show ?thesis using that by blast
qed

text \<open>A socket of an open connection with no read pending, on the channel \<open>c\<close>, whose packets take \<open>hops\<close>.\<close>

definition receiving :: "nat \<Rightarrow> nat \<Rightarrow> route \<Rightarrow> 'u world \<Rightarrow> bool" where
  "receiving k c hops w \<longleftrightarrow>
    m_channel (w_tcp w k) = Some c \<and>
    (\<exists>r. remote_idx (w_channels w c) (m_bound_to (w_tcp w k)) = Inr r \<and> c_hops (w_channels w c) r = hops) \<and>
    m_recv_handler (w_tcp w k) = None \<and> m_wait_recv_handler (w_tcp w k) = None"

definition same_end :: "'u tcp_socket \<Rightarrow> 'u tcp_socket \<Rightarrow> bool" where
  "same_end s s' \<longleftrightarrow> m_open s' = m_open s \<and> m_connect_handler s' = m_connect_handler s"

context quiet_net
begin

lemma incoming_data_reassembles:
  assumes ok: "ok w" and rc: "receiving k c hops w" and re: "reassembled pk A (w_tcp w k)"
    and ack: "\<And>p. sendable (ack_packet p hops)"
    and seq: "p_seq_nr (pk i) = of_nat i" and i: "i \<notin> A" "i < N" "A \<subseteq> {..<N}" "N < 2 ^ 64"
  shows "\<exists>w'. incoming_data fwd k (pk i) w = Inr w' \<and> ok w' \<and> receiving k c hops w' \<and>
    reassembled pk (insert i A) (w_tcp w' k) \<and> same_end (w_tcp w k) (w_tcp w' k)"
proof -
  let ?s = "w_tcp w k"
  from rc obtain r where r: "m_channel ?s = Some c" "remote_idx (w_channels w c) (m_bound_to ?s) = Inr r"
    "c_hops (w_channels w c) r = hops" "m_recv_handler ?s = None" "m_wait_recv_handler ?s = None"
    by (auto simp: receiving_def)
  obtain w1 where w1: "fwd (ack_packet (pk i) hops) w = Inr w1" "ok w1" "w_tcp w1 = w_tcp w"
    "w_channels w1 = w_channels w"
    using quiet [OF ok ack, of "pk i"] by (auto simp: ack_packet_def)
  from re obtain f where f: "{..<f} \<subseteq> A" "f \<notin> A" "m_next_incoming_seq ?s = of_nat f"
    "m_incoming_queue ?s = map pk [0..<f]"
    "\<And>x. m_reorder_buffer ?s x = (if f < unat x \<and> unat x \<in> A then Some (pk (unat x)) else None)"
    by (auto simp: reassembled_def)
  have un: "unat (of_nat j :: 64 word) = j" if "j \<le> N" for j
    using that i(4) by (simp add: unat_of_nat take_bit_nat_eq_self)
  have "f \<le> N" using f(1) i(3) by (meson lessThan_subset_iff order_trans)
  have keep: "ok (upd_tcp k g w1)" for g
    using ok_frame [of "upd_tcp k g w1" w1] w1(2) by simp
  have run: "incoming_data fwd k (pk i) w =
      (if (of_nat i :: 64 word) \<noteq> of_nat f then
         Inr (if m_reorder_buffer ?s (of_nat i) = None
            then upd_tcp k (\<lambda>s. s\<lparr>m_reorder_buffer := (m_reorder_buffer s)(of_nat i \<mapsto> pk i)\<rparr>) w1 else w1)
       else let (ps, n, rb) = drain_reorder (of_nat f + 1) (m_reorder_buffer ?s) in
         maybe_wakeup_reader k (upd_tcp k (\<lambda>s. s\<lparr>m_next_incoming_seq := n, m_reorder_buffer := rb,
           m_incoming_queue := m_incoming_queue s @ pk i # ps\<rparr>) w1))"
    using r w1 by (simp add: incoming_data_def channel_of_def Let_def seq f(3))
  show ?thesis
  proof (cases "i = f")
    case False
    then have ne: "(of_nat i :: 64 word) \<noteq> of_nat f"
      using un [of i] un [of f] i(2) \<open>f \<le> N\<close> by auto
    have "f < i"
      using False f(1) i(1) by (meson lessThan_iff linorder_neqE_nat subsetD)
    let ?w = "upd_tcp k (\<lambda>s. s\<lparr>m_reorder_buffer := (m_reorder_buffer s)(of_nat i \<mapsto> pk i)\<rparr>) w1"
    have "incoming_data fwd k (pk i) w = Inr ?w"
      using run ne f(5) i(1,2) un [of i] by simp
    moreover have "((m_reorder_buffer ?s)(of_nat i \<mapsto> pk i)) x =
        (if f < unat x \<and> unat x \<in> insert i A then Some (pk (unat x)) else None)" for x
    proof (cases "x = of_nat i")
      case True
      then show ?thesis using un [of i] i(2) \<open>f < i\<close> by simp
    next
      case neq: False
      then have "unat x \<noteq> i" by auto
      with neq show ?thesis by (simp add: f(5))
    qed
    then have "reassembled pk (insert i A) (w_tcp ?w k)"
      using f(1-4) False w1(3) unfolding reassembled_def by (intro exI [of _ f]) auto
    moreover have "receiving k c hops ?w" "same_end ?s (w_tcp ?w k)"
      using r w1 by (simp_all add: receiving_def same_end_def)
    ultimately show ?thesis using keep by blast
  next
    case True
    have sub: "insert i A \<subseteq> {..<N}" "{..<Suc f} \<subseteq> insert i A"
      using i f(1) True by (auto simp: less_Suc_eq)
    then obtain b where b: "{..<b} \<subseteq> insert i A" "b \<notin> insert i A" "Suc f \<le> b" "b \<le> N"
      by (rule first_gap)
    have "\<And>x. m_reorder_buffer ?s x =
        (if Suc f \<le> unat x \<and> unat x \<in> insert i A then Some (pk (unat x)) else None)"
      using True by (auto simp: f(5))
    from drain_reorder_gap [OF _ b(2,3) _ this] b(1,4) i(4) obtain rb where
      rb: "drain_reorder (of_nat (Suc f)) (m_reorder_buffer ?s) = (map pk [Suc f..<b], of_nat b, rb)"
      "\<forall>x. rb x = (if b < unat x \<and> unat x \<in> insert i A then Some (pk (unat x)) else None)"
      by force
    let ?w = "upd_tcp k (\<lambda>s. s\<lparr>m_next_incoming_seq := of_nat b, m_reorder_buffer := rb,
      m_incoming_queue := m_incoming_queue s @ pk i # map pk [Suc f..<b]\<rparr>) w1"
    have "maybe_wakeup_reader k ?w = Inr ?w"
      using r w1(3) by (simp add: maybe_wakeup_reader_def)
    then have "incoming_data fwd k (pk i) w = Inr ?w"
      using run rb(1) True by (simp add: add.commute)
    moreover have "[0..<f] @ f # [Suc f..<b] = [0..<b]"
    proof -
      have "[f..<b] = f # [Suc f..<b]" using b(3) by (simp add: upt_conv_Cons)
      moreover have "[0..<f + (b - f)] = [0..<f] @ [f..<f + (b - f)]"
        by (rule upt_add_eq_append) simp
      ultimately show ?thesis using b(3) by simp
    qed
    then have "map pk [0..<f] @ pk i # map pk [Suc f..<b] = map pk [0..<b]"
      using True by (metis list.simps(9) map_append)
    then have "reassembled pk (insert i A) (w_tcp ?w k)"
      using b(1,2) rb(2) w1(3) f(4) unfolding reassembled_def by (intro exI [of _ b]) simp
    moreover have "receiving k c hops ?w" "same_end ?s (w_tcp ?w k)"
      using r w1 by (simp_all add: receiving_def same_end_def)
    ultimately show ?thesis using keep by blast
  qed
qed

lemma arrivals_reassemble:
  assumes "ok w" and "receiving k c hops w" and "reassembled pk A (w_tcp w k)"
    and "\<And>p. sendable (ack_packet p hops)"
    and "\<forall>i \<in> set is. p_seq_nr (pk i) = of_nat i \<and> p_type (pk i) \<in> {Payload, Error}"
    and "distinct is" and "set is \<inter> A = {}" and "set is \<union> A \<subseteq> {..<N}" and "N < 2 ^ 64"
  shows "\<exists>w'. eachE (tcp_incoming_packet fwd fuel k) (map pk is) w = Inr w' \<and> ok w' \<and>
    receiving k c hops w' \<and> reassembled pk (set is \<union> A) (w_tcp w' k) \<and> same_end (w_tcp w k) (w_tcp w' k)"
  using assms
proof (induction "is" arbitrary: w A)
  case Nil
  then show ?case by (simp add: same_end_def)
next
  case (Cons i js)
  have "tcp_incoming_packet fwd fuel k (pk i) w = incoming_data fwd k (pk i) w"
    using Cons.prems(5) by (auto simp: tcp_incoming_packet_def)
  moreover obtain w1 where w1: "incoming_data fwd k (pk i) w = Inr w1" "ok w1" "receiving k c hops w1"
    "reassembled pk (insert i A) (w_tcp w1 k)" "same_end (w_tcp w k) (w_tcp w1 k)"
    using incoming_data_reassembles [OF Cons.prems(1-4), of i N] Cons.prems(5-9) by auto
  moreover have "set js \<inter> insert i A = {}" "set js \<union> insert i A \<subseteq> {..<N}"
    using Cons.prems(6-8) by auto
  ultimately show ?case
    using Cons.IH [OF w1(2-4) Cons.prems(4) _ _ _ _ Cons.prems(9)] Cons.prems(5,6) w1(5) by (auto simp: same_end_def)
qed

end

text \<open>
  C17. Segments that arrive in any order are put back in order: when the segments numbered 0 to
  N - 1 reach a fresh connection in an arbitrary order, no call aborts, the incoming queue holds
  them in sequence, the next one expected is number N and the reorder buffer is empty. The
  acknowledgements leave through a queue.
\<close>

theorem segments_reassemble_in_any_order:
  assumes "queue_ok q w" and "receiving k c (sink.Queue q # r) w"
    and "m_next_incoming_seq (w_tcp w k) = 0" and "m_incoming_queue (w_tcp w k) = []"
    and "m_reorder_buffer (w_tcp w k) = Map.empty"
    and "\<forall>i < N. p_seq_nr (pk i) = of_nat i \<and> p_type (pk i) \<in> {Payload, Error}"
    and "distinct is" and "set is = {..<N}" and "N < 2 ^ 64"
  shows "\<exists>w'. eachE (tcp_incoming_packet (forward_packet (Suc n)) fuel k) (map pk is) w = Inr w' \<and>
    m_incoming_queue (w_tcp w' k) = map pk [0..<N] \<and> m_next_incoming_seq (w_tcp w' k) = of_nat N \<and>
    m_reorder_buffer (w_tcp w' k) = Map.empty \<and> queue_ok q w'"
proof -
  have "reassembled pk {} (w_tcp w k)"
    using assms(3-5) by (auto simp: reassembled_def)
  moreover have "\<not> ok_to_drop (ack_packet p h)" for p h
    by (simp add: ack_packet_def ok_to_drop_def)
  moreover have "\<forall>i \<in> set is. p_seq_nr (pk i) = of_nat i \<and> p_type (pk i) \<in> {Payload, Error}"
    using assms(6,8) by auto
  ultimately obtain w' where w': "eachE (tcp_incoming_packet (forward_packet (Suc n)) fuel k) (map pk is) w = Inr w'"
    "queue_ok q w'" "reassembled pk (set is \<union> {}) (w_tcp w' k)"
    using control.arrivals_reassemble [OF assms(1,2), of pk "{}" "is" N n fuel] assms(7-9) by auto
  from w'(3) obtain f where f: "{..<f} \<subseteq> {..<N}" "f \<notin> {..<N}" "m_next_incoming_seq (w_tcp w' k) = of_nat f"
    "m_incoming_queue (w_tcp w' k) = map pk [0..<f]"
    "\<forall>x. m_reorder_buffer (w_tcp w' k) x = (if f < unat x \<and> unat x < N then Some (pk (unat x)) else None)"
    by (auto simp: reassembled_def assms(8))
  then have "f = N" by auto
  with f have "m_reorder_buffer (w_tcp w' k) = Map.empty" by (intro ext) simp
  with w' f \<open>f = N\<close> show ?thesis by blast
qed

lemma segments_reassemble_in_any_order_witness:
  "\<exists>w'. eachE (tcp_incoming_packet (forward_packet 1) 0 5)
      (map (\<lambda>i. new_packet\<lparr>p_type := Payload, p_buffer := [of_nat i], p_seq_nr := of_nat i\<rparr>) [2, 0, 1])
      (upd_tcp 5 (\<lambda>s. s\<lparr>m_channel := Some 0\<rparr>)
        (upd_channel 0 (\<lambda>ch. ch\<lparr>c_hops := (\<lambda>_. [sink.Queue 3])\<rparr>) empty_world)) = Inr w' \<and>
    stream (m_incoming_queue (w_tcp w' 5)) = [0, 1, 2]"
proof -
  let ?w = "upd_tcp 5 (\<lambda>s. s\<lparr>m_channel := Some 0\<rparr>)
        (upd_channel 0 (\<lambda>ch. ch\<lparr>c_hops := (\<lambda>_. [sink.Queue 3])\<rparr>) empty_world)"
  let ?pk = "\<lambda>i. new_packet\<lparr>p_type := Payload, p_buffer := [of_nat i], p_seq_nr := of_nat i\<rparr>"
  have "queue_ok 3 ?w"
    using empty_world_ok [of 3] queue_ok_frame [of ?w empty_world 3] by simp
  moreover have "receiving 5 0 (sink.Queue 3 # []) ?w"
    by (simp add: receiving_def new_world_def new_tcp_socket_def remote_idx_def)
  moreover have "m_next_incoming_seq (w_tcp ?w 5) = 0" "m_incoming_queue (w_tcp ?w 5) = []"
    "m_reorder_buffer (w_tcp ?w 5) = Map.empty"
    by (simp_all add: new_world_def new_tcp_socket_def)
  moreover have "set [2, 0, 1 :: nat] = {..<3}" by auto
  ultimately obtain w' where "eachE (tcp_incoming_packet (forward_packet (Suc 0)) 0 5) (map ?pk [2, 0, 1]) ?w = Inr w'"
    and "m_incoming_queue (w_tcp w' 5) = map ?pk [0..<3]"
    using segments_reassemble_in_any_order [of 3 ?w 5 0 "[]" 3 ?pk "[2, 0, 1]" 0 0] by auto
  then show ?thesis
    by (auto simp: upt_rec)
qed

section \<open>Writing\<close>

text \<open>Consecutive segments: sequence numbers from \<open>n\<close>, byte counters from \<open>b\<close>, none empty or longer than \<open>mss\<close>.\<close>

fun seg_chain :: "int \<Rightarrow> 64 word \<Rightarrow> 32 word \<Rightarrow> packet list \<Rightarrow> bool" where
  "seg_chain mss n b [] \<longleftrightarrow> True"
| "seg_chain mss n b (p # ps) \<longleftrightarrow>
    p_type p = Payload \<and> p_seq_nr p = n \<and> p_byte_counter p = b \<and> p_buffer p \<noteq> [] \<and>
    int (length (p_buffer p)) \<le> mss \<and> seg_chain mss (n + 1) (b + of_nat (length (p_buffer p))) ps"

definition seg_bytes :: "packet list \<Rightarrow> byte list" where
  "seg_bytes ps = concat (map p_buffer ps)"

lemma seg_bytes_simps [simp]: "seg_bytes [] = []" "seg_bytes (p # ps) = p_buffer p @ seg_bytes ps"
  "seg_bytes (ps @ qs) = seg_bytes ps @ seg_bytes qs"
  by (simp_all add: seg_bytes_def)

lemma seg_chain_append:
  "seg_chain mss n b (ps @ qs) \<longleftrightarrow> seg_chain mss n b ps \<and>
    seg_chain mss (n + of_nat (length ps)) (b + of_nat (length (seg_bytes ps))) qs"
  by (induction ps arbitrary: n b) (auto simp: add.assoc)

text \<open>
  A socket that can send on channel \<open>c\<close>, where it is side \<open>i\<close>, along \<open>hops\<close>; there is no packet
  capture. And what sending the segments \<open>segs\<close> has done to it.
\<close>

definition sending :: "nat \<Rightarrow> nat \<Rightarrow> nat \<Rightarrow> route \<Rightarrow> 'u world \<Rightarrow> bool" where
  "sending k c i hops w \<longleftrightarrow>
    m_channel (w_tcp w k) = Some c \<and> self_idx (w_channels w c) (m_bound_to (w_tcp w k)) = Inr i \<and>
    c_hops (w_channels w c) (1 - i) = hops \<and> 0 < m_mss (w_tcp w k) \<and> w_pcap w = None"

definition has_sent :: "nat \<Rightarrow> nat \<Rightarrow> nat \<Rightarrow> 'u world \<Rightarrow> packet list \<Rightarrow> 'u world \<Rightarrow> bool" where
  "has_sent k c i w segs w' \<longleftrightarrow>
    (let s = w_tcp w k; s' = w_tcp w' k in
     seg_chain (m_mss s) (m_next_outgoing_seq s) (c_bytes_sent (w_channels w c) i) segs \<and>
     m_mss s' = m_mss s \<and> m_cwnd s' = m_cwnd s \<and>
     m_next_outgoing_seq s' = m_next_outgoing_seq s + of_nat (length segs) \<and>
     m_bytes_in_flight s' = m_bytes_in_flight s + int (length (seg_bytes segs)) \<and>
     c_bytes_sent (w_channels w' c) i = c_bytes_sent (w_channels w c) i + of_nat (length (seg_bytes segs)) \<and>
     w_mem w' = w_mem w)"

lemma has_sent_Nil: "has_sent k c i w [] w"
  by (simp add: has_sent_def Let_def)

lemma has_sent_trans:
  "has_sent k c i w ps w1 \<Longrightarrow> has_sent k c i w1 qs w2 \<Longrightarrow> has_sent k c i w (ps @ qs) w2"
  by (auto simp: has_sent_def Let_def seg_chain_append add.assoc)

lemma has_sent_full: "has_sent k c i w [] w' \<Longrightarrow> window_full (w_tcp w' k) = window_full (w_tcp w k)"
  by (simp add: has_sent_def window_full_def Let_def)

context quiet_net
begin

lemma send_segment:
  assumes "ok w" and "sending k c i hops w" and "\<And>p. sendable p"
    and "bs \<noteq> []" and "int (length bs) \<le> m_mss (w_tcp w k)"
  shows "\<exists>w' seg. send_packet fwd k (payload_packet k hops bs (w_tcp w k))
        (upd_tcp k (\<lambda>s. s\<lparr>m_next_outgoing_seq := m_next_outgoing_seq s + 1\<rparr>) w) = Inr w' \<and>
      ok w' \<and> sending k c i hops w' \<and> has_sent k c i w [seg] w' \<and> p_buffer seg = bs \<and>
      sent w' = sent w @ [seg\<lparr>p_hops := tl hops\<rparr>]"
proof -
  let ?s = "w_tcp w k" and ?ch = "w_channels w c"
  let ?p = "payload_packet k hops bs ?s"
  define seg where "seg = ?p\<lparr>p_byte_counter := c_bytes_sent ?ch i\<rparr>"
  define ch where "ch = ?ch\<lparr>c_bytes_sent := (c_bytes_sent ?ch)(i := c_bytes_sent ?ch i + of_nat (length bs))\<rparr>"
  define w1 where "w1 = upd_channel c (\<lambda>_. ch)
    (upd_tcp k (\<lambda>s. s\<lparr>m_bytes_in_flight := m_bytes_in_flight s + int (length bs),
       m_outstanding_packet_sizes := (m_outstanding_packet_sizes s)(m_next_outgoing_seq ?s \<mapsto> int (length bs))\<rparr>)
      (upd_tcp k (\<lambda>s. s\<lparr>m_next_outgoing_seq := m_next_outgoing_seq s + 1\<rparr>) w))"
  have idx: "self_idx ch e = self_idx ?ch e" for e
    by (simp add: self_idx_def ch_def)
  have run: "send_packet fwd k ?p (upd_tcp k (\<lambda>s. s\<lparr>m_next_outgoing_seq := m_next_outgoing_seq s + 1\<rparr>) w) =
      fwd seg w1"
    using assms(2) by (simp add: send_packet_def sending_def Let_def write_log_def w1_def seg_def ch_def
        payload_packet_def)
  have "ok w1" "sent w1 = sent w"
    using assms(1) ok_frame [of w1 w] by (simp_all add: w1_def)
  moreover have "p_hops seg = hops" by (simp add: seg_def payload_packet_def)
  ultimately obtain w' where w': "fwd seg w1 = Inr w'" "ok w'" "sent w' = sent w @ [seg\<lparr>p_hops := tl hops\<rparr>]"
    "w_tcp w' = w_tcp w1" "w_channels w' = w_channels w1" "w_mem w' = w_mem w1" "w_pcap w' = w_pcap w1"
    using quiet [of w1 seg] assms(3) by auto
  have "sending k c i hops w'"
    using assms(2) w'(4,5,7) by (simp add: sending_def w1_def idx) (simp add: ch_def)
  moreover have "has_sent k c i w [seg] w'"
    using assms(4,5) w'(4-6) by (simp add: has_sent_def w1_def seg_def payload_packet_def ch_def Let_def)
  moreover have "p_buffer seg = bs" by (simp add: seg_def payload_packet_def)
  ultimately show ?thesis
    using run w'(1-3) by auto
qed

lemma write_buffer_segments:
  assumes "ok w" and "sending k c i hops w" and "\<And>p. sendable p"
    and "n = 0 \<or> \<not> window_full (w_tcp w k)"
    and "0 \<le> m_bytes_in_flight (w_tcp w k)"
  shows "\<exists>m full w' segs. write_buffer fwd k hops a n ret w = Inr (ret + m, full, w') \<and>
    ok w' \<and> sending k c i hops w' \<and> has_sent k c i w segs w' \<and> seg_bytes segs = load (w_mem w) a m \<and> m \<le> n \<and>
    sent w' = sent w @ map (\<lambda>p. p\<lparr>p_hops := tl hops\<rparr>) segs \<and>
    (if full then window_full (w_tcp w' k) \<and> 0 < m else m = n) \<and>
    (segs \<noteq> [] \<longrightarrow> m_bytes_in_flight (w_tcp w' k) \<le> m_cwnd (w_tcp w' k)) \<and>
    (\<not> full \<longrightarrow> n = 0 \<or> \<not> window_full (w_tcp w' k))"
  using assms
proof (induction n arbitrary: a ret w rule: less_induct)
  case (less n)
  show ?case
  proof (cases "n = 0")
    case True
    then show ?thesis
      using less.prems has_sent_Nil by (intro exI [of _ 0] exI [of _ False] exI [of _ w] exI [of _ "[]"])
        (simp add: write_buffer.simps)
  next
    case False
    let ?s = "w_tcp w k"
    define size where "size = min n (nat (m_mss ?s))"
    have mss: "0 < m_mss ?s" using less.prems(2) by (simp add: sending_def)
    then have size: "0 < size" "size \<le> n" "int size \<le> m_mss ?s" using False by (auto simp: size_def)
    have bs: "load (w_mem w) a size \<noteq> []" "int (length (load (w_mem w) a size)) \<le> m_mss ?s"
      using size by (auto simp flip: length_greater_0_conv)
    obtain w2 seg where w2: "send_packet fwd k (payload_packet k hops (load (w_mem w) a size) ?s)
        (upd_tcp k (\<lambda>s. s\<lparr>m_next_outgoing_seq := m_next_outgoing_seq s + 1\<rparr>) w) = Inr w2"
      "ok w2" "sending k c i hops w2" "has_sent k c i w [seg] w2" "p_buffer seg = load (w_mem w) a size"
      "sent w2 = sent w @ [seg\<lparr>p_hops := tl hops\<rparr>]"
      using send_segment [OF less.prems(1-3) bs] by blast
    have run: "write_buffer fwd k hops a n ret w = (if window_full (w_tcp w2 k) then Inr (ret + size, True, w2)
        else write_buffer fwd k hops (a + size) (n - size) (ret + size) w2)"
      using False mss w2(1) by (simp add: write_buffer.simps [of fwd k hops a n] Let_def size_def)
    have "\<not> window_full ?s" using less.prems(4) False by simp
    then have win: "m_bytes_in_flight (w_tcp w2 k) \<le> m_cwnd (w_tcp w2 k)"
      "0 \<le> m_bytes_in_flight (w_tcp w2 k)"
      using w2(4,5) size(3) less.prems(5) by (simp_all add: has_sent_def window_full_def Let_def)
    show ?thesis
    proof (cases "window_full (w_tcp w2 k)")
      case True
      then show ?thesis
        using w2 size run win
        by (intro exI [of _ size] exI [of _ True] exI [of _ w2] exI [of _ "[seg]"]) simp
    next
      case nf: False
      have "n - size < n" using False size by simp
      from less.IH [OF this w2(2,3) less.prems(3) disjI2 [OF nf] win(2), of "a + size" "ret + size"]
      obtain m full w' segs where ih: "write_buffer fwd k hops (a + size) (n - size) (ret + size) w2 =
          Inr (ret + size + m, full, w')" "ok w'" "sending k c i hops w'" "has_sent k c i w2 segs w'"
        "seg_bytes segs = load (w_mem w2) (a + size) m" "m \<le> n - size"
        "sent w' = sent w2 @ map (\<lambda>p. p\<lparr>p_hops := tl hops\<rparr>) segs"
        "if full then window_full (w_tcp w' k) \<and> 0 < m else m = n - size"
        "segs \<noteq> [] \<longrightarrow> m_bytes_in_flight (w_tcp w' k) \<le> m_cwnd (w_tcp w' k)"
        "\<not> full \<longrightarrow> n - size = 0 \<or> \<not> window_full (w_tcp w' k)"
        by blast
      have "has_sent k c i w ([seg] @ segs) w'"
        using w2(4) ih(4) by (rule has_sent_trans)
      moreover have "w_mem w2 = w_mem w" using w2(4) by (simp add: has_sent_def Let_def)
      then have "seg_bytes (seg # segs) = load (w_mem w) a (size + m)"
        using w2(5) ih(5) by (simp add: load_append)
      moreover have last: "m_bytes_in_flight (w_tcp w' k) \<le> m_cwnd (w_tcp w' k) \<and>
          (segs = [] \<longrightarrow> \<not> window_full (w_tcp w' k))"
        using ih(4,9) win(1) nf by (cases "segs = []") (auto simp: has_sent_def window_full_def Let_def)
      moreover have "if full then window_full (w_tcp w' k) \<and> 0 < size + m else size + m = n"
        using ih(8) size by (auto split: if_splits)
      moreover have "\<not> full \<Longrightarrow> \<not> window_full (w_tcp w' k)"
      proof -
        assume "\<not> full"
        with ih(8) have "m = n - size" by simp
        show "\<not> window_full (w_tcp w' k)"
        proof (cases "n - size = 0")
          case True
          with ih(5) \<open>m = n - size\<close> have "seg_bytes segs = []" by simp
          then show ?thesis using ih(4) nf by (simp add: has_sent_def window_full_def Let_def)
        next
          case False
          with ih(10) \<open>\<not> full\<close> show ?thesis by simp
        qed
      qed
      ultimately show ?thesis
        using run nf ih(1-3,6,7) w2(6) size
        by (intro exI [of _ "size + m"] exI [of _ full] exI [of _ w'] exI [of _ "seg # segs"]) (auto simp: add.assoc)
    qed
  qed
qed

lemma write_buffers_segments:
  assumes "ok w" and "sending k c i hops w" and "\<And>p. sendable p"
    and "\<not> window_full (w_tcp w k)" and "0 \<le> m_bytes_in_flight (w_tcp w k)"
  shows "\<exists>m w' segs. write_buffers fwd k hops bufs ret w = Inr (ret + m, w') \<and>
    ok w' \<and> has_sent k c i w segs w' \<and> m \<le> buffer_size bufs \<and>
    seg_bytes segs = take m (map (w_mem w) (addrs bufs)) \<and>
    sent w' = sent w @ map (\<lambda>p. p\<lparr>p_hops := tl hops\<rparr>) segs \<and>
    (m < buffer_size bufs \<longrightarrow> window_full (w_tcp w' k)) \<and>
    (segs \<noteq> [] \<longrightarrow> m_bytes_in_flight (w_tcp w' k) \<le> m_cwnd (w_tcp w' k)) \<and>
    (0 < buffer_size bufs \<longrightarrow> 0 < m)"
  using assms
proof (induction bufs arbitrary: ret w)
  case Nil
  then show ?case
    using has_sent_Nil by (intro exI [of _ 0] exI [of _ w] exI [of _ "[]"]) (simp add: buffer_size_def)
next
  case (Cons b bufs)
  obtain a n where b: "b = (a, n)" by fastforce
  obtain m full w1 segs where wb: "write_buffer fwd k hops a n ret w = Inr (ret + m, full, w1)"
    "ok w1" "sending k c i hops w1" "has_sent k c i w segs w1" "seg_bytes segs = load (w_mem w) a m" "m \<le> n"
    "sent w1 = sent w @ map (\<lambda>p. p\<lparr>p_hops := tl hops\<rparr>) segs"
    "if full then window_full (w_tcp w1 k) \<and> 0 < m else m = n"
    "segs \<noteq> [] \<longrightarrow> m_bytes_in_flight (w_tcp w1 k) \<le> m_cwnd (w_tcp w1 k)"
    "\<not> full \<longrightarrow> n = 0 \<or> \<not> window_full (w_tcp w1 k)"
    using write_buffer_segments [OF Cons.prems(1-3) disjI2 [OF Cons.prems(4)] Cons.prems(5)] by blast
  have pre: "load (w_mem w) a m = take m (map (w_mem w) (addrs (b # bufs)))"
    using wb(6) by (simp add: b load_def take_map)
  have size: "buffer_size (b # bufs) = n + buffer_size bufs"
    by (simp add: b buffer_size_def)
  show ?case
  proof (cases full)
    case True
    with wb pre size show ?thesis
      by (intro exI [of _ m] exI [of _ w1] exI [of _ segs]) (auto simp: b)
  next
    case False
    with wb(8) have m: "m = n" by simp
    have nf: "\<not> window_full (w_tcp w1 k)"
    proof (cases "n = 0")
      case True
      with wb(5) m have "segs = []"
        using wb(4) by (cases segs) (auto simp: has_sent_def Let_def)
      with has_sent_full wb(4) Cons.prems(4) show ?thesis by blast
    next
      case nz: False
      with wb(10) False show ?thesis by simp
    qed
    have "0 \<le> m_bytes_in_flight (w_tcp w1 k)"
      using wb(4) Cons.prems(5) by (simp add: has_sent_def Let_def)
    from Cons.IH [OF wb(2,3) Cons.prems(3) nf this, of "ret + m"] obtain m2 w' segs2 where
      ih: "write_buffers fwd k hops bufs (ret + m) w1 = Inr (ret + m + m2, w')" "ok w'"
      "has_sent k c i w1 segs2 w'" "m2 \<le> buffer_size bufs"
      "seg_bytes segs2 = take m2 (map (w_mem w1) (addrs bufs))"
      "sent w' = sent w1 @ map (\<lambda>p. p\<lparr>p_hops := tl hops\<rparr>) segs2"
      "m2 < buffer_size bufs \<longrightarrow> window_full (w_tcp w' k)"
      "segs2 \<noteq> [] \<longrightarrow> m_bytes_in_flight (w_tcp w' k) \<le> m_cwnd (w_tcp w' k)"
      "0 < buffer_size bufs \<longrightarrow> 0 < m2"
      by (elim exE conjE) (rule that; assumption)
    have "w_mem w1 = w_mem w" using wb(4) by (simp add: has_sent_def Let_def)
    then have "seg_bytes (segs @ segs2) = take (m + m2) (map (w_mem w) (addrs (b # bufs)))"
      using wb(5) ih(5) m by (simp add: b load_def)
    moreover have "has_sent k c i w (segs @ segs2) w'"
      using wb(4) ih(3) by (rule has_sent_trans)
    moreover have "segs @ segs2 \<noteq> [] \<longrightarrow> m_bytes_in_flight (w_tcp w' k) \<le> m_cwnd (w_tcp w' k)"
      using wb(9) ih(3,8) by (cases "segs2 = []") (auto simp: has_sent_def Let_def)
    ultimately show ?thesis
      using False wb(1,7) ih(1,2,4,6,7,9) m size
      by (intro exI [of _ "m + m2"] exI [of _ w'] exI [of _ "segs @ segs2"]) (auto simp: b add.assoc)
  qed
qed

end

lemma write_some_sends:
  assumes "queue_ok q w" and "q_max_queue_size (w_queues w q) \<le> 0"
    and "sending k c i (sink.Queue q # r) w" and "c_ep (w_channels w c) 0 \<noteq> c_ep (w_channels w c) 1"
    and "m_open (w_tcp w k)" and "m_connect_handler (w_tcp w k) = None" and "\<not> window_full (w_tcp w k)"
    and "0 \<le> m_bytes_in_flight (w_tcp w k)" and "0 < buffer_size bufs"
  obtains n w' segs where "write_some_impl (forward_packet (Suc fuel)) k bufs success w = Inr (n, success, w')"
    and "has_sent k c i w segs w'" and "0 < n" and "n \<le> buffer_size bufs" and "length (seg_bytes segs) = n"
    and "seg_bytes segs = take n (map (w_mem w) (addrs bufs))"
    and "queue_packets q w' = queue_packets q w @ map (\<lambda>p. p\<lparr>p_hops := r\<rparr>) segs" and "segs \<noteq> []"
    and "m_bytes_in_flight (w_tcp w' k) \<le> m_cwnd (w_tcp w' k)"
    and "n < buffer_size bufs \<longrightarrow> window_full (w_tcp w' k)"
proof -
  have s: "m_channel (w_tcp w k) = Some c" "self_idx (w_channels w c) (m_bound_to (w_tcp w k)) = Inr i"
    "c_hops (w_channels w c) (1 - i) = sink.Queue q # r"
    using assms(3) by (simp_all add: sending_def)
  obtain n w' segs where wb: "write_buffers (forward_packet (Suc fuel)) k (sink.Queue q # r) bufs 0 w = Inr (0 + n, w')"
    "has_sent k c i w segs w'" "n \<le> buffer_size bufs" "seg_bytes segs = take n (map (w_mem w) (addrs bufs))"
    "queue_packets q w' = queue_packets q w @ map (\<lambda>p. p\<lparr>p_hops := tl (sink.Queue q # r)\<rparr>) segs"
    "n < buffer_size bufs \<longrightarrow> window_full (w_tcp w' k)"
    "segs \<noteq> [] \<longrightarrow> m_bytes_in_flight (w_tcp w' k) \<le> m_cwnd (w_tcp w' k)" "0 < buffer_size bufs \<longrightarrow> 0 < n"
    using unlimited.write_buffers_segments [OF conjI [OF assms(1,2)] assms(3) TrueI assms(7,8), of fuel bufs 0]
    by (elim exE conjE) (rule that; assumption)
  have "length (seg_bytes segs) = n"
    using wb(3,4) by (simp add: length_addrs)
  moreover from this wb(8) assms(9) have "segs \<noteq> []" by auto
  moreover have "write_some_impl (forward_packet (Suc fuel)) k bufs success w = Inr (n, success, w')"
    using wb(1) assms(5-7) s self_remote_idx(1) [OF s(2)] by (simp add: write_some_impl_def Let_def)
  ultimately show ?thesis
    using that [of n w' segs] wb assms(9) by auto
qed

text \<open>
  C5. A write on an established connection whose route begins with a queue without a limit: the
  bytes accepted are a prefix of the buffers, cut into non-empty segments of at most the MSS
  that enter the queue in order, with consecutive sequence numbers and byte counters; the bytes
  in flight grow by the bytes accepted and stay within the congestion window; less than all of
  the buffers is accepted only when the window is full, and never nothing.
\<close>

theorem write_some_segments:
  assumes "queue_ok q w" and "q_max_queue_size (w_queues w q) \<le> 0"
    and "sending k c i (sink.Queue q # r) w" and "c_ep (w_channels w c) 0 \<noteq> c_ep (w_channels w c) 1"
    and "m_open (w_tcp w k)" and "m_connect_handler (w_tcp w k) = None" and "\<not> window_full (w_tcp w k)"
    and "0 \<le> m_bytes_in_flight (w_tcp w k)" and "0 < buffer_size bufs"
  shows "\<exists>n w' segs. write_some_impl (forward_packet (Suc fuel)) k bufs success w = Inr (n, success, w') \<and>
    seg_chain (m_mss (w_tcp w k)) (m_next_outgoing_seq (w_tcp w k)) (c_bytes_sent (w_channels w c) i) segs \<and>
    seg_bytes segs = take n (map (w_mem w) (addrs bufs)) \<and> 0 < n \<and> n \<le> buffer_size bufs \<and>
    queue_packets q w' = queue_packets q w @ map (\<lambda>p. p\<lparr>p_hops := r\<rparr>) segs \<and>
    m_next_outgoing_seq (w_tcp w' k) = m_next_outgoing_seq (w_tcp w k) + of_nat (length segs) \<and>
    m_bytes_in_flight (w_tcp w' k) = m_bytes_in_flight (w_tcp w k) + int n \<and>
    m_bytes_in_flight (w_tcp w' k) \<le> m_cwnd (w_tcp w' k) \<and>
    (n < buffer_size bufs \<longrightarrow> window_full (w_tcp w' k))"
proof -
  obtain n w' segs where "write_some_impl (forward_packet (Suc fuel)) k bufs success w = Inr (n, success, w')"
    "has_sent k c i w segs w'" "0 < n" "n \<le> buffer_size bufs" "length (seg_bytes segs) = n"
    "seg_bytes segs = take n (map (w_mem w) (addrs bufs))"
    "queue_packets q w' = queue_packets q w @ map (\<lambda>p. p\<lparr>p_hops := r\<rparr>) segs"
    "m_bytes_in_flight (w_tcp w' k) \<le> m_cwnd (w_tcp w' k)" "n < buffer_size bufs \<longrightarrow> window_full (w_tcp w' k)"
    using write_some_sends [OF assms, of fuel] by blast
  then show ?thesis
    by (auto simp: has_sent_def Let_def)
qed

lemma write_some_segments_witness:
  "\<exists>n w' segs. write_some_impl (forward_packet 1) 5 [(10, 2000)] success
      (upd_tcp 5 (\<lambda>s. s\<lparr>m_open := True, m_channel := Some 0\<rparr>)
        (upd_channel 0 (\<lambda>ch. ch\<lparr>c_hops := (\<lambda>_. [sink.Queue 3]),
          c_ep := (\<lambda>_. default_endpoint)(1 := Endpoint (V4 7) 80)\<rparr>) empty_world)) = Inr (n, success, w') \<and>
    seg_chain 1475 0 0 segs \<and> 0 < n \<and> queue_packets 3 w' = map (\<lambda>p. p\<lparr>p_hops := []\<rparr>) segs"
proof -
  let ?w = "upd_tcp 5 (\<lambda>s. s\<lparr>m_open := True, m_channel := Some 0\<rparr>)
        (upd_channel 0 (\<lambda>ch. ch\<lparr>c_hops := (\<lambda>_. [sink.Queue 3]),
          c_ep := (\<lambda>_. default_endpoint)(1 := Endpoint (V4 7) 80)\<rparr>) empty_world)"
  have "queue_ok 3 ?w"
    using empty_world_ok [of 3] queue_ok_frame [of ?w empty_world 3] by simp
  moreover have "q_max_queue_size (w_queues ?w 3) \<le> 0" "sending 5 0 0 (sink.Queue 3 # []) ?w"
    "c_ep (w_channels ?w 0) 0 \<noteq> c_ep (w_channels ?w 0) 1" "m_open (w_tcp ?w 5)"
    "m_connect_handler (w_tcp ?w 5) = None" "\<not> window_full (w_tcp ?w 5)"
    "0 \<le> m_bytes_in_flight (w_tcp ?w 5)" "0 < buffer_size [(10::nat, 2000::nat)]"
    by (simp_all add: new_world_def new_tcp_socket_def sending_def self_idx_def window_full_def
        buffer_size_def default_endpoint_def default_address_def)
  ultimately show ?thesis
    using write_some_segments [of 3 ?w 5 0 0 "[]" "[(10, 2000)]" 0]
    by (auto simp: new_world_def new_tcp_socket_def queue_packets_def)
qed

end
