(* ===== verification/Tcp_Reorder.thy ===== *)
theory Tcp_Reorder
  imports Tcp_Stream
begin

text \<open>
  The byte stream from the write on one side of a connection to the read on the other, over a
  network that reorders the segments.
\<close>

lemma seg_chain_nth:
  "seg_chain mss m b segs \<Longrightarrow> i < length segs \<Longrightarrow>
    p_seq_nr (segs ! i) = m + of_nat i \<and> p_type (segs ! i) = Payload \<and> p_buffer (segs ! i) \<noteq> []"
proof (induction segs arbitrary: m b i)
  case (Cons p ps)
  then show ?case by (cases i) (auto simp: add.assoc)
qed simp

lemma seg_chain_length: "seg_chain mss m b segs \<Longrightarrow> length segs \<le> length (seg_bytes segs)"
proof (induction segs arbitrary: m b)
  case (Cons p ps)
  then have "length ps \<le> length (seg_bytes ps)" "p_buffer p \<noteq> []" by auto
  then show ?case by (cases "p_buffer p") simp_all
qed simp

text \<open>
  The segments of a chain, whatever route each has come by, that reach a connection that has read
  nothing yet: the incoming queue holds the bytes of the chain.
\<close>

lemma chain_arrives:
  assumes "seg_chain mss 0 b segs" and "length segs < 2 ^ 64" and "segs \<noteq> []"
    and "distinct is" and "set is = {..<length segs}"
    and "queue_ok q w" and "receiving k c (sink.Queue q # r) w"
    and "m_next_incoming_seq (w_tcp w k) = 0" and "m_incoming_queue (w_tcp w k) = []"
    and "m_reorder_buffer (w_tcp w k) = Map.empty"
  obtains w' p ps where "eachE (tcp_incoming_packet (forward_packet (Suc n)) fuel k) (map (\<lambda>i. (segs ! i)\<lparr>p_hops := hops i\<rparr>) is) w = Inr w'"
    and "m_incoming_queue (w_tcp w' k) = p # ps" and "p_type p = Payload" and "readable (p # ps)"
    and "stream (p # ps) = seg_bytes segs" and "same_end (w_tcp w k) (w_tcp w' k)" and "m_channel (w_tcp w' k) \<noteq> None"
proof -
  let ?pk = "\<lambda>i. (segs ! i)\<lparr>p_hops := hops i\<rparr>"
  have re: "reassembled ?pk {} (w_tcp w k)"
    using assms(8-10) by (auto simp: reassembled_def)
  have "\<not> ok_to_drop (ack_packet p h)" for p h
    by (simp add: ack_packet_def ok_to_drop_def)
  moreover have "\<forall>i \<in> set is. p_seq_nr (?pk i) = of_nat i \<and> p_type (?pk i) \<in> {Payload, Error}"
    using seg_chain_nth [OF assms(1)] assms(5) by auto
  ultimately obtain w' where w': "eachE (tcp_incoming_packet (forward_packet (Suc n)) fuel k) (map ?pk is) w = Inr w'"
    "reassembled ?pk (set is \<union> {}) (w_tcp w' k)" "same_end (w_tcp w k) (w_tcp w' k)" "receiving k c (sink.Queue q # r) w'"
    using control.arrivals_reassemble [OF assms(6,7) re, of "is" "length segs" n fuel] assms(2,4,5) by auto
  then obtain f where "{..<f} \<subseteq> {..<length segs}" "f \<notin> {..<length segs}"
    and q: "m_incoming_queue (w_tcp w' k) = map ?pk [0..<f]"
    by (auto simp: reassembled_def assms(5))
  then have f: "f = length segs"
    by (simp add: lessThan_subset_iff)
  have "stream (map ?pk [0..<j]) = seg_bytes (take j segs) \<and> readable (map ?pk [0..<j])" if "j \<le> length segs" for j
    using that
  proof (induction j)
    case (Suc j)
    have app: "stream (xs @ [x]) = stream xs @ p_buffer x" if "\<forall>y \<in> set xs. p_type y = Payload" "p_type x = Payload" for xs x
      using that by (induction xs) auto
    have "\<forall>y \<in> set (map ?pk [0..<j]). p_type y = Payload"
      using seg_chain_nth [OF assms(1)] Suc.prems by auto
    then show ?case
      using Suc seg_chain_nth [OF assms(1), of j] app [of "map ?pk [0..<j]" "?pk j"]
      by (simp add: take_Suc_conv_app_nth readable_def)
  qed (simp add: readable_def)
  from this [of f] f have s: "stream (map ?pk [0..<f]) = seg_bytes segs" "readable (map ?pk [0..<f])" by simp_all
  have "map ?pk [0..<f] = ?pk 0 # map ?pk [1..<f]"
    using assms(3) f by (simp add: upt_conv_Cons)
  moreover have "p_type (?pk 0) = Payload" using seg_chain_nth [OF assms(1), of 0] assms(3) by simp
  ultimately show ?thesis
    using that [OF w'(1), of "?pk 0" "map ?pk [1..<f]"] s q w'(3,4) by (auto simp: receiving_def)
qed
text \<open>
  C2. What one side writes the other reads, however the network reorders it. A first write on an
  established connection is accepted in part or whole and cut into segments that enter the
  queue in order. When those segments, by whatever routes, have reached a connection that has
  received nothing yet in an arbitrary order, in whatever state the rest of the world is by then,
  a read puts the bytes that were written into its buffers, as many as were accepted or as fit,
  and what does not fit stays to be read.
\<close>

theorem written_stream_is_read:
  assumes "queue_ok q w" and "q_max_queue_size (w_queues w q) \<le> 0"
    and "sending k c i (sink.Queue q # r) w" and "c_ep (w_channels w c) 0 \<noteq> c_ep (w_channels w c) 1"
    and "m_open (w_tcp w k)" and "m_connect_handler (w_tcp w k) = None" and "\<not> window_full (w_tcp w k)"
    and "0 \<le> m_bytes_in_flight (w_tcp w k)" and "0 < buffer_size bufs" and "buffer_size bufs < 2 ^ 64"
    and "m_next_outgoing_seq (w_tcp w k) = 0"
    and "queue_ok q' v" and "receiving j d (sink.Queue q' # r') v"
    and "m_open (w_tcp v j)" and "m_connect_handler (w_tcp v j) = None"
    and "m_next_incoming_seq (w_tcp v j) = 0" and "m_incoming_queue (w_tcp v j) = []"
    and "m_reorder_buffer (w_tcp v j) = Map.empty"
    and "0 < buffer_size rbufs" and "distinct (addrs rbufs)"
  shows "\<exists>n w' segs. write_some_impl (forward_packet (Suc fuel)) k bufs success w = Inr (n, success, w') \<and> 0 < n \<and>
    n \<le> buffer_size bufs \<and> queue_packets q w' = queue_packets q w @ map (\<lambda>p. p\<lparr>p_hops := r\<rparr>) segs \<and>
    (\<forall>is hops. distinct is \<and> set is = {..<length segs} \<longrightarrow>
      (\<exists>v1 v2 m. eachE (tcp_incoming_packet (forward_packet (Suc fuel)) fuel' j)
          (map (\<lambda>i. (segs ! i)\<lparr>p_hops := hops i\<rparr>) is) v = Inr v1 \<and>
        read_some_impl j rbufs v1 = Inr (m, success, v2) \<and> m = min n (buffer_size rbufs) \<and>
        map (w_mem v2) (take m (addrs rbufs)) = take m (map (w_mem w) (addrs bufs)) \<and>
        stream (m_incoming_queue (w_tcp v2 j)) = drop m (take n (map (w_mem w) (addrs bufs)))))"
proof -
  obtain n w' segs where wr: "write_some_impl (forward_packet (Suc fuel)) k bufs success w = Inr (n, success, w')"
    "has_sent k c i w segs w'" "0 < n" "n \<le> buffer_size bufs" "length (seg_bytes segs) = n"
    "seg_bytes segs = take n (map (w_mem w) (addrs bufs))"
    "queue_packets q w' = queue_packets q w @ map (\<lambda>p. p\<lparr>p_hops := r\<rparr>) segs" "segs \<noteq> []"
    using write_some_sends [OF assms(1-9), of fuel] by blast
  have chain: "seg_chain (m_mss (w_tcp w k)) 0 (c_bytes_sent (w_channels w c) i) segs"
    using wr(2) assms(11) by (simp add: has_sent_def Let_def)
  then have len: "length segs < 2 ^ 64"
    using seg_chain_length [OF chain] wr(4,5) assms(10) by linarith
  have "\<exists>v1 v2 m. eachE (tcp_incoming_packet (forward_packet (Suc fuel)) fuel' j)
          (map (\<lambda>i. (segs ! i)\<lparr>p_hops := hops i\<rparr>) is) v = Inr v1 \<and>
        read_some_impl j rbufs v1 = Inr (m, success, v2) \<and> m = min n (buffer_size rbufs) \<and>
        map (w_mem v2) (take m (addrs rbufs)) = take m (map (w_mem w) (addrs bufs)) \<and>
        stream (m_incoming_queue (w_tcp v2 j)) = drop m (take n (map (w_mem w) (addrs bufs)))"
    if perm: "distinct is" "set is = {..<length segs}" for "is" hops
  proof -
    obtain v1 p ps where v1: "eachE (tcp_incoming_packet (forward_packet (Suc fuel)) fuel' j)
        (map (\<lambda>i. (segs ! i)\<lparr>p_hops := hops i\<rparr>) is) v = Inr v1"
      "m_incoming_queue (w_tcp v1 j) = p # ps" "p_type p = Payload" "readable (p # ps)"
      "stream (p # ps) = seg_bytes segs" "same_end (w_tcp v j) (w_tcp v1 j)" "m_channel (w_tcp v1 j) \<noteq> None"
      by (rule chain_arrives [OF chain len wr(8) perm assms(12,13,16-18)])
    have "m_open (w_tcp v1 j)" "m_connect_handler (w_tcp v1 j) = None"
      using v1(6) assms(14,15) by (simp_all add: same_end_def)
    from read_some_reads [OF this(1) v1(7) this(2) v1(2-4) assms(19,20)] obtain m v2 where
      "read_some_impl j rbufs v1 = Inr (m, success, v2)" "m = min (length (stream (p # ps))) (buffer_size rbufs)"
      "map (w_mem v2) (take m (addrs rbufs)) = take m (stream (p # ps))"
      "stream (m_incoming_queue (w_tcp v2 j)) = drop m (stream (p # ps))" by blast
    moreover from this(2) have "take m (take n xs) = take m xs" for xs :: "byte list"
      using wr(5) v1(5) by (simp add: min_def)
    ultimately show ?thesis
      using v1(1) unfolding v1(5) wr(5) by (intro exI [of _ v1] exI [of _ v2] exI [of _ m]) (simp add: wr(6))
  qed
  then show ?thesis using wr(1,3,4,7) by blast
qed

definition sender_world :: "nat world" where
  "sender_world = upd_tcp 5 (\<lambda>s. s\<lparr>m_open := True, m_channel := Some 0, m_mss := 2\<rparr>)
    (upd_channel 0 (\<lambda>ch. ch\<lparr>c_hops := (\<lambda>_. [sink.Queue 3]),
      c_ep := (\<lambda>_. default_endpoint)(1 := Endpoint (V4 7) 80)\<rparr>) (empty_world\<lparr>w_mem := (\<lambda>a. of_nat a)\<rparr>))"

definition receiver_world :: "nat world" where
  "receiver_world = upd_tcp 6 (\<lambda>s. s\<lparr>m_open := True, m_channel := Some 0\<rparr>)
    (upd_channel 0 (\<lambda>ch. ch\<lparr>c_hops := (\<lambda>_. [sink.Queue 4])\<rparr>) empty_world)"

lemma written_stream_is_read_witness:
  "\<exists>n w' segs. write_some_impl (forward_packet 1) 5 [(10, 4)] success sender_world = Inr (n, success, w') \<and> 0 < n \<and>
    (\<exists>v1 v2. eachE (tcp_incoming_packet (forward_packet 1) 0 6)
        (map (\<lambda>i. (segs ! i)\<lparr>p_hops := []\<rparr>) (rev [0..<length segs])) receiver_world = Inr v1 \<and>
      read_some_impl 6 [(500, 6)] v1 = Inr (n, success, v2) \<and>
      map (w_mem v2) (take n [500..<506]) = take n (map (\<lambda>a. of_nat a) [10..<14]))"
proof -
  have s: "queue_ok 3 sender_world" "q_max_queue_size (w_queues sender_world 3) \<le> 0"
    "sending 5 0 0 (sink.Queue 3 # []) sender_world" "c_ep (w_channels sender_world 0) 0 \<noteq> c_ep (w_channels sender_world 0) 1"
    "m_open (w_tcp sender_world 5)" "m_connect_handler (w_tcp sender_world 5) = None" "\<not> window_full (w_tcp sender_world 5)"
    "0 \<le> m_bytes_in_flight (w_tcp sender_world 5)" "m_next_outgoing_seq (w_tcp sender_world 5) = 0"
    "w_mem sender_world = (\<lambda>a. of_nat a)"
    using empty_world_ok [of 3] queue_ok_frame [of sender_world empty_world 3]
    by (simp_all add: sender_world_def new_world_def new_tcp_socket_def sending_def self_idx_def window_full_def
        default_endpoint_def default_address_def)
  have b: "0 < buffer_size [(10 :: nat, 4 :: nat)]" "buffer_size [(10 :: nat, 4 :: nat)] < 2 ^ 64"
    "0 < buffer_size [(500 :: nat, 6 :: nat)]" "distinct (addrs [(500, 6)])"
    "buffer_size [(10, 4)] = 4" "buffer_size [(500, 6)] = 6"
    by (simp_all add: buffer_size_def)
  have v: "queue_ok 4 receiver_world" "receiving 6 0 (sink.Queue 4 # []) receiver_world" "m_open (w_tcp receiver_world 6)"
    "m_connect_handler (w_tcp receiver_world 6) = None" "m_next_incoming_seq (w_tcp receiver_world 6) = 0"
    "m_incoming_queue (w_tcp receiver_world 6) = []" "m_reorder_buffer (w_tcp receiver_world 6) = Map.empty"
    using empty_world_ok [of 4] queue_ok_frame [of receiver_world empty_world 4]
    by (simp_all add: receiver_world_def receiving_def new_world_def new_tcp_socket_def remote_idx_def)
  obtain n w' segs where w: "write_some_impl (forward_packet (Suc 0)) 5 [(10, 4)] success sender_world = Inr (n, success, w')"
    "0 < n" "n \<le> 4" and r: "\<forall>is hops. distinct is \<and> set is = {..<length segs} \<longrightarrow>
      (\<exists>v1 v2 m. eachE (tcp_incoming_packet (forward_packet (Suc 0)) 0 6)
          (map (\<lambda>i. (segs ! i)\<lparr>p_hops := hops i\<rparr>) is) receiver_world = Inr v1 \<and>
        read_some_impl 6 [(500, 6)] v1 = Inr (m, success, v2) \<and> m = min n 6 \<and>
        map (w_mem v2) (take m (addrs [(500, 6)])) = take m (map (w_mem sender_world) (addrs [(10, 4)])) \<and>
        stream (m_incoming_queue (w_tcp v2 6)) = drop m (take n (map (w_mem sender_world) (addrs [(10, 4)]))))"
    using written_stream_is_read [OF s(1-8) b(1,2) s(9) v b(3,4), of 0 0] unfolding b(5,6)
    by (elim exE conjE) (rule that; assumption)
  have "distinct (rev [0..<length segs]) \<and> set (rev [0..<length segs]) = {..<length segs}" by auto
  with r [rule_format, of "rev [0..<length segs]" "\<lambda>_. []"] obtain v1 v2 m where
    r': "eachE (tcp_incoming_packet (forward_packet (Suc 0)) 0 6)
          (map (\<lambda>i. (segs ! i)\<lparr>p_hops := []\<rparr>) (rev [0..<length segs])) receiver_world = Inr v1"
    "read_some_impl 6 [(500, 6)] v1 = Inr (m, success, v2)" "m = min n 6"
    "map (w_mem v2) (take m (addrs [(500, 6)])) = take m (map (w_mem sender_world) (addrs [(10, 4)]))"
    by blast
  have m: "m = n" using r'(3) w(3) by simp
  have "addrs [(500, 6)] = [500..<506]" "addrs [(10, 4)] = [10..<14]"
    by simp_all
  then have "map (w_mem v2) (take n [500..<506]) = take n (map (\<lambda>a. of_nat a) [10..<14])"
    using r'(4) unfolding m s(10) by metis
  then show ?thesis
    using w(1,2) r'(1,2) unfolding m One_nat_def by blast
qed

end
