(* ===== verification/Decimal.thy ===== *)
theory Decimal
  imports Sim_Prelude
begin

text \<open>
  Numbers in decimal, as the C and C++ libraries read and print them: \<open>atoi\<close> (the resolver and
  the HTTP proxy), \<open>std::to_string\<close> and \<open>std::stoll\<close> (the HTTP server), with the fact that
  reading what was printed gives the number back.
\<close>

section \<open>Reading\<close>

definition is_digit :: "char \<Rightarrow> bool" where
  "is_digit c \<longleftrightarrow> of_char c \<in> {48 .. 57 :: nat}"

definition is_space :: "char \<Rightarrow> bool" where
  "is_space c \<longleftrightarrow> of_char c \<in> {9, 10, 11, 12, 13, 32 :: nat}"

definition digits_value :: "string \<Rightarrow> int" where
  "digits_value s = foldl (\<lambda>n c. 10 * n + (of_char c - 48)) 0 s"

text \<open>\<open>atoi\<close> of the C library, for numbers an \<open>int\<close> can hold.\<close>

definition atoi :: "string \<Rightarrow> int" where
  "atoi s =
    (let t = dropWhile is_space s in
     case t of
       [] \<Rightarrow> 0
     | c # u \<Rightarrow>
         if c = CHR ''-'' then - digits_value (takeWhile is_digit u)
         else if c = CHR ''+'' then digits_value (takeWhile is_digit u)
         else digits_value (takeWhile is_digit t))"

text \<open>\<open>std::stoll\<close> throws logic errors.\<close>

definition stoll :: "string \<Rightarrow> fault + int" where
  "stoll s =
    (let t = dropWhile is_space s;
         negative = (t \<noteq> [] \<and> hd t = CHR ''-'');
         ds = takeWhile is_digit (if t \<noteq> [] \<and> (hd t = CHR ''-'' \<or> hd t = CHR ''+'') then tl t else t);
         v = (if negative then - digits_value ds else digits_value ds)
     in if ds = [] then Inl (Logic_error ''invalid_argument'')
        else if v < - (2 ^ 63) \<or> 2 ^ 63 \<le> v then Inl (Logic_error ''out_of_range'')
        else Inr v)"

section \<open>Printing\<close>

definition digit :: "nat \<Rightarrow> char" where
  "digit d = char_of (48 + d)"

fun nat_string :: "nat \<Rightarrow> string" where
  "nat_string n = (if n < 10 then [digit n] else nat_string (n div 10) @ [digit (n mod 10)])"

declare nat_string.simps [simp del]

definition to_string :: "int \<Rightarrow> string" where
  "to_string i = (if i < 0 then CHR ''-'' # nat_string (nat (- i)) else nat_string (nat i))"

section \<open>Reading what was printed\<close>

lemma of_char_digit [simp]: "d < 10 \<Longrightarrow> (of_char (digit d) :: nat) = 48 + d" "d < 10 \<Longrightarrow> (of_char (digit d) :: int) = 48 + int d"
proof -
  assume "d < 10"
  then show n: "(of_char (digit d) :: nat) = 48 + d"
    by (simp add: digit_def)
  have "(of_char (digit d) :: int) = int (of_char (digit d))"
    by (simp only: of_nat_of_char)
  with n show "(of_char (digit d) :: int) = 48 + int d" by simp
qed

lemma digit_chars:
  "digit 0 = CHR ''0''" "digit 1 = CHR ''1''" "digit (Suc 0) = CHR ''1''" "digit 2 = CHR ''2''" "digit 3 = CHR ''3''"
  "digit 4 = CHR ''4''" "digit 5 = CHR ''5''" "digit 6 = CHR ''6''" "digit 7 = CHR ''7''" "digit 8 = CHR ''8''"
  "digit 9 = CHR ''9''"
  by code_simp+

lemma is_digit_digit: "d < 10 \<Longrightarrow> is_digit (digit d)"
  by (simp add: is_digit_def)

lemma nat_string_digits: "list_all is_digit (nat_string n) \<and> nat_string n \<noteq> []"
proof (induction n rule: nat_string.induct)
  case (1 n)
  then show ?case
    by (subst (1 2) nat_string.simps) (auto simp: is_digit_digit)
qed

lemma digits_value_snoc: "digits_value (s @ [c]) = 10 * digits_value s + (of_char c - 48)"
  by (simp add: digits_value_def)

lemma digits_value_nat_string: "digits_value (nat_string n) = int n"
proof (induction n rule: nat_string.induct)
  case (1 n)
  show ?case
  proof (cases "n < 10")
    case True
    then show ?thesis by (subst nat_string.simps) (simp add: digits_value_def)
  next
    case False
    then have "nat_string n = nat_string (n div 10) @ [digit (n mod 10)]"
      by (subst nat_string.simps) simp
    moreover have "10 * int (n div 10) + int (n mod 10) = int n"
      by (simp flip: of_nat_div of_nat_mod add: zdiv_int zmod_int)
    ultimately show ?thesis
      using 1 False by (simp add: digits_value_snoc)
  qed
qed

lemma is_digit_neq:
  "is_digit c \<Longrightarrow> \<not> is_space c" "is_digit c \<Longrightarrow> c \<noteq> CHR ''-''" "is_digit c \<Longrightarrow> c \<noteq> CHR ''+''"
  by (auto simp: is_digit_def is_space_def)

lemma takeWhile_digits:
  "(s \<noteq> [] \<Longrightarrow> \<not> is_digit (hd s)) \<Longrightarrow> takeWhile is_digit (nat_string n @ s) = nat_string n"
  using nat_string_digits [of n] by (cases s) (auto simp: takeWhile_append list_all_iff takeWhile_eq_all_conv)

lemma first_digit: "\<exists>c cs. nat_string n = c # cs \<and> is_digit c"
  using nat_string_digits [of n] by (cases "nat_string n") auto

lemma atoi_to_string:
  assumes "0 \<le> i" and "s \<noteq> [] \<Longrightarrow> \<not> is_digit (hd s)"
  shows "atoi (to_string i @ s) = i"
proof -
  obtain c cs where c: "nat_string (nat i) = c # cs" "is_digit c"
    using first_digit by blast
  have "dropWhile is_space (c # cs @ s) = c # cs @ s" "c \<noteq> CHR ''-''" "c \<noteq> CHR ''+''"
    using is_digit_neq [OF c(2)] by auto
  then show ?thesis
    using assms(1) takeWhile_digits [OF assms(2), of "nat i"] digits_value_nat_string [of "nat i"]
    by (simp add: atoi_def to_string_def c(1))
qed

lemma stoll_to_string:
  assumes "- (2 ^ 63) \<le> i" and "i < 2 ^ 63"
  shows "stoll (to_string i) = Inr i"
proof -
  have digits: "takeWhile is_digit (nat_string n) = nat_string n" for n
    using takeWhile_digits [of "[]" n] by simp
  have ne: "nat_string n \<noteq> []" for n
    using nat_string_digits by simp
  show ?thesis
  proof (cases "i < 0")
    case True
    have "dropWhile is_space (to_string i) = to_string i"
      using True by (simp add: to_string_def is_space_def)
    then show ?thesis
      using True assms by (simp add: stoll_def to_string_def digits ne digits_value_nat_string Let_def)
  next
    case False
    obtain c cs where c: "nat_string (nat i) = c # cs" "is_digit c"
      using first_digit by blast
    have "dropWhile is_space (c # cs) = c # cs" "c \<noteq> CHR ''-''" "c \<noteq> CHR ''+''"
      using is_digit_neq [OF c(2)] by auto
    then show ?thesis
      using False assms digits [of "nat i"] digits_value_nat_string [of "nat i"]
      by (simp add: stoll_def to_string_def c(1) Let_def)
  qed
qed

lemma to_string_plain: "0 \<le> i \<Longrightarrow> c \<in> set (to_string i) \<Longrightarrow> is_digit c"
  using nat_string_digits [of "nat i"] by (auto simp: to_string_def list_all_iff)

end
