(* ===== verification/Resolver.thy ===== *)
theory Resolver
  imports Network Decimal
begin

text \<open>
  \<open>basic_resolver\<close> (\<open>resolver.cpp\<close>): a queue of lookups with the time each completes, and one
  timer for the first of them. \<open>boost::asio\<close>'s \<open>make_address_v4\<close> and \<open>make_address_v6\<close> are the
  parameter \<open>make_address\<close> (the address a name denotes, if it is one). A handler of the
  application is called in place, through the parameter \<open>call\<close>.
\<close>

section \<open>Operations\<close>

definition upd_resolver :: "nat \<Rightarrow> ('u resolver \<Rightarrow> 'u resolver) \<Rightarrow> 'u world \<Rightarrow> 'u world" where
  "upd_resolver r f w = w\<lparr>w_resolvers := (w_resolvers w)(r := f (w_resolvers w r))\<rparr>"

definition resolver_construct :: "nat \<Rightarrow> 'u world \<Rightarrow> nat \<times> 'u world" where
  "resolver_construct ios w =
    (let r = w_next_id w;
         w1 = upd_resolver r (\<lambda>_. \<lparr>m_ios = ios, m_queue = []\<rparr>) (w\<lparr>w_next_id := Suc r\<rparr>)
     in (r, upd_sched (timer_construct (Lookup_timer r)) w1))"

text \<open>\<open>m_timer.expires_at(m_queue.front().completion_time); m_timer.async_wait(...)\<close>\<close>

definition arm_lookup :: "nat \<Rightarrow> 'u world \<Rightarrow> fault + 'u world" where
  "arm_lookup r w =
    (case m_queue (w_resolvers w r) of
       [] \<Rightarrow> Inl Undefined_behaviour
     | x # _ \<Rightarrow>
         bindE (timer_expires_at (Lookup_timer r) (completion_time x) w)
           (timer_async_wait (Lookup_timer r) (On_lookup r)))"

definition service_port :: "string \<Rightarrow> fault + 16 word" where
  "service_port service =
    (let port = atoi service in
     bindE (assertE (0 \<le> port \<and> port \<le> 0xffff)) (\<lambda>_. Inr (word_of_int port)))"

definition async_resolve ::
  "(string \<Rightarrow> address option) \<Rightarrow> nat \<Rightarrow> string \<Rightarrow> string \<Rightarrow> 'u lookup_handler \<Rightarrow> 'u world \<Rightarrow> fault + 'u world" where
  "async_resolve make_address r hostname service handler w =
    (let x = w_resolvers w r; time = now (w_sched w);
         start_time = (case m_queue x of [] \<Rightarrow> time | y # _ \<Rightarrow> completion_time y)
     in bindE (node_of (m_ios x) w) (\<lambda>n.
        bindE (assertE (m_ips n \<noteq> [])) (\<lambda>_.
        case make_address hostname of
          Some addr \<Rightarrow>
            bindE (service_port service) (\<lambda>port.
            let e = \<lparr>e_endpoint = Endpoint addr port, e_host_name = hostname, e_service = service\<rparr>;
                res = \<lparr>completion_time = time + 1000, r_err = success, r_ips = [e], r_handler = handler\<rparr>
            in arm_lookup r (upd_resolver r (\<lambda>x. x\<lparr>m_queue := res # m_queue x\<rparr>) w))
        | None \<Rightarrow>
            let (result, ec, latency) = hostname_lookup (w_config w) (hd (m_ips n)) hostname in
            bindE (service_port service) (\<lambda>port.
            let ips = map (\<lambda>ip. \<lparr>e_endpoint = Endpoint ip port, e_host_name = hostname,
                       e_service = service\<rparr>) result;
                res = \<lparr>completion_time = start_time + latency, r_err = ec, r_ips = ips, r_handler = handler\<rparr>
            in arm_lookup r (upd_resolver r (\<lambda>x. x\<lparr>m_queue := m_queue x @ [res]\<rparr>) w)))))"

definition on_lookup ::
  "('u job \<Rightarrow> 'u world \<Rightarrow> fault + 'u world) \<Rightarrow> nat \<Rightarrow> error_code \<Rightarrow> 'u world \<Rightarrow> fault + 'u world" where
  "on_lookup call r ec w =
    (if ec = operation_aborted then Inr w
     else case m_queue (w_resolvers w r) of
       [] \<Rightarrow> Inr w
     | v # rest \<Rightarrow>
         bindE (call (r_handler v (r_err v) (r_ips v)) (upd_resolver r (\<lambda>x. x\<lparr>m_queue := rest\<rparr>) w)) (\<lambda>w1.
         if rest = [] then Inr w1 else arm_lookup r w1))"

definition resolver_cancel :: "nat \<Rightarrow> 'u world \<Rightarrow> 'u world" where
  "resolver_cancel r w =
    foldl (\<lambda>w v. post_job (r_handler v operation_aborted (r_ips v)) w)
      (upd_resolver r (\<lambda>x. x\<lparr>m_queue := []\<rparr>) w) (m_queue (w_resolvers w r))"

section \<open>Properties\<close>

lemma upd_resolver_simps [simp]:
  "w_resolvers (upd_resolver r f w) = (w_resolvers w)(r := f (w_resolvers w r))"
  "w_sched (upd_resolver r f w) = w_sched w" "w_tcp (upd_resolver r f w) = w_tcp w"
  "w_nodes (upd_resolver r f w) = w_nodes w" "w_config (upd_resolver r f w) = w_config w"
  by (simp_all add: upd_resolver_def)

lemma arm_lookup_ok:
  assumes "sched_ok (w_sched w)" and "m_queue (w_resolvers w r) = x # q"
  obtains s where "arm_lookup r w = Inr (w\<lparr>w_sched := s\<rparr>)" and "sched_ok s"
    and "timers s (Lookup_timer r) =
      \<lparr>m_expiration_time = completion_time x, m_handler = Some (On_lookup r), m_expired = False\<rparr>"
    and "g_simulation_time s = g_simulation_time (w_sched w)"
proof -
  obtain s where s: "bindE (timer_expires_at (Lookup_timer r) (completion_time x) w)
      (timer_async_wait (Lookup_timer r) (On_lookup r)) = Inr (w\<lparr>w_sched := s\<rparr>)" "sched_ok s"
    "timers s = (timers (w_sched w))(Lookup_timer r :=
      \<lparr>m_expiration_time = completion_time x, m_handler = Some (On_lookup r), m_expired = False\<rparr>)"
    "g_simulation_time s = g_simulation_time (w_sched w)"
    by (rule arm_and_wait_ok [OF assms(1), of "Lookup_timer r" "completion_time x" "On_lookup r"])
  from s(1) have "arm_lookup r w = Inr (w\<lparr>w_sched := s\<rparr>)"
    by (simp add: arm_lookup_def assms(2))
  from this s(2) _ s(4) show ?thesis
    by (rule that) (simp add: s(3))
qed

text \<open>
  C35. Looking up a name never aborts on a node with an address and a service that is a port
  number. The lookup keeps its handler, its answers carry the port, and the timer is armed for the
  first lookup of the queue. A name joins the queue at the end, and is due the latency after the
  first lookup of the queue is (after now, when the queue is empty), whatever the lookups in
  between; a literal address goes to the front and is due after a microsecond, with itself as the
  answer.
\<close>

theorem async_resolve_queues:
  assumes "sched_ok (w_sched w)" and "w_nodes w (m_ios (w_resolvers w r)) = Some n" and "m_ips n = a # ips"
    and "service_port service = Inr port"
    and "hostname_lookup (w_config w) a name = (result, ec, latency)"
  shows "\<exists>w' res. async_resolve make_address r name service h w = Inr w' \<and> r_handler res = h \<and>
    (case make_address name of
       None \<Rightarrow>
         m_queue (w_resolvers w' r) = m_queue (w_resolvers w r) @ [res] \<and> r_err res = ec \<and>
         map e_endpoint (r_ips res) = map (\<lambda>ip. Endpoint ip port) result \<and>
         completion_time res =
           (case m_queue (w_resolvers w r) of [] \<Rightarrow> now (w_sched w) | y # _ \<Rightarrow> completion_time y) + latency
     | Some addr \<Rightarrow>
         m_queue (w_resolvers w' r) = res # m_queue (w_resolvers w r) \<and> r_err res = success \<and>
         map e_endpoint (r_ips res) = [Endpoint addr port] \<and> completion_time res = now (w_sched w) + 1000) \<and>
    \<not> m_expired (timers (w_sched w') (Lookup_timer r)) \<and>
    expiry (w_sched w') (Lookup_timer r) = completion_time (hd (m_queue (w_resolvers w' r)))"
proof -
  let ?q = "m_queue (w_resolvers w r)"
  define res where "res = (case make_address name of
      None \<Rightarrow> \<lparr>completion_time = (case ?q of [] \<Rightarrow> now (w_sched w) | y # _ \<Rightarrow> completion_time y) + latency,
        r_err = ec, r_ips = map (\<lambda>ip. \<lparr>e_endpoint = Endpoint ip port, e_host_name = name,
          e_service = service\<rparr>) result, r_handler = h\<rparr>
    | Some addr \<Rightarrow> \<lparr>completion_time = now (w_sched w) + 1000, r_err = success,
        r_ips = [\<lparr>e_endpoint = Endpoint addr port, e_host_name = name, e_service = service\<rparr>], r_handler = h\<rparr>)"
  define q where "q = (if make_address name = None then ?q @ [res] else res # ?q)"
  define w1 where "w1 = upd_resolver r (\<lambda>x. x\<lparr>m_queue := q\<rparr>) w"
  have upd: "upd_resolver r (\<lambda>x. x\<lparr>m_queue := m_queue x @ [res]\<rparr>) w = w1" if "make_address name = None"
    using that by (simp add: w1_def q_def upd_resolver_def)
  have upd': "upd_resolver r (\<lambda>x. x\<lparr>m_queue := res # m_queue x\<rparr>) w = w1" if "make_address name = Some addr" for addr
    using that by (simp add: w1_def q_def upd_resolver_def)
  have run: "async_resolve make_address r name service h w = arm_lookup r w1"
  proof (cases "make_address name")
    case None
    with upd show ?thesis
      using assms(2-5) by (simp add: async_resolve_def node_of_def Let_def res_def)
  next
    case (Some addr)
    with upd' [OF Some] show ?thesis
      using assms(2-5) by (simp add: async_resolve_def node_of_def Let_def res_def)
  qed
  obtain x xs where xq: "q = x # xs" by (cases q) (auto simp: q_def split: if_splits)
  obtain s where s: "arm_lookup r w1 = Inr (w1\<lparr>w_sched := s\<rparr>)"
    "timers s (Lookup_timer r) =
      \<lparr>m_expiration_time = completion_time x, m_handler = Some (On_lookup r), m_expired = False\<rparr>"
    using arm_lookup_ok [of w1 r x xs] assms(1) xq by (auto simp: w1_def)
  have queue: "m_queue (w_resolvers (w1\<lparr>w_sched := s\<rparr>) r) = q" by (simp add: w1_def)
  have timer: "\<not> m_expired (timers s (Lookup_timer r))" "expiry s (Lookup_timer r) = completion_time (hd q)"
    by (simp_all add: s(2) expiry_def xq)
  show ?thesis
    using run s(1) queue timer
    by (intro exI [of _ "w1\<lparr>w_sched := s\<rparr>"] exI [of _ res]) (auto simp: q_def res_def split: option.splits)
qed

definition lookup_world :: "nat world" where
  "lookup_world = empty_world\<lparr>w_nodes := [0 \<mapsto> \<lparr>m_ips = [V4 9], m_outgoing_route = [], m_incoming_route = [],
      m_ios_stopped = False\<rparr>],
    w_config := \<lparr>channel_route = (\<lambda>_ _. []), path_mtu = (\<lambda>_ _. 1475),
      hostname_lookup = (\<lambda>_ s. ([V4 7], success, int (length s)))\<rparr>\<rparr>"

definition waiting_lookups :: "nat world" where
  "waiting_lookups = upd_resolver 4 (\<lambda>x. x\<lparr>m_queue :=
    map (\<lambda>t. \<lparr>completion_time = t, r_err = success, r_ips = [], r_handler = (\<lambda>_ _. App 1)\<rparr>) [5, 10]\<rparr>) lookup_world"

text \<open>
  Three lookups made at time 0 that take 5, 5 and 3: the third is due at 8, after the first, although
  the second is before it in the queue and is due at 10.
\<close>

lemma async_resolve_queues_witness:
  "\<exists>w' res. async_resolve (\<lambda>_. None) 4 ''abc'' ''80'' (\<lambda>_ _. App 1) waiting_lookups = Inr w' \<and>
    map completion_time (m_queue (w_resolvers w' 4)) = [5, 10, 8] \<and>
    map e_endpoint (r_ips (last (m_queue (w_resolvers w' 4)))) = [Endpoint (V4 7) 80] \<and>
    expiry (w_sched w') (Lookup_timer 4) = 5"
proof -
  have w: "sched_ok (w_sched waiting_lookups)" "m_ios (w_resolvers waiting_lookups 4) = 0"
    "w_nodes waiting_lookups 0 = Some \<lparr>m_ips = [V4 9], m_outgoing_route = [], m_incoming_route = [],
      m_ios_stopped = False\<rparr>"
    "hostname_lookup (w_config waiting_lookups) (V4 9) ''abc'' = ([V4 7], success, 3)"
    "map completion_time (m_queue (w_resolvers waiting_lookups 4)) = [5, 10]"
    by (simp_all add: waiting_lookups_def lookup_world_def sched_ok_def new_world_def new_timer_def)
  have "service_port ''80'' = Inr 80"
    by (simp add: service_port_def atoi_def is_space_def is_digit_def digits_value_def)
  with async_resolve_queues [of waiting_lookups 4 _ "V4 9" "[]" "''80''" 80 "''abc''" "[V4 7]" success 3 "\<lambda>_. None"]
    w obtain w' res where r: "async_resolve (\<lambda>_. None) 4 ''abc'' ''80'' (\<lambda>_ _. App 1) waiting_lookups = Inr w'"
    "m_queue (w_resolvers w' 4) = m_queue (w_resolvers waiting_lookups 4) @ [res]"
    "map e_endpoint (r_ips res) = [Endpoint (V4 7) 80]"
    "completion_time res = (case m_queue (w_resolvers waiting_lookups 4) of [] \<Rightarrow> now (w_sched waiting_lookups)
       | y # _ \<Rightarrow> completion_time y) + 3"
    "expiry (w_sched w') (Lookup_timer 4) = completion_time (hd (m_queue (w_resolvers w' 4)))"
    by force
  moreover obtain y z where "m_queue (w_resolvers waiting_lookups 4) = [y, z]" "completion_time y = 5" "completion_time z = 10"
    using w(5) by auto
  ultimately show ?thesis by auto
qed

text \<open>
  Cancelling a resolver posts the handler of every lookup in the queue, once and in order,
  with \<open>operation_aborted\<close>, and leaves the queue empty.
\<close>

theorem resolver_cancel_posts_each:
  fixes w :: "'u world"
  shows "w_resolvers (resolver_cancel r w) = (w_resolvers w)(r := (w_resolvers w r)\<lparr>m_queue := []\<rparr>) \<and>
   m_service (w_sched (resolver_cancel r w)) = m_service (w_sched w) @
     map (\<lambda>v. r_handler v operation_aborted (r_ips v)) (m_queue (w_resolvers w r))"
proof -
  have "w_resolvers (foldl (\<lambda>w v. post_job (r_handler v operation_aborted (r_ips v)) w) u vs) = w_resolvers u \<and>
      m_service (w_sched (foldl (\<lambda>w v. post_job (r_handler v operation_aborted (r_ips v)) w) u vs)) =
      m_service (w_sched u) @ map (\<lambda>v. r_handler v operation_aborted (r_ips v)) vs" for u :: "'u world" and vs :: "'u result_t list"
    by (induction vs arbitrary: u) simp_all
  then show ?thesis by (simp add: resolver_cancel_def)
qed

end
