(* ===== verification/Default_Config.thy ===== *)
theory Default_Config
  imports Network
begin

text \<open>
  \<open>default_config\<close> (\<open>default_config.cpp\<close>) and the construction of nodes with it
  (\<open>io_context\<close>'s constructors and destructor, \<open>simulation::add_io_service\<close>,
  \<open>remove_io_service\<close>, \<open>get_all_io_services\<close>). The configuration's routes are asked while a
  node is built and allocate a queue per address on first use.
\<close>

section \<open>The configuration\<close>

record default_config =
  d_network :: "nat option"
  d_incoming :: "(address, nat) ord_map"
  d_outgoing :: "(address, nat) ord_map"

definition empty_config :: default_config where
  "empty_config = \<lparr>d_network = None, d_incoming = [], d_outgoing = []\<rparr>"

definition config_build :: "default_config \<Rightarrow> 'u world \<Rightarrow> default_config \<times> 'u world" where
  "config_build d w = (let (q, w') = queue_construct 0 30000000 0 w in (d\<lparr>d_network := Some q\<rparr>, w'))"

definition config_clear :: "default_config \<Rightarrow> default_config" where
  "config_clear d = d\<lparr>d_network := None, d_outgoing := [], d_incoming := []\<rparr>"

text \<open>\<open>clear\<close> is called when the simulation ends; nothing asks for a route after that.\<close>

definition config_channel_route :: "default_config \<Rightarrow> address \<Rightarrow> address \<Rightarrow> route" where
  "config_channel_route d src dst =
    (case d_network d of None \<Rightarrow> [] | Some q \<Rightarrow> route_append_sink (sink.Queue q) [])"

definition config_incoming_route :: "address \<Rightarrow> default_config \<Rightarrow> 'u world \<Rightarrow> route \<times> default_config \<times> 'u world" where
  "config_incoming_route ip d w =
    (case om_find ip (d_incoming d) of
       Some q \<Rightarrow> ([sink.Queue q], d, w)
     | None \<Rightarrow>
         let (q, w') = queue_construct (800 * 1000) 1000000 (200 * 1000) w
         in ([sink.Queue q], d\<lparr>d_incoming := om_insert ip q (d_incoming d)\<rparr>, w'))"

definition config_path_mtu :: "address \<Rightarrow> address \<Rightarrow> int" where
  "config_path_mtu ip1 ip2 = 1475"

definition config_outgoing_route :: "address \<Rightarrow> default_config \<Rightarrow> 'u world \<Rightarrow> route \<times> default_config \<times> 'u world" where
  "config_outgoing_route ip d w =
    (case om_find ip (d_outgoing d) of
       Some q \<Rightarrow> ([sink.Queue q], d, w)
     | None \<Rightarrow>
         let (q, w') = queue_construct (200 * 1000) 1000000 (200 * 1000) w
         in ([sink.Queue q], d\<lparr>d_outgoing := om_insert ip q (d_outgoing d)\<rparr>, w'))"

definition config_hostname_lookup :: "address \<Rightarrow> string \<Rightarrow> address list \<times> error_code \<times> int" where
  "config_hostname_lookup requestor hostname =
    (if hostname = ''localhost'' then ([V6 1, V4 0x7f000001], success, 1000)
     else ([], host_not_found, 100000000))"

text \<open>What the rest of the model asks of it, once the network is built.\<close>

definition default_configuration :: "default_config \<Rightarrow> configuration" where
  "default_configuration d = \<lparr>channel_route = config_channel_route d, path_mtu = config_path_mtu,
    hostname_lookup = config_hostname_lookup\<rparr>"

section \<open>Nodes\<close>

definition om_set :: "'k :: linorder \<Rightarrow> 'v \<Rightarrow> ('k, 'v) ord_map \<Rightarrow> ('k, 'v) ord_map" where
  "om_set k v m = (if om_find k m = None then om_insert k v m else om_assign k v m)"

text \<open>The loop of the constructor, for any configuration with state \<open>'c\<close>.\<close>

type_synonym ('c, 'u) route_fun = "address \<Rightarrow> 'c \<Rightarrow> 'u world \<Rightarrow> route \<times> 'c \<times> 'u world"

fun build_routes ::
  "('c, 'u) route_fun \<Rightarrow> ('c, 'u) route_fun \<Rightarrow> address list \<Rightarrow> node \<Rightarrow> 'c \<Rightarrow> 'u world \<Rightarrow> node \<times> 'c \<times> 'u world" where
  "build_routes outr inr [] n d w = (n, d, w)"
| "build_routes outr inr (ip # ips) n d w =
    (let (r_out, d1, w1) = outr ip d w;
         (r_in, d2, w2) = inr ip d1 w1
     in build_routes outr inr ips (n\<lparr>m_outgoing_route := om_set ip r_out (m_outgoing_route n),
          m_incoming_route := om_set ip r_in (m_incoming_route n)\<rparr>) d2 w2)"

definition add_io_service :: "nat \<Rightarrow> node \<Rightarrow> 'u world \<Rightarrow> fault + 'u world" where
  "add_io_service i n w =
    bindE (assertE (w_nodes w i = None)) (\<lambda>_. Inr (w\<lparr>w_nodes := (w_nodes w)(i \<mapsto> n)\<rparr>))"

definition remove_io_service :: "nat \<Rightarrow> 'u world \<Rightarrow> fault + 'u world" where
  "remove_io_service i w =
    bindE (assertE (w_nodes w i \<noteq> None)) (\<lambda>_. Inr (w\<lparr>w_nodes := (w_nodes w)(i := None)\<rparr>))"

definition io_context_construct ::
  "('c, 'u) route_fun \<Rightarrow> ('c, 'u) route_fun \<Rightarrow> nat \<Rightarrow> address list \<Rightarrow> 'c \<Rightarrow> 'u world \<Rightarrow> fault + ('c \<times> 'u world)" where
  "io_context_construct outr inr i ips d w =
    (let (n, d', w') = build_routes outr inr ips
           \<lparr>m_ips = ips, m_outgoing_route = [], m_incoming_route = [], m_ios_stopped = False\<rparr> d w
     in bindE (add_io_service i n w') (\<lambda>w''. Inr (d', w'')))"

definition io_context_destruct :: "nat \<Rightarrow> 'u world \<Rightarrow> fault + 'u world" where
  "io_context_destruct i w = remove_io_service i w"

text \<open>The nodes with an address, of those listed.\<close>

definition get_all_io_services :: "nat list \<Rightarrow> 'u world \<Rightarrow> nat list" where
  "get_all_io_services is w =
    filter (\<lambda>i. case w_nodes w i of None \<Rightarrow> False | Some n \<Rightarrow> m_ips n \<noteq> []) is"

definition ios_stop :: "nat \<Rightarrow> 'u world \<Rightarrow> 'u world" where
  "ios_stop i w = w\<lparr>w_nodes := (w_nodes w)(i := map_option (\<lambda>n. n\<lparr>m_ios_stopped := True\<rparr>) (w_nodes w i))\<rparr>"

definition ios_restart :: "nat \<Rightarrow> 'u world \<Rightarrow> 'u world" where
  "ios_restart i w = w\<lparr>w_nodes := (w_nodes w)(i := map_option (\<lambda>n. n\<lparr>m_ios_stopped := False\<rparr>) (w_nodes w i))\<rparr>"

section \<open>Routes of a node under the default configuration\<close>

definition modem :: "int \<Rightarrow> nat \<Rightarrow> 'u world \<Rightarrow> bool" where
  "modem rate q w \<longleftrightarrow> q < w_next_id w \<and> q_bandwidth (w_queues w q) = rate \<and>
    q_forwarding_latency (w_queues w q) = 1000000 \<and> q_max_queue_size (w_queues w q) = 200000"

definition modems :: "int \<Rightarrow> (address, nat) ord_map \<Rightarrow> 'u world \<Rightarrow> bool" where
  "modems rate m w \<longleftrightarrow> om_invar m \<and> (\<forall>ip q. om_find ip m = Some q \<longrightarrow> modem rate q w) \<and>
    (\<forall>ip ip' q. om_find ip m = Some q \<longrightarrow> om_find ip' m = Some q \<longrightarrow> ip = ip')"

definition config_wf :: "default_config \<Rightarrow> 'u world \<Rightarrow> bool" where
  "config_wf d w \<longleftrightarrow> modems 200000 (d_outgoing d) w \<and> modems 800000 (d_incoming d) w"

text \<open>The worlds later than \<open>w\<close> in which the queues of \<open>w\<close> are as they were.\<close>

definition more_queues :: "'u world \<Rightarrow> 'u world \<Rightarrow> bool" where
  "more_queues w w' \<longleftrightarrow> w_next_id w \<le> w_next_id w' \<and>
    (\<forall>q < w_next_id w. w_queues w' q = w_queues w q) \<and> w_nodes w' = w_nodes w"

lemma more_queues_refl [simp]: "more_queues w w"
  by (simp add: more_queues_def)

lemma more_queues_trans: "more_queues w w1 \<Longrightarrow> more_queues w1 w2 \<Longrightarrow> more_queues w w2"
  by (auto simp: more_queues_def)

lemma modems_mono: "modems rate m w \<Longrightarrow> more_queues w w' \<Longrightarrow> modems rate m w'"
  by (force simp: modems_def modem_def more_queues_def)

lemma om_find_set:
  assumes "om_invar m"
  shows "om_find j (om_set k v m) = (if j = k then Some v else om_find j m)" and "om_invar (om_set k v m)"
  using assms by (auto simp: om_set_def om_assign_def om.find_insert om.invar_insert om.find_erase om.invar_erase)

text \<open>A queue made for an address that has none.\<close>

lemma modem_made:
  assumes "modems rate m w" and "om_find ip m = None"
    and "queue_construct rate 1000000 200000 w = (q, w')"
  shows "modems rate (om_insert ip q m) w'" and "om_find ip (om_insert ip q m) = Some q"
    and "more_queues w w'" and "om_find j m = Some r \<Longrightarrow> om_find j (om_insert ip q m) = Some r"
proof -
  have q: "q = w_next_id w" "w_next_id w' = Suc q" "q_bandwidth (w_queues w' q) = rate"
    "q_forwarding_latency (w_queues w' q) = 1000000" "q_max_queue_size (w_queues w' q) = 200000"
    and more: "more_queues w w'"
    using assms(3) by (auto simp: queue_construct_def Let_def more_queues_def)
  have inv: "om_invar m" using assms(1) by (simp add: modems_def)
  have old: "r < q" if "om_find j m = Some r" for j r
    using assms(1) that by (auto simp: modems_def modem_def q(1))
  have find: "om_find j (om_insert ip q m) = (if j = ip then Some q else om_find j m)" for j
    using inv assms(2) by (simp add: om.find_insert_fresh)
  show "more_queues w w'" by (rule more)
  show "om_find ip (om_insert ip q m) = Some q" by (simp add: find)
  show "om_find j (om_insert ip q m) = Some r" if "om_find j m = Some r"
    using that assms(2) by (auto simp: find)
  have "modems rate m w'" using assms(1) more by (rule modems_mono)
  moreover have "modem rate q w'" using q by (simp add: modem_def)
  moreover have "om_find j m \<noteq> Some q" for j using old [of j q] by auto
  ultimately show "modems rate (om_insert ip q m) w'"
    using om.invar_insert [OF inv, of ip q] unfolding modems_def find
    by (simp split: if_splits) metis
qed

lemma config_outgoing_route_ok:
  assumes "config_wf d w" and "config_outgoing_route ip d w = (r, d', w')"
  shows "config_wf d' w'" and "more_queues w w'" and "d_incoming d' = d_incoming d"
    and "\<exists>q. r = [sink.Queue q] \<and> om_find ip (d_outgoing d') = Some q"
    and "om_find j (d_outgoing d) = Some x \<Longrightarrow> om_find j (d_outgoing d') = Some x"
proof -
  have m: "modems 200000 (d_outgoing d) w" "modems 800000 (d_incoming d) w"
    using assms(1) by (simp_all add: config_wf_def)
  consider q where "om_find ip (d_outgoing d) = Some q" "r = [sink.Queue q]" "d' = d" "w' = w"
    | q where "om_find ip (d_outgoing d) = None" "queue_construct 200000 1000000 200000 w = (q, w')"
        "r = [sink.Queue q]" "d' = d\<lparr>d_outgoing := om_insert ip q (d_outgoing d)\<rparr>"
    using assms(2) by (auto simp: config_outgoing_route_def split: option.splits prod.splits)
  then have "config_wf d' w' \<and> more_queues w w' \<and> d_incoming d' = d_incoming d \<and>
    (\<exists>q. r = [sink.Queue q] \<and> om_find ip (d_outgoing d') = Some q) \<and>
    (om_find j (d_outgoing d) = Some x \<longrightarrow> om_find j (d_outgoing d') = Some x)"
  proof cases
    case 1
    then show ?thesis using assms(1) by simp
  next
    case 2
    note made = modem_made [OF m(1) 2(1,2)]
    show ?thesis
      using made 2(3,4) modems_mono [OF m(2) made(3)] by (simp add: config_wf_def)
  qed
  then show "config_wf d' w'" and "more_queues w w'" and "d_incoming d' = d_incoming d"
    and "\<exists>q. r = [sink.Queue q] \<and> om_find ip (d_outgoing d') = Some q"
    and "om_find j (d_outgoing d) = Some x \<Longrightarrow> om_find j (d_outgoing d') = Some x"
    by blast+
qed

lemma config_incoming_route_ok:
  assumes "config_wf d w" and "config_incoming_route ip d w = (r, d', w')"
  shows "config_wf d' w'" and "more_queues w w'" and "d_outgoing d' = d_outgoing d"
    and "\<exists>q. r = [sink.Queue q] \<and> om_find ip (d_incoming d') = Some q"
    and "om_find j (d_incoming d) = Some x \<Longrightarrow> om_find j (d_incoming d') = Some x"
proof -
  have m: "modems 200000 (d_outgoing d) w" "modems 800000 (d_incoming d) w"
    using assms(1) by (simp_all add: config_wf_def)
  consider q where "om_find ip (d_incoming d) = Some q" "r = [sink.Queue q]" "d' = d" "w' = w"
    | q where "om_find ip (d_incoming d) = None" "queue_construct 800000 1000000 200000 w = (q, w')"
        "r = [sink.Queue q]" "d' = d\<lparr>d_incoming := om_insert ip q (d_incoming d)\<rparr>"
    using assms(2) by (auto simp: config_incoming_route_def split: option.splits prod.splits)
  then have "config_wf d' w' \<and> more_queues w w' \<and> d_outgoing d' = d_outgoing d \<and>
    (\<exists>q. r = [sink.Queue q] \<and> om_find ip (d_incoming d') = Some q) \<and>
    (om_find j (d_incoming d) = Some x \<longrightarrow> om_find j (d_incoming d') = Some x)"
  proof cases
    case 1
    then show ?thesis using assms(1) by simp
  next
    case 2
    note made = modem_made [OF m(2) 2(1,2)]
    show ?thesis
      using made 2(3,4) modems_mono [OF m(1) made(3)] by (simp add: config_wf_def)
  qed
  then show "config_wf d' w'" and "more_queues w w'" and "d_outgoing d' = d_outgoing d"
    and "\<exists>q. r = [sink.Queue q] \<and> om_find ip (d_incoming d') = Some q"
    and "om_find j (d_incoming d) = Some x \<Longrightarrow> om_find j (d_incoming d') = Some x"
    by blast+
qed

text \<open>A node whose routes are those of the configuration, for the addresses in a set.\<close>

definition routed :: "address set \<Rightarrow> default_config \<Rightarrow> node \<Rightarrow> bool" where
  "routed ips d n \<longleftrightarrow> om_invar (m_outgoing_route n) \<and> om_invar (m_incoming_route n) \<and>
    (\<forall>ip \<in> ips. \<exists>q. om_find ip (d_outgoing d) = Some q \<and>
       om_find ip (m_outgoing_route n) = Some [sink.Queue q]) \<and>
    (\<forall>ip \<in> ips. \<exists>q. om_find ip (d_incoming d) = Some q \<and>
       om_find ip (m_incoming_route n) = Some [sink.Queue q])"

lemma routed_add:
  assumes "routed ips d n" and "om_find ip (d_outgoing d') = Some q" and "om_find ip (d_incoming d') = Some q'"
    and "\<And>j x. om_find j (d_outgoing d) = Some x \<Longrightarrow> om_find j (d_outgoing d') = Some x"
    and "\<And>j x. om_find j (d_incoming d) = Some x \<Longrightarrow> om_find j (d_incoming d') = Some x"
  shows "routed (insert ip ips) d' (n\<lparr>m_outgoing_route := om_set ip [sink.Queue q] (m_outgoing_route n),
    m_incoming_route := om_set ip [sink.Queue q'] (m_incoming_route n)\<rparr>)"
proof -
  have "om_invar (m_outgoing_route n)" "om_invar (m_incoming_route n)"
    using assms(1) by (simp_all add: routed_def)
  then show ?thesis
    using assms unfolding routed_def by (simp add: om_find_set) metis
qed

lemma build_routes_ok:
  assumes "build_routes config_outgoing_route config_incoming_route ips n d w = (n', d', w')"
    and "config_wf d w" and "routed done d n"
  shows "config_wf d' w' \<and> more_queues w w' \<and> routed (done \<union> set ips) d' n' \<and> m_ips n' = m_ips n \<and>
    m_ios_stopped n' = m_ios_stopped n"
  using assms
proof (induction ips arbitrary: n d w "done")
  case Nil
  then show ?case by simp
next
  case (Cons ip ips)
  obtain r1 d1 w1 where o: "config_outgoing_route ip d w = (r1, d1, w1)"
    by (metis prod_cases3)
  obtain r2 d2 w2 where i: "config_incoming_route ip d1 w1 = (r2, d2, w2)"
    by (metis prod_cases3)
  note out = config_outgoing_route_ok [OF Cons.prems(2) o]
  note inc = config_incoming_route_ok [OF out(1) i]
  obtain q q' where r: "r1 = [sink.Queue q]" "om_find ip (d_outgoing d2) = Some q"
      "r2 = [sink.Queue q']" "om_find ip (d_incoming d2) = Some q'"
    using out(4) inc(3,4) by auto
  let ?n = "n\<lparr>m_outgoing_route := om_set ip r1 (m_outgoing_route n),
    m_incoming_route := om_set ip r2 (m_incoming_route n)\<rparr>"
  have "routed (insert ip done) d2 ?n"
    unfolding r(1,3) using Cons.prems(3) r(2,4)
    by (rule routed_add) (use out(3,5) inc(3,5) in auto)
  moreover have "build_routes config_outgoing_route config_incoming_route ips ?n d2 w2 = (n', d', w')"
    using Cons.prems(1) by (simp add: o i)
  ultimately have "config_wf d' w' \<and> more_queues w2 w' \<and> routed (insert ip done \<union> set ips) d' n' \<and>
    m_ips n' = m_ips ?n \<and> m_ios_stopped n' = m_ios_stopped ?n"
    using Cons.IH inc(1) by blast
  then show ?case
    using more_queues_trans [OF more_queues_trans [OF out(2) inc(2)]] by simp
qed

text \<open>
  C34. Building a node under the default configuration never aborts. Every address of the node
  then has an outgoing route through a modem queue of its own at 200 kB/s and an incoming one
  at 800 kB/s, the queues of two addresses are different, a packet through either is delayed by
  1 ms and the queue holds 200 kB, and queues that existed before are as they were.
\<close>

theorem node_routes_are_modems:
  fixes w :: "'u world"
  assumes "config_wf d w" and "w_nodes w i = None"
  shows "\<exists>d' w'. io_context_construct config_outgoing_route config_incoming_route i ips d w = Inr (d', w') \<and>
    config_wf d' w' \<and> (\<forall>q < w_next_id w. w_queues w' q = w_queues w q) \<and>
    (\<exists>qo qi. (\<forall>ip \<in> set ips. get_outgoing_route i ip w' = Inr [sink.Queue (qo ip)] \<and> modem 200000 (qo ip) w' \<and>
        get_incoming_route i ip w' = Inr [sink.Queue (qi ip)] \<and> modem 800000 (qi ip) w') \<and>
      inj_on qo (set ips) \<and> inj_on qi (set ips) \<and> qo ` set ips \<inter> qi ` set ips = {})"
proof -
  let ?n0 = "\<lparr>m_ips = ips, m_outgoing_route = [], m_incoming_route = [], m_ios_stopped = False\<rparr>"
  obtain n d' w1 where b: "build_routes config_outgoing_route config_incoming_route ips ?n0 d w = (n, d', w1)"
    by (metis prod_cases3)
  have "routed {} d ?n0" by (simp add: routed_def)
  from build_routes_ok [OF b assms(1) this]
  have wf: "config_wf d' w1" and more: "more_queues w w1" and n: "routed (set ips) d' n"
    by simp_all
  define w' where "w' = w1\<lparr>w_nodes := (w_nodes w1)(i \<mapsto> n)\<rparr>"
  have run: "io_context_construct config_outgoing_route config_incoming_route i ips d w = Inr (d', w')"
    using more assms(2) by (simp add: io_context_construct_def b add_io_service_def more_queues_def w'_def)
  have wf': "config_wf d' w'"
    using wf by (simp add: config_wf_def modems_def modem_def w'_def)
  have old: "\<forall>q < w_next_id w. w_queues w' q = w_queues w q"
    using more by (simp add: more_queues_def w'_def)
  define qo qi where "qo ip = the (om_find ip (d_outgoing d'))" and "qi ip = the (om_find ip (d_incoming d'))" for ip
  have f: "om_find ip (d_outgoing d') = Some (qo ip)" "om_find ip (d_incoming d') = Some (qi ip)"
      "get_outgoing_route i ip w' = Inr [sink.Queue (qo ip)]" "get_incoming_route i ip w' = Inr [sink.Queue (qi ip)]"
    if "ip \<in> set ips" for ip
    using n that by (force simp: routed_def qo_def qi_def get_outgoing_route_def get_incoming_route_def
        node_of_def w'_def)+
  have m: "modem 200000 (qo ip) w'" "modem 800000 (qi ip) w'" if "ip \<in> set ips" for ip
    using wf' f(1,2) [OF that] by (auto simp: config_wf_def modems_def)
  have "inj_on qo (set ips)" "inj_on qi (set ips)"
    using wf' f(1,2) by (auto simp: config_wf_def modems_def inj_on_def)
  moreover have "qo ` set ips \<inter> qi ` set ips = {}"
    using m by (fastforce simp: modem_def)
  ultimately show ?thesis
    using run wf' old f(3,4) m by (intro exI [of _ d'] exI [of _ w'] exI [of _ qo] exI [of _ qi] conjI) auto
qed

lemma node_routes_are_modems_witness:
  "\<exists>d' (w' :: nat world). io_context_construct config_outgoing_route config_incoming_route 1 [V4 5, V4 9]
      empty_config empty_world = Inr (d', w') \<and>
    (\<exists>q. get_outgoing_route 1 (V4 9) w' = Inr [sink.Queue q] \<and> q_bandwidth (w_queues w' q) = 200000)"
proof -
  have "config_wf empty_config empty_world" "w_nodes empty_world 1 = None"
    by (simp_all add: config_wf_def modems_def empty_config_def om_find_def om_lower_bound_def new_world_def)
  from node_routes_are_modems [OF this, of "[V4 5, V4 9]"] show ?thesis
    by (fastforce simp: modem_def)
qed

end
