(* ===== verification/Simulation.thy ===== *)
theory Simulation
  imports Resolver Default_Config
begin

text \<open>
  The event loop (\<open>simulation::run\<close>, \<open>stop\<close>, \<open>restart\<close>, construction and destruction) and
  the jobs it runs. A job of the application runs the parameter \<open>app\<close>, which may call every
  operation of the other theories on the world. \<open>m_service.poll()\<close> of Boost.Asio runs the
  posted function objects in the order they were posted until there are none, those posted
  meanwhile included, and returns how many it ran.

  Fuel: \<open>n\<close> bounds the recursion through the network and the jobs of one \<open>poll\<close>, the number
  of rounds bounds the loop. The jobs of the application
  do not throw here (theory \<open>Run_Throws\<close> has those that do); the handler of \<open>run\<close> is that for the
  exception \<open>run\<close> throws itself.
\<close>

section \<open>Jobs\<close>

type_synonym 'u app = "'u \<Rightarrow> 'u world \<Rightarrow> fault + 'u world"

text \<open>Calling a handler of the application in place.\<close>

definition call_app :: "'u app \<Rightarrow> 'u job \<Rightarrow> 'u world \<Rightarrow> fault + 'u world" where
  "call_app app j w = (case j of App u \<Rightarrow> app u w | _ \<Rightarrow> Inl Assertion_failed)"

definition run_job :: "'u app \<Rightarrow> nat \<Rightarrow> 'u job \<Rightarrow> 'u world \<Rightarrow> fault + 'u world" where
  "run_job app n j w =
    (case j of
       Begin_send q \<Rightarrow> begin_send_next_packet q w
     | Next_sent q \<Rightarrow> next_packet_sent (forward_packet n) q w
     | On_lookup r ec \<Rightarrow> on_lookup (call_app app) r ec w
     | Udp_wait_send k ec \<Rightarrow>
         (case u_wait_send_handler (w_udp w k) of
            None \<Rightarrow> Inl Assertion_failed
          | Some h \<Rightarrow> call_app app (h ec) (upd_udp k (\<lambda>s. s\<lparr>u_wait_send_handler := None\<rparr>) w))
     | Udp_send k ec m \<Rightarrow>
         (case u_send_handler (w_udp w k) of
            None \<Rightarrow> Inl Assertion_failed
          | Some h \<Rightarrow> call_app app (h ec m) (upd_udp k (\<lambda>s. s\<lparr>u_send_handler := None\<rparr>) w))
     | Null_call \<Rightarrow> Inl Assertion_failed
     | App u \<Rightarrow> app u w)"

fun poll :: "'u app \<Rightarrow> nat \<Rightarrow> nat \<Rightarrow> 'u world \<Rightarrow> fault + (nat \<times> 'u world)" where
  "poll app n 0 w = (if m_service (w_sched w) = [] then Inr (0, w) else Inl Out_of_fuel)"
| "poll app n (Suc k) w =
    (case m_service (w_sched w) of
       [] \<Rightarrow> Inr (0, w)
     | j # js \<Rightarrow>
         bindE (run_job app n j (upd_sched (\<lambda>s. s\<lparr>m_service := js\<rparr>) w)) (\<lambda>w1.
         bindE (poll app n k w1) (\<lambda>(c, w2). Inr (Suc c, w2))))"

section \<open>The loop\<close>

text \<open>The clock jumps to the first timer, and the timers that are due then fire.\<close>

definition advance :: "('t, 'j) sched \<Rightarrow> nat \<times> ('t, 'j) sched" where
  "advance s =
    (case m_timer_queue s of
       [] \<Rightarrow> (0, s)
     | t # _ \<Rightarrow> fire_due (fast_forward (expiry s t - now s) s))"

definition run_round :: "'u app \<Rightarrow> nat \<Rightarrow> 'u world \<Rightarrow> fault + (nat \<times> 'u world)" where
  "run_round app n w =
    bindE (poll app n n w) (\<lambda>(c, w1).
    let (f, s) = advance (w_sched w1) in Inr (c + f, w1\<lparr>w_sched := s\<rparr>))"

text \<open>The handler of \<open>run\<close>; \<open>cancel\<close> is not virtual, so a listening acceptor is cancelled as a socket.\<close>

definition cancel_all_timers :: "'u world \<Rightarrow> 'u world" where
  "cancel_all_timers w = fold cancel_timer (m_timer_queue (w_sched w)) w"

definition cancel_sockets :: "'u world \<Rightarrow> 'u world" where
  "cancel_sockets w =
    (let w1 = fold tcp_cancel (map snd (m_listen_sockets (w_ports w))) w
     in fold udp_cancel (map snd (m_udp_sockets (w_ports w1))) w1)"

definition sim_stop :: "'u world \<Rightarrow> 'u world" where
  "sim_stop w = upd_sched (\<lambda>s. s\<lparr>m_stopped := True\<rparr>) w"

definition sim_stopped :: "'u world \<Rightarrow> bool" where
  "sim_stopped w = m_stopped (w_sched w)"

definition sim_restart :: "'u world \<Rightarrow> 'u world" where
  "sim_restart w = upd_sched (\<lambda>s. s\<lparr>m_stopped := False\<rparr>) w"

definition run_catch :: "'u world \<Rightarrow> 'u world" where
  "run_catch w = sim_stop (cancel_sockets (cancel_all_timers w))"

datatype run_result = Returned nat | Busy_loop

definition max_stalled_iterations :: nat where
  "max_stalled_iterations = 1000"

fun run_loop :: "'u app \<Rightarrow> nat \<Rightarrow> nat \<Rightarrow> nat \<Rightarrow> int \<Rightarrow> nat \<Rightarrow> 'u world \<Rightarrow> fault + (run_result \<times> 'u world)" where
  "run_loop app n 0 ret prev_time stalled w = Inl Out_of_fuel"
| "run_loop app n (Suc k) ret prev_time stalled w =
    bindE (run_round app n w) (\<lambda>(last_executed, w1).
    let time = now (w_sched w1); ret1 = ret + last_executed;
        stalled1 = (if last_executed = 0 then stalled else if time = prev_time then stalled + 1 else 0);
        prev1 = (if last_executed = 0 then prev_time else time)
    in if 0 < last_executed \<and> time = prev_time \<and> max_stalled_iterations < stalled1
       then Inr (Busy_loop, run_catch w1)
       else if 0 < last_executed \<and> \<not> m_stopped (w_sched w1)
       then run_loop app n k ret1 prev1 stalled1 w1
       else Inr (Returned ret1, w1))"

definition run :: "'u app \<Rightarrow> nat \<Rightarrow> nat \<Rightarrow> 'u world \<Rightarrow> fault + (run_result \<times> 'u world)" where
  "run app n k w = run_loop app n k 0 (now (w_sched w)) 0 w"

text \<open>Construction, with the number of the internal \<open>io_context\<close>, and destruction.\<close>

definition simulation_construct :: "nat \<Rightarrow> default_config \<Rightarrow> 'u world \<Rightarrow> fault + (default_config \<times> 'u world)" where
  "simulation_construct i d w =
    (let w1 = (upd_sched (\<lambda>s. s\<lparr>m_timer_queue := [], m_service := [], m_stopped := False\<rparr>) w)
           \<lparr>w_ports := fresh_ports, w_nodes := Map.empty, w_pcap := None\<rparr>
     in bindE (add_io_service i \<lparr>m_ips = [], m_outgoing_route = [], m_incoming_route = [], m_ios_stopped = False\<rparr> w1)
        (\<lambda>w2. Inr (config_build d (upd_sched reset_clock w2))))"

definition simulation_destruct :: "default_config \<Rightarrow> 'u world \<Rightarrow> fault + default_config" where
  "simulation_destruct d w = bindE (assertE (m_timer_queue (w_sched w) = [])) (\<lambda>_. Inr (config_clear d))"

definition log_pcap :: "'u world \<Rightarrow> 'u world" where
  "log_pcap w = w\<lparr>w_pcap := Some pcap_file_header\<rparr>"

section \<open>Advancing the clock\<close>

lemma fire_due_keeps:
  "expiry (snd (fire_due s)) = expiry s \<and>
   (now s < expiry s t \<longrightarrow> timers (snd (fire_due s)) t = timers s t)"
proof (induction s rule: fire_due.induct)
  case (1 s)
  show ?case
  proof (cases "\<exists>u q. m_timer_queue s = u # q \<and> expiry s u \<le> now s")
    case False
    then have "fire_due s = (0, s)"
      by (subst fire_due.simps) (auto split: list.split)
    then show ?thesis by simp
  next
    case True
    then obtain u q where q: "m_timer_queue s = u # q" and due: "expiry s u \<le> now s"
      by blast
    let ?s = "fire success u (s\<lparr>m_timer_queue := q\<rparr>)"
    have "expiry ?s = expiry s" "now ?s = now s"
      by (auto simp: expiry_def now_def sched_simps fun_eq_iff)
    moreover have "timers ?s t = timers s t" if "now s < expiry s t"
      using that due by (auto simp: sched_simps)
    moreover have "snd (fire_due s) = snd (fire_due ?s)"
      using q due by (subst fire_due.simps) (simp add: split_beta)
    ultimately show ?thesis
      using "1.IH" [OF q due] by auto
  qed
qed

text \<open>The timers that fire when the clock jumps to the first of them.\<close>

definition first_due :: "('t, 'j) sched \<Rightarrow> 't list" where
  "first_due s = before_upper (expiry s) (expiry s (hd (m_timer_queue s))) (m_timer_queue s)"

lemma advance_effect:
  assumes "wf_sched s" and "m_timer_queue s \<noteq> []"
  defines "e \<equiv> expiry s (hd (m_timer_queue s))"
  shows "fst (advance s) = length (first_due s)"
    and "m_timer_queue (snd (advance s)) = from_upper (expiry s) e (m_timer_queue s)"
    and "m_service (snd (advance s)) = m_service s @ handler_jobs s success (first_due s)"
    and "wf_sched (snd (advance s))"
    and "now (snd (advance s)) = e"
    and "m_stopped (snd (advance s)) = m_stopped s"
    and "expiry (snd (advance s)) = expiry s"
    and "e < expiry s t \<Longrightarrow> timers (snd (advance s)) t = timers s t"
    and "t \<in> set (first_due s) \<Longrightarrow> expiry s t = e"
    and "0 < length (first_due s)"
proof -
  obtain u q where q: "m_timer_queue s = u # q"
    using assms(2) by (cases "m_timer_queue s") auto
  let ?s = "fast_forward (e - now s) s"
  have f: "now ?s = e" "expiry ?s = expiry s" "m_timer_queue ?s = m_timer_queue s" "timers ?s = timers s"
    "m_service ?s = m_service s" "m_stopped ?s = m_stopped s"
    by (simp_all add: fast_forward_def now_def expiry_def fun_eq_iff)
  have wf: "wf_sched ?s"
    using assms(1) by (simp add: wf_sched_def f)
  have jobs: "handler_jobs ?s = handler_jobs s"
    by (intro ext handler_jobs_cong) (simp add: f)
  have a: "advance s = fire_due ?s"
    by (simp add: advance_def q e_def)
  note eff = fire_due_effect [OF wf, unfolded f jobs] and frame = fire_due_frame [of ?s]
    and keeps = fire_due_keeps [of ?s, unfolded f]
  show "fst (advance s) = length (first_due s)"
    and "m_timer_queue (snd (advance s)) = from_upper (expiry s) e (m_timer_queue s)"
    and "m_service (snd (advance s)) = m_service s @ handler_jobs s success (first_due s)"
    and "wf_sched (snd (advance s))"
    using eff by (simp_all add: a first_due_def e_def)
  show "now (snd (advance s)) = e"
    using frame f(1) by (simp add: a now_def)
  show "m_stopped (snd (advance s)) = m_stopped s"
    using frame by (simp add: a f)
  show "expiry (snd (advance s)) = expiry s"
    and "e < expiry s t \<Longrightarrow> timers (snd (advance s)) t = timers s t"
    using keeps by (simp_all add: a)
  have "sorted (map (expiry s) (m_timer_queue s))"
    using assms(1) by (simp add: wf_sched_def)
  then show "expiry s t = e" if "t \<in> set (first_due s)"
    using that by (auto simp: first_due_def set_before_upper e_def q)
  show "0 < length (first_due s)"
    by (simp add: first_due_def before_upper_def q)
qed

section \<open>Runs whose handlers write memory\<close>

text \<open>Handlers that read the clock and write the application's memory, and call nothing.\<close>

definition memory_app :: "('u \<Rightarrow> int \<Rightarrow> memory \<Rightarrow> memory) \<Rightarrow> 'u app" where
  "memory_app g u w = Inr (w\<lparr>w_mem := g u (now (w_sched w)) (w_mem w)\<rparr>)"

text \<open>What a list of handlers does, each at its time.\<close>

definition memory_after :: "('u \<Rightarrow> int \<Rightarrow> memory \<Rightarrow> memory) \<Rightarrow> (int \<times> 'u) list \<Rightarrow> memory \<Rightarrow> memory" where
  "memory_after g es m = fold (\<lambda>(e, u). g u e) es m"

lemma memory_after_simps [simp]:
  "memory_after g [] m = m"
  "memory_after g ((e, u) # es) m = memory_after g es (g u e m)"
  "memory_after g (es @ es') m = memory_after g es' (memory_after g es m)"
  by (simp_all add: memory_after_def)

lemma poll_memory:
  assumes "m_service (w_sched w) = map App us" and "length us \<le> k"
  shows "poll (memory_app g) n k w = Inr (length us,
    w\<lparr>w_sched := (w_sched w)\<lparr>m_service := []\<rparr>, w_mem := memory_after g (map (Pair (now (w_sched w))) us) (w_mem w)\<rparr>)"
  using assms
proof (induction us arbitrary: k w)
  case Nil
  then show ?case by (cases k) simp_all
next
  case (Cons u us)
  then obtain j where k: "k = Suc j" and j: "length us \<le> j"
    by (cases k) auto
  let ?w = "w\<lparr>w_sched := (w_sched w)\<lparr>m_service := map App us\<rparr>, w_mem := g u (now (w_sched w)) (w_mem w)\<rparr>"
  have "run_job (memory_app g) n (App u) (upd_sched (\<lambda>s. s\<lparr>m_service := map App us\<rparr>) w) = Inr ?w"
    by (simp add: run_job_def memory_app_def upd_sched_def now_def)
  moreover have "now (w_sched ?w) = now (w_sched w)"
    by (simp add: now_def)
  ultimately show ?case
    using Cons.IH [of ?w j] Cons.prems j by (simp add: k)
qed

definition app_timers :: "('t, 'u job) sched \<Rightarrow> ('t \<Rightarrow> 'u) \<Rightarrow> bool" where
  "app_timers s f \<longleftrightarrow> (\<forall>t \<in> set (m_timer_queue s). m_handler (timers s t) = Some (\<lambda>_. App (f t)))"

lemma app_timers_jobs:
  assumes "app_timers s f" and "set ts \<subseteq> set (m_timer_queue s)"
  shows "handler_jobs s ec ts = map App (map f ts)"
  using assms(2) by (induction ts) (use assms(1) in \<open>auto simp: handler_jobs_def app_timers_def\<close>)

text \<open>One round: the posted jobs run, then the first timers fire and post theirs.\<close>

lemma round_memory:
  assumes "wf_sched (w_sched w)" and "app_timers (w_sched w) f" and "m_service (w_sched w) = map App us"
    and "length us \<le> n" and "m_timer_queue (w_sched w) \<noteq> []"
  defines "s \<equiv> w_sched w"
  defines "e \<equiv> expiry s (hd (m_timer_queue s))"
  obtains w' where "run_round (memory_app g) n w = Inr (length us + length (first_due s), w')"
    and "w_mem w' = memory_after g (map (Pair (now s)) us) (w_mem w)"
    and "wf_sched (w_sched w')" and "app_timers (w_sched w') f"
    and "m_service (w_sched w') = map App (map f (first_due s))"
    and "m_timer_queue (w_sched w') = from_upper (expiry s) e (m_timer_queue s)"
    and "now (w_sched w') = e" and "m_stopped (w_sched w') = m_stopped s" and "expiry (w_sched w') = expiry s"
proof -
  let ?s = "s\<lparr>m_service := []\<rparr>"
  have ex: "expiry ?s = expiry s"
    by (rule ext) (simp add: expiry_def)
  have x: "expiry ?s = expiry s" "m_timer_queue ?s = m_timer_queue s" "m_stopped ?s = m_stopped s"
    "timers ?s = timers s" "first_due ?s = first_due s"
    by (simp_all add: first_due_def ex)
  have wf: "wf_sched ?s" "m_timer_queue ?s \<noteq> []"
    using assms(1,5) by (simp_all add: wf_sched_def s_def flip: ex [unfolded s_def])
  have "set (first_due s) \<subseteq> set (m_timer_queue s)"
    by (auto simp: first_due_def before_upper_def dest: set_takeWhileD)
  then have jobs: "handler_jobs ?s success (first_due s) = map App (map f (first_due s))"
    using assms(2) by (intro app_timers_jobs) (simp_all add: app_timers_def s_def)
  note adv = advance_effect [OF wf, unfolded x, folded e_def]
  define w' where "w' = w\<lparr>w_sched := snd (advance ?s),
    w_mem := memory_after g (map (Pair (now s)) us) (w_mem w)\<rparr>"
  have run: "run_round (memory_app g) n w = Inr (length us + length (first_due s), w')"
    using poll_memory [OF assms(3,4), of g n] adv(1)
    by (simp add: run_round_def split_beta Let_def w'_def s_def)
  have at: "app_timers (w_sched w') f"
    unfolding app_timers_def
  proof
    fix t assume "t \<in> set (m_timer_queue (w_sched w'))"
    moreover have "sorted (map (expiry s) (m_timer_queue s))"
      using assms(1) by (simp add: wf_sched_def s_def)
    ultimately have "t \<in> set (m_timer_queue s)" "e < expiry s t"
      using adv(2) by (simp_all add: w'_def set_from_upper)
    then show "m_handler (timers (w_sched w') t) = Some (\<lambda>_. App (f t))"
      using adv(8) assms(2) by (simp add: w'_def app_timers_def s_def)
  qed
  from run _ _ at show ?thesis
    by (rule that) (simp_all add: w'_def adv(2-7) jobs)
qed

text \<open>The last round, and the one that finds nothing more to do.\<close>

lemma loop_memory_last:
  assumes "m_service (w_sched w) = map App us" and "length us \<le> n" and "m_timer_queue (w_sched w) = []"
    and "\<not> m_stopped (w_sched w)" and "stalled \<le> 1"
  shows "run_loop (memory_app g) n (Suc (Suc k)) ret prev stalled w = Inr (Returned (ret + length us),
    w\<lparr>w_sched := (w_sched w)\<lparr>m_service := []\<rparr>, w_mem := memory_after g (map (Pair (now (w_sched w))) us) (w_mem w)\<rparr>)"
proof -
  let ?w = "w\<lparr>w_sched := (w_sched w)\<lparr>m_service := []\<rparr>, w_mem := memory_after g (map (Pair (now (w_sched w))) us) (w_mem w)\<rparr>"
  have "run_round (memory_app g) n w = Inr (length us, ?w)"
    using poll_memory [OF assms(1,2), of g n] assms(3) by (simp add: run_round_def advance_def Let_def)
  moreover have "run_round (memory_app g) n ?w = Inr (0, ?w)"
    using assms(3) by (cases n) (simp_all add: run_round_def advance_def Let_def)
  ultimately show ?thesis
    using assms(4,5) by (simp add: Let_def max_stalled_iterations_def)
qed

lemma loop_memory:
  assumes "wf_sched (w_sched w)" and "app_timers (w_sched w) f" and "m_service (w_sched w) = map App us"
    and "\<not> m_stopped (w_sched w)" and "length us + length (m_timer_queue (w_sched w)) \<le> n"
    and "length (m_timer_queue (w_sched w)) + 2 \<le> k" and "stalled \<le> 1"
    and "stalled = 1 \<longrightarrow> (\<forall>t \<in> set (m_timer_queue (w_sched w)). prev < expiry (w_sched w) t)"
  shows "\<exists>w'. run_loop (memory_app g) n k ret prev stalled w =
      Inr (Returned (ret + length us + 2 * length (m_timer_queue (w_sched w))), w') \<and>
    w_mem w' = memory_after g (map (Pair (now (w_sched w))) us @
      map (\<lambda>t. (expiry (w_sched w) t, f t)) (m_timer_queue (w_sched w))) (w_mem w) \<and>
    m_timer_queue (w_sched w') = [] \<and> m_service (w_sched w') = [] \<and>
    now (w_sched w') = (if m_timer_queue (w_sched w) = [] then now (w_sched w)
      else expiry (w_sched w) (last (m_timer_queue (w_sched w))))"
  using assms
proof (induction "length (m_timer_queue (w_sched w))" arbitrary: w us ret prev stalled k rule: less_induct)
  case less
  define s where "s = w_sched w"
  define q where "q = m_timer_queue s"
  obtain j where k: "k = Suc (Suc j)"
    using less.prems(6) by (metis add_2_eq_Suc' le_Suc_ex plus_nat.simps(2))
  show ?case
  proof (cases "q = []")
    case True
    then show ?thesis
      using loop_memory_last [OF less.prems(3) _ _ less.prems(4,7), of n g j ret prev] less.prems(5)
      by (simp add: k s_def q_def now_def)
  next
    case False
    define e where "e = expiry s (hd q)"
    define fd where "fd = first_due s"
    have "length us \<le> n" "m_timer_queue (w_sched w) \<noteq> []"
      using less.prems(5) False by (simp_all add: q_def s_def)
    from round_memory [OF less.prems(1-3) this, of g, folded s_def q_def, folded e_def fd_def]
    obtain w1 where r: "run_round (memory_app g) n w = Inr (length us + length fd, w1)"
      and w1: "w_mem w1 = memory_after g (map (Pair (now s)) us) (w_mem w)"
        "wf_sched (w_sched w1)" "app_timers (w_sched w1) f"
        "m_service (w_sched w1) = map App (map f fd)"
        "m_timer_queue (w_sched w1) = from_upper (expiry s) e q"
        "now (w_sched w1) = e" "m_stopped (w_sched w1) = m_stopped s" "expiry (w_sched w1) = expiry s"
      by metis
    define q1 where "q1 = m_timer_queue (w_sched w1)"
    note adv = advance_effect [OF less.prems(1) \<open>m_timer_queue (w_sched w) \<noteq> []\<close>, folded s_def q_def, folded e_def fd_def]
    have split: "q = fd @ q1"
      by (simp add: q1_def w1(5) fd_def first_due_def e_def q_def)
    have fd: "fd \<noteq> []" "\<And>t. t \<in> set fd \<Longrightarrow> expiry s t = e"
      using adv(9,10) by auto
    have "sorted (map (expiry s) q)"
      using less.prems(1) by (simp add: wf_sched_def s_def q_def)
    then have later: "e < expiry s t" if "t \<in> set q1" for t
      using that by (simp add: q1_def w1(5) set_from_upper)
    define stalled1 where "stalled1 = (if e = prev then stalled + 1 else 0)"
    have "hd fd \<in> set fd" "hd fd \<in> set q"
      using fd(1) split by simp_all
    then have "e = prev \<Longrightarrow> stalled \<noteq> 1"
      using less.prems(8) fd(2) [of "hd fd"] by (auto simp: s_def q_def)
    then have st: "stalled1 \<le> 1" using less.prems(7) by (auto simp: stalled1_def)
    have "\<exists>w'. run_loop (memory_app g) n (Suc j) (ret + (length us + length fd)) e stalled1 w1 =
        Inr (Returned (ret + (length us + length fd) + length (map f fd) + 2 * length q1), w') \<and>
      w_mem w' = memory_after g (map (Pair e) (map f fd) @ map (\<lambda>t. (expiry s t, f t)) q1) (w_mem w1) \<and>
      m_timer_queue (w_sched w') = [] \<and> m_service (w_sched w') = [] \<and>
      now (w_sched w') = (if q1 = [] then e else expiry s (last q1))"
      unfolding q1_def w1(6) [symmetric] w1(8) [symmetric]
    proof (rule less.hyps)
      show "length (m_timer_queue (w_sched w1)) < length (m_timer_queue (w_sched w))"
        using split fd(1) by (simp add: q1_def q_def s_def)
      show "length (map f fd) + length (m_timer_queue (w_sched w1)) \<le> n"
        using split less.prems(5) by (simp add: q1_def q_def s_def)
      show "length (m_timer_queue (w_sched w1)) + 2 \<le> Suc j"
        using split fd(1) less.prems(6) k by (cases fd) (simp_all add: q1_def q_def s_def)
      show "\<not> m_stopped (w_sched w1)" using less.prems(4) by (simp add: w1(7) s_def)
      show "stalled1 = 1 \<longrightarrow> (\<forall>t \<in> set (m_timer_queue (w_sched w1)). now (w_sched w1) < expiry (w_sched w1) t)"
        using later by (simp add: q1_def w1(6,8))
    qed (rule w1(2) w1(3) w1(4) st)+
    then obtain w' where w': "run_loop (memory_app g) n (Suc j) (ret + (length us + length fd)) e stalled1 w1 =
        Inr (Returned (ret + (length us + length fd) + length (map f fd) + 2 * length q1), w')"
      "w_mem w' = memory_after g (map (Pair e) (map f fd) @ map (\<lambda>t. (expiry s t, f t)) q1) (w_mem w1)"
      "m_timer_queue (w_sched w') = []" "m_service (w_sched w') = []"
      "now (w_sched w') = (if q1 = [] then e else expiry s (last q1))"
      by (elim exE conjE) (rule that; assumption)
    have loop: "run_loop (memory_app g) n k ret prev stalled w =
        run_loop (memory_app g) n (Suc j) (ret + (length us + length fd)) e stalled1 w1"
      unfolding k run_loop.simps(2) [of _ _ "Suc j"] r
      using fd(1) st less.prems(4)
      by (simp add: Let_def w1(6,7) s_def [symmetric] stalled1_def [symmetric] max_stalled_iterations_def)
    have mem: "map (Pair e) (map f fd) = map (\<lambda>t. (expiry s t, f t)) fd"
      using fd(2) by simp
    have lst: "expiry s (last q) = (if q1 = [] then e else expiry s (last q1))"
      using fd split by simp
    have "run_loop (memory_app g) n k ret prev stalled w = Inr (Returned (ret + length us + 2 * length q), w')"
      unfolding loop w'(1) by (simp add: split)
    moreover have "w_mem w' = memory_after g (map (Pair (now s)) us @ map (\<lambda>t. (expiry s t, f t)) q) (w_mem w)"
      unfolding w'(2) w1(1) mem by (simp add: split)
    ultimately show ?thesis
      using False w'(3-5) lst unfolding s_def [symmetric] q_def [symmetric] by auto
  qed
qed

lemma sorted_last: "sorted (map key xs) \<Longrightarrow> x \<in> set xs \<Longrightarrow> key x \<le> (key (last xs) :: int)"
  by (induction xs rule: rev_induct) (auto simp: sorted_append)

text \<open>
  C7. A run executes the jobs already posted at the present time, then jumps from expiry to
  expiry: each armed timer's handler runs exactly once, when the clock shows its expiry, timers
  with the same expiry in the order they were armed. The run ends with nothing posted and
  nothing armed, the clock at the last expiry, and counts two for each timer (it fires, and its
  handler runs). As many rounds as there are timers and two more are enough.
\<close>

theorem run_fires_in_order:
  assumes "refines_armed (w_sched w) armed" and "\<not> m_stopped (w_sched w)"
    and "m_service (w_sched w) = map App us"
    and "\<forall>t \<in> fst ` set armed. m_handler (timers (w_sched w) t) = Some (\<lambda>_. App (f t))"
    and "length us + length armed \<le> n" and "length armed + 2 \<le> k"
  shows "\<exists>w'. run (memory_app g) n k w = Inr (Returned (length us + 2 * length armed), w') \<and>
    w_mem w' = memory_after g (map (\<lambda>u. (now (w_sched w), u)) us @
      map (\<lambda>(t, e). (e, f t)) (sort_key snd armed)) (w_mem w) \<and>
    m_timer_queue (w_sched w') = [] \<and> m_service (w_sched w') = [] \<and>
    now (w_sched w') = (if armed = [] then now (w_sched w) else Max (snd ` set armed))"
proof -
  let ?s = "w_sched w" and ?sorted = "sort_key snd armed"
  note q = refines_armedD(1) [OF assms(1)]
  have key: "expiry ?s (fst x) = snd x" if "x \<in> set armed" for x
    using assms(1) that by (auto simp: refines_armed_def)
  have "app_timers ?s f"
    using assms(4) by (simp add: app_timers_def q)
  then obtain w' where w': "run_loop (memory_app g) n k 0 (now ?s) 0 w =
      Inr (Returned (0 + length us + 2 * length (m_timer_queue ?s)), w')"
    "w_mem w' = memory_after g (map (Pair (now ?s)) us @ map (\<lambda>t. (expiry ?s t, f t)) (m_timer_queue ?s)) (w_mem w)"
    "m_timer_queue (w_sched w') = []" "m_service (w_sched w') = []"
    "now (w_sched w') = (if m_timer_queue ?s = [] then now ?s else expiry ?s (last (m_timer_queue ?s)))"
    using loop_memory [OF refines_armed_wf [OF assms(1)] _ assms(3,2), of f n k 0 "now ?s" g 0] assms(5,6)
    by (auto simp: q)
  have mem: "map (\<lambda>t. (expiry ?s t, f t)) (m_timer_queue ?s) = map (\<lambda>(t, e). (e, f t)) ?sorted"
    using key by (auto simp: q)
  have "expiry ?s (last (m_timer_queue ?s)) = Max (snd ` set armed)" if "armed \<noteq> []"
  proof -
    have ne: "?sorted \<noteq> []" using that by (metis length_sort length_0_conv)
    have "last ?sorted \<in> set armed" using last_in_set [OF ne] by simp
    then have "expiry ?s (last (m_timer_queue ?s)) = snd (last ?sorted)"
      using ne key by (simp add: q last_map)
    moreover have "snd (last ?sorted) = Max (snd ` set armed)"
    proof (rule Max_eqI [symmetric])
      show "snd (last ?sorted) \<in> snd ` set armed" using \<open>last ?sorted \<in> set armed\<close> by simp
    next
      fix y assume "y \<in> snd ` set armed"
      then obtain x where x: "x \<in> set ?sorted" "y = snd x" by auto
      show "y \<le> snd (last ?sorted)"
        unfolding x(2) by (rule sorted_last [OF _ x(1)]) simp
    qed simp
    ultimately show ?thesis by simp
  qed
  moreover have "m_timer_queue ?s = [] \<longleftrightarrow> armed = []"
    by (simp add: q flip: length_0_conv)
  ultimately show ?thesis
    using w' unfolding run_def mem by (intro exI [of _ w']) (auto simp: q)
qed

lemma run_fires_in_order_witness:
  "\<exists>w'. run (memory_app (\<lambda>u e m. m(u := word_of_int e + m 0, 0 := m 0 + 1))) 5 5 (empty_world\<lparr>w_sched := \<lparr>g_simulation_time = 3,
      timers = (\<lambda>t. if t \<in> {User_timer 1, User_timer 2}
        then \<lparr>m_expiration_time = 20, m_handler = Some (\<lambda>_. App (if t = User_timer 1 then 1 else 2)), m_expired = False\<rparr>
        else new_timer),
      m_timer_queue = [User_timer 2, User_timer 1], m_service = [App 7], m_stopped = False\<rparr>\<rparr>) =
    Inr (Returned 5, w') \<and> now (w_sched w') = 20 \<and> w_mem w' 7 = 3 \<and> w_mem w' 2 = 21 \<and> w_mem w' 1 = 22"
proof -
  let ?g = "\<lambda>u e m. m(u := word_of_int e + m 0, 0 := m 0 + (1 :: byte))"
  let ?w = "empty_world\<lparr>w_sched := \<lparr>g_simulation_time = 3,
      timers = (\<lambda>t. if t \<in> {User_timer 1, User_timer 2}
        then \<lparr>m_expiration_time = 20, m_handler = Some (\<lambda>_. App (if t = User_timer 1 then 1 else 2)), m_expired = False\<rparr>
        else new_timer),
      m_timer_queue = [User_timer 2, User_timer 1], m_service = [App 7], m_stopped = False\<rparr>\<rparr>"
  have "refines_armed (w_sched ?w) [(User_timer 2, 20), (User_timer 1, 20)]" "\<not> m_stopped (w_sched ?w)"
    "m_service (w_sched ?w) = map App [7]"
    "\<forall>t \<in> fst ` set [(User_timer 2, 20 :: int), (User_timer 1, 20)].
      m_handler (timers (w_sched ?w) t) = Some (\<lambda>_. App (if t = User_timer 1 then 1 else 2))"
    by (auto simp: refines_armed_def expiry_def new_timer_def)
  from run_fires_in_order [OF this, of 5 5 ?g] show ?thesis
    by (auto simp: now_def new_world_def)
qed

section \<open>Runs that are stuck\<close>

lemma wf_sched_cancel: "wf_sched s \<Longrightarrow> wf_sched (snd (cancel t s))"
  by (rule refines_armed_wf) (rule cancel_refines [OF wf_refines_armed])

lemma wf_sched_post [simp]: "wf_sched (post j s) \<longleftrightarrow> wf_sched s"
proof -
  have "expiry (post j s) = expiry s"
    by (rule ext) (simp add: expiry_def)
  then show ?thesis by (simp add: wf_sched_def)
qed

text \<open>Nothing is armed.\<close>

definition unarmed :: "'u world \<Rightarrow> bool" where
  "unarmed w \<longleftrightarrow> wf_sched (w_sched w) \<and> m_timer_queue (w_sched w) = []"

lemma unarmed_simps [simp]:
  "unarmed (post_job j w) \<longleftrightarrow> unarmed w"
  "unarmed (upd_tcp k f w) \<longleftrightarrow> unarmed w"
  "unarmed (upd_udp k g w) \<longleftrightarrow> unarmed w"
  by (simp_all add: unarmed_def)

lemma unarmed_cancel_timer [simp]: "unarmed w \<Longrightarrow> unarmed (cancel_timer t w)"
  by (simp add: unarmed_def wf_sched_cancel cancel_queue)

lemma unarmed_cancel [simp]:
  "unarmed w \<Longrightarrow> unarmed (tcp_cancel k w)" "unarmed w \<Longrightarrow> unarmed (udp_cancel k w)"
  by (auto simp: tcp_cancel_def abort_recv_handlers_def abort_send_handlers_def Let_def)
    (auto simp: udp_cancel_def udp_abort_recv_handlers_def udp_abort_send_handlers_def Let_def)

lemma unarmed_fold: "(\<And>x w. unarmed w \<Longrightarrow> unarmed (f x w)) \<Longrightarrow> unarmed w \<Longrightarrow> unarmed (fold f xs w)"
  by (induction xs arbitrary: w) auto

lemma unarmed_cancel_all_timers:
  assumes "wf_sched (w_sched w)"
  shows "unarmed (cancel_all_timers w)"
proof -
  have "wf_sched (w_sched (fold cancel_timer ts w)) \<and>
      m_timer_queue (w_sched (fold cancel_timer ts w)) = filter (\<lambda>t. t \<notin> set ts) (m_timer_queue (w_sched w))"
    if "wf_sched (w_sched w)" for ts and w :: "'a world"
    using that
  proof (induction ts arbitrary: w)
    case Nil
    then show ?case by simp
  next
    case (Cons t ts)
    have "wf_sched (w_sched (cancel_timer t w))"
      using Cons.prems by (simp add: wf_sched_cancel)
    from Cons.IH [OF this] show ?case
      using Cons.prems by (simp add: cancel_queue conj_commute)
  qed
  from this [OF assms, of "m_timer_queue (w_sched w)"] show ?thesis
    by (simp add: unarmed_def cancel_all_timers_def)
qed

lemma run_catch_unarmed:
  assumes "wf_sched (w_sched w)"
  shows "m_timer_queue (w_sched (run_catch w)) = []" and "sim_stopped (run_catch w)"
proof -
  have "unarmed (cancel_sockets (cancel_all_timers w))"
    unfolding cancel_sockets_def Let_def
    by (intro unarmed_fold unarmed_cancel unarmed_cancel_all_timers assms)
  then show "m_timer_queue (w_sched (run_catch w)) = []"
    by (simp add: run_catch_def sim_stop_def unarmed_def)
  show "sim_stopped (run_catch w)"
    by (simp add: run_catch_def sim_stop_def sim_stopped_def)
qed

lemma run_loop_stuck:
  assumes "\<And>w. stuck w \<Longrightarrow> \<exists>c w1. run_round app n w = Inr (c, w1) \<and> 0 < c \<and> stuck w1 \<and>
      now (w_sched w1) = time \<and> \<not> m_stopped (w_sched w1)"
    and "stuck w" and "stalled \<le> max_stalled_iterations" and "max_stalled_iterations < stalled + k"
  shows "\<exists>w1. stuck w1 \<and> run_loop app n k ret time stalled w = Inr (Busy_loop, run_catch w1)"
  using assms(2-4)
proof (induction k arbitrary: w stalled ret)
  case 0
  then show ?case by simp
next
  case (Suc k)
  obtain c w1 where w1: "run_round app n w = Inr (c, w1)" "0 < c" "stuck w1"
    "now (w_sched w1) = time" "\<not> m_stopped (w_sched w1)"
    using assms(1) [OF Suc.prems(1)] by blast
  show ?case
  proof (cases "max_stalled_iterations < stalled + 1")
    case True
    then have "run_loop app n (Suc k) ret time stalled w = Inr (Busy_loop, run_catch w1)"
      using w1 by (simp add: Let_def)
    with w1(3) show ?thesis by blast
  next
    case False
    then have "run_loop app n (Suc k) ret time stalled w = run_loop app n k (ret + c) time (stalled + 1) w1"
      using w1 by (simp add: Let_def)
    with Suc.IH [OF w1(3), of "stalled + 1" "ret + c"] False Suc.prems(3) show ?thesis by simp
  qed
qed

text \<open>
  C15. A simulation in which every round runs something and none moves the clock does not spin
  for ever: after at most 1001 rounds \<open>run\<close> gives up with its error, and then the simulation is
  stopped, no timer is left armed, and the destructor's assertion holds.
\<close>

theorem busy_loop_detected:
  assumes "\<And>w. stuck w \<Longrightarrow> \<exists>c w1. run_round app n w = Inr (c, w1) \<and> 0 < c \<and> stuck w1 \<and>
      now (w_sched w1) = now (w_sched w) \<and> \<not> m_stopped (w_sched w1) \<and> wf_sched (w_sched w1)"
    and "stuck w" and "wf_sched (w_sched w)" and "1001 \<le> k"
  shows "\<exists>w'. run app n k w = Inr (Busy_loop, w') \<and> sim_stopped w' \<and>
    m_timer_queue (w_sched w') = [] \<and> simulation_destruct d w' = Inr (config_clear d)"
proof -
  let ?time = "now (w_sched w)"
  let ?stuck = "\<lambda>v. stuck v \<and> now (w_sched v) = ?time \<and> wf_sched (w_sched v)"
  obtain w1 where "?stuck w1" "run_loop app n k 0 ?time 0 w = Inr (Busy_loop, run_catch w1)"
    using run_loop_stuck [of ?stuck app n ?time w 0 k 0] assms
    by (fastforce simp: max_stalled_iterations_def)
  with run_catch_unarmed [of w1] show ?thesis
    by (simp add: run_def simulation_destruct_def)
qed

text \<open>A handler that arms its timer for now, again and again.\<close>

definition rearm_now :: "nat app" where
  "rearm_now u w = bindE (timer_expires_after (User_timer 0) 0 w) (timer_async_wait (User_timer 0) (\<lambda>_. App u))"

lemma busy_loop_detected_witness:
  "\<exists>w'. run rearm_now 2 1001 (post_job (App 0) empty_world) = Inr (Busy_loop, w') \<and> sim_stopped w' \<and>
    m_timer_queue (w_sched w') = []"
proof -
  let ?w = "post_job (App 0) empty_world :: nat world"
  have none: "m_timer_queue s = [] \<Longrightarrow> fire_due s = (0, s)" for s :: "(timer_id, nat job) sched"
    by (subst fire_due.simps) simp
  have one: "m_timer_queue s = [t] \<Longrightarrow> expiry s t \<le> now s \<Longrightarrow>
      fire_due s = (1, fire success t (s\<lparr>m_timer_queue := []\<rparr>))" for s :: "(timer_id, nat job) sched" and t
    by (subst fire_due.simps) (simp add: none sched_simps)
  let ?armed = "?w\<lparr>w_sched := (w_sched empty_world)\<lparr>timers := (\<lambda>_. new_timer)(User_timer 0 :=
      \<lparr>m_expiration_time = 0, m_handler = Some (\<lambda>_. App 0), m_expired = False\<rparr>), m_timer_queue := [User_timer 0]\<rparr>\<rparr>"
  have "rearm_now 0 (upd_sched (\<lambda>s. s\<lparr>m_service := []\<rparr>) ?w) = Inr ?armed"
    by (simp add: rearm_now_def timer_expires_after_def timer_async_wait_def expires_after_def async_wait_def
        cancel_def add_timer_def set_timer_def before_upper_def from_upper_def post_job_def upd_sched_def
        post_def new_world_def new_timer_def now_def Let_def)
  then have "poll rearm_now 2 2 ?w = Inr (1, ?armed)"
    by (simp add: numeral_2_eq_2 run_job_def post_job_def upd_sched_def post_def new_world_def)
  moreover have "advance (w_sched ?armed) = (1, w_sched ?w)"
    by (simp add: advance_def fast_forward_def expiry_def now_def one [of _ "User_timer 0"]
        fire_def set_timer_def post_job_def upd_sched_def post_def new_world_def new_timer_def Let_def fun_upd_idem)
  ultimately have r: "run_round rearm_now 2 ?w = Inr (2, ?w)"
    by (simp add: run_round_def post_job_def upd_sched_def)
  have wf: "wf_sched (w_sched ?w)" "\<not> m_stopped (w_sched ?w)"
    by (simp_all add: wf_sched_def new_world_def new_timer_def)
  show ?thesis
    using busy_loop_detected [of "\<lambda>w. w = ?w" rearm_now 2 ?w 1001] r wf by auto
qed

section \<open>Cancelling a UDP socket that waits to write\<close>

text \<open>
  C39. The handler of \<open>async_wait\<close> for writing, when the send queue is long, is bound by
  reference. Cancelling the socket posts a call of it and then empties it, so the next job that
  runs calls an empty function and aborts the program; the handler is never called with
  \<open>operation_aborted\<close>.
\<close>

theorem udp_cancel_calls_null:
  assumes "sched_ok (w_sched w)" and "m_service (w_sched w) = []"
    and "u_recv_handler (w_udp w k) = None" and "u_wait_recv_handler (w_udp w k) = None"
    and "u_send_handler (w_udp w k) = None" and "u_wait_send_handler (w_udp w k) = None"
    and "m_handler (timers (w_sched w) (Udp_send_timer k)) = None"
    and "m_handler (timers (w_sched w) (Udp_recv_timer k)) = None"
    and "cdiv (m_send_queue_time (w_udp w k)) 2 * 1000 < u_next_send (w_udp w k) - now (w_sched w)"
  shows "\<exists>w1. udp_async_wait k Wait_write (Some h) w = Inr w1 \<and>
    u_wait_send_handler (w_udp w1 k) = Some h \<and>
    poll app n (Suc m) (udp_cancel k w1) = Inl Assertion_failed"
proof -
  let ?late = "u_next_send (w_udp w k) + cdiv (m_send_queue_time (w_udp w k)) 2 * 1000"
  define w0 where "w0 = udp_abort_send_handlers k w"
  have w0: "sched_ok (w_sched w0)" "w_udp w0 k = w_udp w k" "now (w_sched w0) = now (w_sched w)"
    "m_service (w_sched w0) = []" "m_handler (timers (w_sched w0) (Udp_recv_timer k)) = None"
    "m_handler (timers (w_sched w0) (Udp_send_timer k)) = None"
    using assms by (auto simp: w0_def udp_abort_send_handlers_def Let_def now_def sched_simps)
  obtain s where s: "timer_expires_at (Udp_recv_timer k) ?late w0 = Inr (w0\<lparr>w_sched := s\<rparr>)" "sched_ok s"
    "timers s = (timers (w_sched w0))(Udp_recv_timer k := \<lparr>m_expiration_time = ?late, m_handler = None, m_expired = False\<rparr>)"
    "m_service s = m_service (w_sched w0) @ aborted_jobs (w_sched w0) (Udp_recv_timer k)"
    by (rule timer_expires_at_ok [OF w0(1)])
  define w1 where "w1 = upd_udp k (\<lambda>s. s\<lparr>u_wait_send_handler := Some h\<rparr>) (w0\<lparr>w_sched :=
    set_timer (Udp_recv_timer k) ((timers s (Udp_recv_timer k))\<lparr>m_handler := Some (\<lambda>_. Udp_wait_send k success)\<rparr>) s\<rparr>)"
  have run: "udp_async_wait k Wait_write (Some h) w = Inr w1"
    using assms(9) s(1) by (simp add: udp_async_wait_def w0(2,3) flip: w0_def)
      (simp add: timer_async_wait_def async_wait_def s(3) upd_udp_def w1_def Let_def)
  have "m_service s = []"
    using s(4) w0(4,5) by (simp add: aborted_jobs_def split: option.split)
  then have "m_service (w_sched (udp_cancel k w1)) = Udp_wait_send k success #
      [Udp_wait_send k operation_aborted]" "u_wait_send_handler (w_udp (udp_cancel k w1) k) = None"
    using assms(3-6) w0(2,6)
    by (simp_all add: udp_cancel_def udp_abort_send_handlers_def udp_abort_recv_handlers_def Let_def w1_def
        sched_simps s(3))
  with run show ?thesis
    by (simp add: run_job_def w1_def)
qed

lemma udp_cancel_calls_null_witness:
  "\<exists>w1 :: nat world. udp_async_wait 7 Wait_write (Some (\<lambda>_. App 3))
      (upd_udp 7 (\<lambda>s. s\<lparr>u_next_send := 1000000000\<rparr>) empty_world) = Inr w1 \<and>
    poll (\<lambda>_ w. Inr w) 0 1 (udp_cancel 7 w1) = Inl Assertion_failed"
proof -
  let ?w = "upd_udp 7 (\<lambda>s. s\<lparr>u_next_send := 1000000000\<rparr>) empty_world"
  have "sched_ok (w_sched ?w)" "m_service (w_sched ?w) = []"
    "u_recv_handler (w_udp ?w 7) = None" "u_wait_recv_handler (w_udp ?w 7) = None"
    "u_send_handler (w_udp ?w 7) = None" "u_wait_send_handler (w_udp ?w 7) = None"
    "m_handler (timers (w_sched ?w) (Udp_send_timer 7)) = None"
    "m_handler (timers (w_sched ?w) (Udp_recv_timer 7)) = None"
    "cdiv (m_send_queue_time (w_udp ?w 7)) 2 * 1000 < u_next_send (w_udp ?w 7) - now (w_sched ?w)"
    by (simp_all add: new_world_def sched_ok_def new_timer_def new_udp_socket_def cdiv_def now_def)
  from udp_cancel_calls_null [OF this, of "\<lambda>_. App 3" "\<lambda>_ w. Inr w" 0 0] show ?thesis
    by auto
qed

end
