(* ===== verification/Reachable.thy ===== *)
theory Reachable
  imports Tcp_Flow Simulation
begin

text \<open>
  The worlds a program can bring about: what the application calls on its sockets and
  acceptors, and the jobs the event loop runs for the network, in any order. The network of
  theory \<open>Network\<close> keeps the flight accounting of every socket, so the invariant of theory
  \<open>Tcp_Flow\<close> holds in every reachable world.
\<close>

section \<open>The network keeps the invariant\<close>

lemma udp_incoming_inv: "udp_incoming_packet k p w = Inr w' \<Longrightarrow> world_inv w \<Longrightarrow> world_inv w'"
proof -
  have recv: "world_inv w'" if "async_receive_from_impl k bufs e h w = Inr w'" "world_inv w"
    for w w' :: "'a world" and bufs e h
    using that by (auto simp: async_receive_from_impl_def receive_from_impl_def Let_def split_beta
        split: if_splits list.splits option.splits)
  show "udp_incoming_packet k p w = Inr w' \<Longrightarrow> world_inv w \<Longrightarrow> world_inv w'"
    by (auto simp: udp_incoming_packet_def udp_maybe_wakeup_reader_def async_wait_receive_impl_def Let_def
        split: if_splits dest!: recv)
qed

lemma forward_packet_inv: "forward_packet n p w = Inr w' \<Longrightarrow> world_inv w \<Longrightarrow> world_inv w'"
proof (induction n arbitrary: p w w')
  case 0
  then show ?case by simp
next
  case (Suc n)
  have net: "sound_net (forward_packet n :: 'a net)"
    by unfold_locales (rule Suc.IH)
  have hop: "world_inv w'" if "sink_incoming_packet (forward_packet n) n s q w = Inr w'" and "world_inv w"
    for s q and w :: "'a world"
    using that
    by (auto simp: sink_incoming_packet_def nat_incoming_packet_def forwarder_incoming_packet_def
        socket_incoming_packet_def Let_def split: sink.splits option.splits receiver.splits
        dest!: Suc.IH queue_incoming_inv udp_incoming_inv sound_net.tcp_incoming_inv [OF net]
          sound_net.acceptor_incoming_inv [OF net])
  show ?case
    using Suc.prems by (auto split: prod.splits option.splits dest!: hop)
qed


interpretation network: sound_net "forward_packet n" for n
  by unfold_locales (rule forward_packet_inv)

lemma next_packet_sent_inv: "next_packet_sent (forward_packet n) q w = Inr w' \<Longrightarrow> world_inv w \<Longrightarrow> world_inv w'"
  by (auto simp: next_packet_sent_def split: list.splits if_splits dest!: forward_packet_inv begin_send_inv)

section \<open>Steps\<close>

text \<open>
  One operation on the world, with fuel \<open>n\<close> for the network. What an operation does to the
  rest of the world (timers, resolvers, UDP sockets, memory, the nodes) is the rule \<open>elsewhere\<close>.
\<close>

inductive op_step :: "nat \<Rightarrow> 'u world \<Rightarrow> 'u world \<Rightarrow> bool" for n where
  elsewhere: "w_tcp w' = w_tcp w \<Longrightarrow> op_step n w w'"
| options: "(\<And>s. flow_state (f s) = flow_state s) \<Longrightarrow> op_step n w (upd_tcp k f w)"
| construct: "tcp_construct ios w = (k, w') \<Longrightarrow> op_step n w w'"
| move: "tcp_move k w = Inr (k', w') \<Longrightarrow> op_step n w w'"
| destruct: "op_step n w (tcp_destruct k w)"
| open_socket: "tcp_open (forward_packet n) k v4 w = Inr w' \<Longrightarrow> op_step n w w'"
| bind_socket: "tcp_bind k ep w = Inr (ec, w') \<Longrightarrow> op_step n w w'"
| connect: "async_connect (forward_packet n) k ep h w = Inr w' \<Longrightarrow> op_step n w w'"
| close_socket: "tcp_close (forward_packet n) k w = Inr w' \<Longrightarrow> op_step n w w'"
| cancel_socket: "op_step n w (tcp_cancel k w)"
| wait: "op_step n w (tcp_async_wait k t h w)"
| async_write: "async_write_some (forward_packet n) k bufs h w = Inr w' \<Longrightarrow> op_step n w w'"
| sync_write: "write_some (forward_packet n) k bufs e w = Inr (m, ec, w') \<Longrightarrow> op_step n w w'"
| async_read: "async_read_some k bufs h w = Inr w' \<Longrightarrow> op_step n w w'"
| sync_read: "read_some k bufs w = Inr (m, ec, w') \<Longrightarrow> op_step n w w'"
| new_acceptor: "acceptor_construct ios w = (k, w') \<Longrightarrow> op_step n w w'"
| listening: "listen k qs w = (ec, w') \<Longrightarrow> op_step n w w'"
| accept: "async_accept (forward_packet n) k peer h w = Inr w' \<Longrightarrow> op_step n w w'"
| accept_endpoint: "async_accept_endpoint (forward_packet n) k peer e h w = Inr w' \<Longrightarrow> op_step n w w'"
| accept_socket: "async_accept_socket (forward_packet n) k h2 w = Inr w' \<Longrightarrow> op_step n w w'"
| cancel_acceptor: "acceptor_cancel k w = Inr w' \<Longrightarrow> op_step n w w'"
| close_acceptor: "acceptor_close (forward_packet n) k w = Inr w' \<Longrightarrow> op_step n w w'"
| close_acceptor_all: "acceptor_close_all k w = Inr w' \<Longrightarrow> op_step n w w'"
| send_datagram: "send_to (forward_packet n) k bufs ep w = Inr (m, ec, w') \<Longrightarrow> op_step n w w'"
| begin_send: "begin_send_next_packet q w = Inr w' \<Longrightarrow> op_step n w w'"
| packet_sent: "next_packet_sent (forward_packet n) q w = Inr w' \<Longrightarrow> op_step n w w'"

inductive reachable :: "nat \<Rightarrow> 'u world \<Rightarrow> bool" for n where
  fresh: "(\<And>k. \<exists>ios. w_tcp w k = new_tcp_socket ios) \<Longrightarrow> reachable n w"
| later: "reachable n w \<Longrightarrow> op_step n w w' \<Longrightarrow> reachable n w'"

lemma udp_send_inv: "send_to (forward_packet n) k bufs ep w = Inr (m, ec, w') \<Longrightarrow> world_inv w \<Longrightarrow> world_inv w'"
  by (auto simp: send_to_def send_to_impl_def udp_bind_def udp_abort_send_handlers_def Let_def
      split: if_splits dest!: forward_packet_inv write_log_inv ios_bind_inv)

lemma new_acceptor_inv: "acceptor_construct ios w = (k, w') \<Longrightarrow> world_inv w \<Longrightarrow> world_inv w'"
  by (auto simp: acceptor_construct_def split: prod.splits dest!: network.tcp_construct_inv)

lemma read_ops_inv:
  "async_read_some k bufs h w = Inr w' \<Longrightarrow> world_inv w \<Longrightarrow> world_inv w'"
  "read_some k bufs w = Inr (m, ec, w') \<Longrightarrow> world_inv w \<Longrightarrow> world_inv w'"
  by (auto simp: async_read_some_def read_some_def dest!: async_read_some_impl_inv read_some_impl_inv)

lemma write_ops_inv:
  "async_write_some (forward_packet n) k bufs h w = Inr w' \<Longrightarrow> world_inv w \<Longrightarrow> world_inv w'"
  "write_some (forward_packet n) k bufs e w = Inr (m, ec, w') \<Longrightarrow> world_inv w \<Longrightarrow> world_inv w'"
  by (auto simp: async_write_some_def write_some_def dest!: network.async_write_some_impl_inv
      network.write_some_impl_inv)

lemma accept_ops_inv:
  "listen k qs w = (ec, w') \<Longrightarrow> world_inv w \<Longrightarrow> world_inv w'"
  "acceptor_cancel k w = Inr w' \<Longrightarrow> world_inv w \<Longrightarrow> world_inv w'"
  "acceptor_close_all k w = Inr w' \<Longrightarrow> world_inv w \<Longrightarrow> world_inv w'"
  using listen_inv [of w k qs] by (auto simp: acceptor_cancel_def acceptor_close_all_def dest!: abort_accept_inv)

lemmas step_inv = timer_ops_inv tcp_move_inv tcp_bind_inv begin_send_inv next_packet_sent_inv
  network.tcp_construct_inv network.tcp_open_inv network.async_connect_inv network.tcp_close_inv
  write_ops_inv read_ops_inv new_acceptor_inv accept_ops_inv network.async_accept_inv
  network.async_accept_socket_inv network.acceptor_close_inv udp_send_inv

lemma op_step_inv: "op_step n w w' \<Longrightarrow> world_inv w \<Longrightarrow> world_inv w'"
proof (induction rule: op_step.induct)
  case (elsewhere w' w)
  then show ?case using world_inv_cong [of w' w] by simp
qed (simp_all, (erule step_inv; assumption)+)

lemma reachable_inv: "reachable n w \<Longrightarrow> world_inv w"
proof (induction rule: reachable.induct)
  case (fresh w)
  then show ?case unfolding world_inv_def by (metis tcp_inv_new)
qed (rule op_step_inv)

text \<open>
  C10. In every world a program can reach, the bytes in flight of every socket cover each packet
  that is not acknowledged yet: the assertion made when an acknowledgement arrives holds, the
  count never becomes negative, and a packet in the reorder buffer is filed under its own
  sequence number. (A packet that is sent again counts twice, so the count may be too high.)
\<close>

theorem reachable_flight_accounting:
  assumes "reachable n w"
  shows "0 \<le> m_bytes_in_flight (w_tcp w k) \<and>
    (\<forall>seq size. m_outstanding_packet_sizes (w_tcp w k) seq = Some size \<longrightarrow>
      0 \<le> size \<and> size \<le> m_bytes_in_flight (w_tcp w k)) \<and>
    (\<forall>seq p. m_reorder_buffer (w_tcp w k) seq = Some p \<longrightarrow> p_seq_nr p = seq)"
proof -
  have "tcp_inv (w_tcp w k)"
    using reachable_inv [OF assms] by (rule world_invD)
  then show ?thesis
    using tcp_inv_in_flight [of "w_tcp w k"] tcp_inv_acked [of "w_tcp w k"] by (simp add: tcp_inv_def)
qed

lemma reachable_flight_accounting_witness:
  "\<exists>w' :: nat world. tcp_open (forward_packet 3) 5 True empty_world = Inr w' \<and> m_open (w_tcp w' 5) \<and>
    0 \<le> m_bytes_in_flight (w_tcp w' 5)"
proof -
  obtain w' :: "nat world" where w': "tcp_open (forward_packet 3) 5 True empty_world = Inr w'"
    by (simp add: tcp_open_def tcp_close_def close_channel_def new_world_def new_tcp_socket_def Let_def)
  have "reachable 3 empty_world"
    by (rule reachable.fresh) (auto simp: new_world_def)
  then have "reachable 3 w'"
    using w' by (rule reachable.later [OF _ op_step.open_socket])
  from reachable_flight_accounting [OF this, of 5] w' show ?thesis
    by (auto simp: tcp_open_def Let_def)
qed

end
