(* ===== verification/Http_Message.thy ===== *)
theory Http_Message
  imports Ord_Map Decimal "HOL-Library.Char_ord" "HOL-Library.List_Lexorder"
begin

text \<open>
  The text of HTTP messages (\<open>http_server.cpp\<close>, the functions without state): searching and
  trimming, the normal form of a path, parsing a request, the responses and
  the handlers \<open>register_content\<close> and \<open>register_redirect\<close> make. A buffer and its length are a
  string; a pointer into the buffer is the rest of the string from there. The theorems: printing
  and parsing a request is the identity, a normalised path has no parent directory in it but
  the last component, and a range request is answered with the range.
\<close>

section \<open>Strings\<close>

abbreviation cr :: char where "cr \<equiv> CHR 0x0D"
abbreviation lf :: char where "lf \<equiv> CHR 0x0A"
abbreviation nul :: char where "nul \<equiv> CHR 0x00"

definition crlf :: string where
  "crlf = [cr, lf]"

text \<open>The position of the first match, if there is one.\<close>

fun find_str :: "string \<Rightarrow> string \<Rightarrow> nat option" where
  "find_str needle [] = (if needle = [] then Some 0 else None)"
| "find_str needle (c # cs) =
    (if take (length needle) (c # cs) = needle then Some 0 else map_option Suc (find_str needle cs))"

text \<open>\<open>strchr\<close> also finds the terminating null character, so \<open>trim\<close> takes that off too.\<close>

definition is_blank :: "char \<Rightarrow> bool" where
  "is_blank c \<longleftrightarrow> c \<in> {CHR '' '', cr, lf, CHR 0x09, nul}"

definition trim :: "string \<Rightarrow> string" where
  "trim s = rev (dropWhile is_blank (rev (dropWhile is_blank s)))"

text \<open>\<open>tolower\<close> in the C locale.\<close>

definition to_lower :: "char \<Rightarrow> char" where
  "to_lower c = (let n = of_char c :: nat in if 65 \<le> n \<and> n \<le> 90 then char_of (n + 32) else c)"

definition lower_case :: "string \<Rightarrow> string" where
  "lower_case s = map to_lower s"

section \<open>Paths\<close>

text \<open>\<open>normalize\<close> works on the C string; \<open>elements.erase\<close> takes the last element off.\<close>

function path_elements :: "string list \<Rightarrow> string \<Rightarrow> string list" where
  "path_elements elements start =
    (case find_str ''/'' start of
       None \<Rightarrow> elements @ [start]
     | Some i \<Rightarrow>
         let element = take i start in
         path_elements (if element \<noteq> ''..'' then elements @ [element] else butlast elements)
           (drop (Suc i) start))"
  by pat_completeness auto
termination
proof (relation "measure (\<lambda>(_, s). length s)")
  fix start :: string and i and elements :: "string list" and x
  assume "find_str ''/'' start = Some i"
  then have "start \<noteq> []" by auto
  then show "((if x \<noteq> ''..'' then elements @ [x] else butlast elements, drop (Suc i) start),
      elements, start) \<in> measure (\<lambda>(_, s). length s)"
    by (cases start) auto
qed simp

declare path_elements.simps [simp del]

definition path_text :: "string list \<Rightarrow> string" where
  "path_text es = concat (map (Cons (CHR ''/'')) es)"

definition normalize :: "string \<Rightarrow> string" where
  "normalize s =
    (let c_str = takeWhile (\<lambda>c. c \<noteq> nul) s;
         start = (if c_str \<noteq> [] \<and> hd c_str = CHR ''/'' then tl c_str else c_str)
     in path_text (path_elements [] start))"

section \<open>Requests\<close>

type_synonym headers = "(string, string) ord_map"

record http_request =
  hr_method :: string
  hr_req :: string
  hr_path :: string
  hr_headers :: headers

abbreviation parse_failed :: fault where
  "parse_failed \<equiv> Runtime_error ''parse failed''"

lemma find_str_bound: "find_str needle s = Some i \<Longrightarrow> i + length needle \<le> length s"
proof (induction s arbitrary: i)
  case Nil
  then show ?case by (auto split: if_splits)
next
  case (Cons c s)
  show ?case
  proof (cases "take (length needle) (c # s) = needle")
    case True
    then have "length needle \<le> length (c # s)" by (metis length_take min.cobounded1)
    with True Cons.prems show ?thesis by auto
  next
    case False
    with Cons.prems obtain j where "i = Suc j" "find_str needle s = Some j" by auto
    with Cons.IH show ?thesis by simp
  qed
qed

text \<open>The header lines, from the line break in front of each; the last four characters end the request.\<close>

function parse_headers :: "headers \<Rightarrow> string option \<Rightarrow> fault + headers" where
  "parse_headers hs None = Inl parse_failed"
| "parse_headers hs (Some h) =
    (if length h = 4 then Inr hs
     else
       case find_str crlf (drop 2 h) of
         None \<Rightarrow> Inl parse_failed
       | Some i \<Rightarrow>
           (case find_str '':'' h of
              None \<Rightarrow> Inl parse_failed
            | Some v \<Rightarrow>
                if i + 2 < v then Inl parse_failed
                else
                  parse_headers (om_assign (lower_case (trim (take v h)))
                      (trim (take (i + 2 - Suc v) (drop (Suc v) h))) hs)
                    (Some (drop (i + 2) h))))"
  by pat_completeness auto
termination
proof (relation "measure (\<lambda>(_, h). case h of None \<Rightarrow> 0 | Some s \<Rightarrow> length s)")
  fix h and i :: nat and hs hs' :: headers
  assume "find_str crlf (drop 2 h) = Some i"
  then have "i + 2 \<le> length h - 2"
    using find_str_bound by (fastforce simp: crlf_def)
  then show "((hs', Some (drop (i + 2) h)), hs, Some h)
      \<in> measure (\<lambda>(_, h). case h of None \<Rightarrow> 0 | Some s \<Rightarrow> length s)"
    by simp
qed simp

declare parse_headers.simps [simp del]

definition parse_request :: "string \<Rightarrow> fault + http_request" where
  "parse_request s =
    (case find_str '' '' s of
       None \<Rightarrow> Inl parse_failed
     | Some sp \<Rightarrow>
         let rest = drop (Suc sp) s in
         case find_str '' '' rest of
           None \<Rightarrow> Inl parse_failed
         | Some sp2 \<Rightarrow>
             let meth = take sp s; req = take sp2 rest;
                 path = (if meth \<noteq> ''CONNECT'' then normalize (takeWhile (\<lambda>c. c \<noteq> CHR ''?'') req) else req);
                 tail = drop sp2 rest
             in bindE (parse_headers [] (map_option (\<lambda>i. drop i tail) (find_str crlf tail))) (\<lambda>hs.
                Inr \<lparr>hr_method = meth, hr_req = req, hr_path = path, hr_headers = hs\<rparr>))"

text \<open>The length of the first request in a buffer; \<open>None\<close> is the \<open>-1\<close> of the code.\<close>

definition find_request_len :: "string \<Rightarrow> nat option" where
  "find_request_len buf = map_option (\<lambda>i. i + 4) (find_str (crlf @ crlf) buf)"

section \<open>Responses\<close>

definition send_response :: "int \<Rightarrow> string \<Rightarrow> int \<Rightarrow> (string \<times> string \<times> string \<times> string) option \<Rightarrow> string" where
  "send_response code status_message len extra_header =
    ''HTTP/1.1 '' @ to_string code @ '' '' @ status_message @ crlf @
    ''content-length: '' @ to_string len @ crlf @
    (case extra_header of None \<Rightarrow> [] | Some (a, b, c, d) \<Rightarrow> a @ b @ c @ d) @
    crlf"

text \<open>
  A handler gets the method, the request and the headers, which it may change, and returns the
  response or throws.
\<close>

type_synonym handler_t = "string \<Rightarrow> string \<Rightarrow> headers \<Rightarrow> fault + (string \<times> headers)"

text \<open>Conversion of a 64 bit integer to \<open>int\<close>.\<close>

definition int32 :: "int \<Rightarrow> int" where
  "int32 x = (x + 2 ^ 31) mod 2 ^ 32 - 2 ^ 31"

definition after_char :: "char \<Rightarrow> string \<Rightarrow> string" where
  "after_char c s = (if c \<in> set s then tl (dropWhile (\<lambda>x. x \<noteq> c) s) else s)"

definition parse_range :: "string \<Rightarrow> fault + (int \<times> int)" where
  "parse_range v =
    (let range = after_char (CHR ''='') v in
     bindE (stoll (takeWhile (\<lambda>x. x \<noteq> CHR ''-'') range)) (\<lambda>start.
     bindE (stoll (after_char (CHR ''-'') range)) (\<lambda>l.
     if l = 2 ^ 63 - 1 then Inl Undefined_behaviour else Inr (start, l + 1))))"

definition content_handler :: "int \<Rightarrow> (int \<Rightarrow> int \<Rightarrow> string) \<Rightarrow> handler_t" where
  "content_handler n gen meth req hdr =
    (case om_find ''range'' hdr of
       None \<Rightarrow> Inr (send_response 200 ''OK'' (int32 n) None @ gen 0 n, hdr)
     | Some v \<Rightarrow>
         bindE (parse_range v) (\<lambda>(start, end').
         let header = ''Content-Range: bytes '' @ to_string start @ ''-'' @ to_string (end' - 1) @ ''/'' @
               to_string (end' - start) @ crlf
         in Inr (send_response 206 ''Partial Content'' (int32 (end' - start)) (Some (header, [], [], [])) @
              gen start (end' - start), hdr)))"

definition redirect_handler :: "string \<Rightarrow> handler_t" where
  "redirect_handler target meth req hdr =
    Inr (send_response 301 ''Moved Permanently'' 0 (Some (''Location: '' @ target @ crlf, [], [], [])), hdr)"

section \<open>Searching\<close>

lemma find_str_skip:
  "needle \<noteq> [] \<Longrightarrow> hd needle \<notin> set a \<Longrightarrow>
    find_str needle (a @ s) = map_option ((+) (length a)) (find_str needle s)"
proof (induction a)
  case Nil
  then show ?case by (simp add: option.map_ident)
next
  case (Cons c a)
  then have "take (length needle) (c # a @ s) \<noteq> needle"
    by (cases needle) auto
  with Cons show ?case
    by (cases "find_str needle s") auto
qed

lemma find_str_append: "find_str needle a = Some i \<Longrightarrow> find_str needle (a @ s) = Some i"
proof (induction a arbitrary: i)
  case Nil
  then have "needle = []" "i = 0" by (auto split: if_splits)
  then show ?case by (cases s) simp_all
next
  case (Cons c a)
  show ?case
  proof (cases "take (length needle) (c # a) = needle")
    case True
    have "length (take (length needle) (c # a)) = length needle"
      by (simp only: True)
    then have "length needle \<le> length (c # a)"
      by (simp add: min_def split: if_splits)
    with True have "take (length needle) (c # a @ s) = needle"
      by (cases "length needle") simp_all
    with True Cons.prems show ?thesis by simp
  next
    case False
    then obtain j where j: "find_str needle a = Some j" "i = Suc j"
      using Cons.prems by auto
    have "length needle \<le> length (c # a)"
      using find_str_bound [OF j(1)] by simp
    then have "take (length needle) (c # a @ s) \<noteq> needle"
      using False by (cases "length needle") simp_all
    with j Cons.IH [OF j(1)] show ?thesis by simp
  qed
qed

lemma find_request_len_bound: "find_request_len buf = Some k \<Longrightarrow> 0 < k \<and> k \<le> length buf"
  using find_str_bound by (fastforce simp: find_request_len_def crlf_def)

lemma find_request_len_append: "find_request_len a = Some k \<Longrightarrow> find_request_len (a @ s) = Some k"
  by (auto simp: find_request_len_def find_str_append)

lemma find_str_prefix: "find_str needle (needle @ s) = Some 0"
proof -
  have "take (length needle) (needle @ s) = needle" by simp
  then show ?thesis by (cases "needle @ s") simp_all
qed

lemma find_char: "find_str [c] s = (if c \<in> set s then Some (length (takeWhile (\<lambda>x. x \<noteq> c) s)) else None)"
  by (induction s) auto

lemma find_crlf: "cr \<notin> set a \<Longrightarrow> find_str crlf (a @ crlf @ s) = Some (length a)"
  using find_str_skip [of crlf a "crlf @ s"] by (simp add: find_str_prefix) (simp add: crlf_def)

lemma find_blank_line_skip:
  assumes "s \<noteq> []" and "hd s \<noteq> cr"
  shows "find_str (crlf @ crlf) (crlf @ s) = map_option ((+) 2) (find_str (crlf @ crlf) s)"
proof -
  obtain c t where "s = c # t" using assms(1) by (cases s) auto
  with assms(2) show ?thesis
    by (cases "find_str (crlf @ crlf) s") (auto simp: crlf_def)
qed

section \<open>Paths in normal form\<close>

lemma take_takeWhile: "take (length (takeWhile P s)) s = takeWhile P s"
  by (metis append_eq_conv_conj takeWhile_dropWhile_id)

lemma drop_takeWhile: "drop (length (takeWhile P s)) s = dropWhile P s"
  by (metis append_eq_conv_conj takeWhile_dropWhile_id)

lemma drop_Suc_takeWhile: "drop (Suc (length (takeWhile P s))) s = tl (dropWhile P s)"
  by (simp add: drop_Suc drop_takeWhile flip: tl_drop)

lemma set_tl_subset: "set (tl xs) \<subseteq> set xs"
  by (cases xs) auto

lemma path_elements_cases:
  "path_elements es s =
    (if CHR ''/'' \<in> set s
     then let e = takeWhile (\<lambda>c. c \<noteq> CHR ''/'') s in
       path_elements (if e \<noteq> ''..'' then es @ [e] else butlast es) (tl (dropWhile (\<lambda>c. c \<noteq> CHR ''/'') s))
     else es @ [s])"
  by (subst path_elements.simps) (simp add: find_char take_takeWhile drop_Suc_takeWhile Let_def)

lemma path_elements_normal:
  assumes "''..'' \<notin> set es" and "CHR ''/'' \<notin> set (concat es)"
  shows "\<exists>fs l. path_elements es s = fs @ [l] \<and> ''..'' \<notin> set fs \<and> CHR ''/'' \<notin> set (concat (fs @ [l])) \<and>
    set (concat (fs @ [l])) \<subseteq> set (concat es) \<union> set s"
  using assms
proof (induction es s rule: path_elements.induct)
  case (1 es s)
  show ?case
  proof (cases "CHR ''/'' \<in> set s")
    case False
    then have "path_elements es s = es @ [s]"
      by (simp add: path_elements_cases [of es s])
    with "1.prems" False show ?thesis by auto
  next
    case True
    define e where "e = takeWhile (\<lambda>c. c \<noteq> CHR ''/'') s"
    define es1 where "es1 = (if e \<noteq> ''..'' then es @ [e] else butlast es)"
    define s1 where "s1 = tl (dropWhile (\<lambda>c. c \<noteq> CHR ''/'') s)"
    have f: "find_str ''/'' s = Some (length e)"
      using True by (simp add: find_char e_def)
    have t: "take (length e) s = e" "drop (Suc (length e)) s = s1"
      by (simp_all add: e_def s1_def take_takeWhile drop_Suc_takeWhile)
    have sub: "set e \<subseteq> set s" "set s1 \<subseteq> set s"
      using set_tl_subset [of "dropWhile (\<lambda>c. c \<noteq> CHR ''/'') s"]
      by (auto simp: e_def s1_def dest: set_takeWhileD set_dropWhileD)
    have "CHR ''/'' \<notin> set e"
      by (auto simp: e_def dest: set_takeWhileD)
    then have "''..'' \<notin> set es1" "CHR ''/'' \<notin> set (concat es1)" "set (concat es1) \<subseteq> set (concat es) \<union> set s"
      using "1.prems" sub(1) by (auto simp: es1_def dest: in_set_butlastD)
    moreover have "path_elements es s = path_elements es1 s1"
      using True by (simp add: path_elements_cases [of es s] e_def es1_def s1_def Let_def)
    ultimately show ?thesis
      using "1.IH" [OF f refl] sub(2) unfolding t es1_def [symmetric] by fastforce
  qed
qed

lemma path_elements_of_text:
  assumes "''..'' \<notin> set fs" and "CHR ''/'' \<notin> set (concat (fs @ [l]))"
  shows "path_elements es (tl (path_text (fs @ [l]))) = es @ fs @ [l]"
  using assms
proof (induction fs arbitrary: es)
  case Nil
  then show ?case by (simp add: path_elements_cases [of es l] path_text_def)
next
  case (Cons f fs)
  define t where "t = tl (path_text (fs @ [l]))"
  have spelled: "tl (path_text (f # fs @ [l])) = f @ CHR ''/'' # t"
    by (cases fs) (simp_all add: path_text_def t_def)
  have slash: "CHR ''/'' \<notin> set f" "f \<noteq> ''..''"
    using Cons.prems by auto
  from slash(1) have "takeWhile (\<lambda>c. c \<noteq> CHR ''/'') (f @ CHR ''/'' # t) = f"
    "dropWhile (\<lambda>c. c \<noteq> CHR ''/'') (f @ CHR ''/'' # t) = CHR ''/'' # t"
    by (induction f) auto
  then have "path_elements es (f @ CHR ''/'' # t) = path_elements (es @ [f]) t"
    using slash(2) by (subst path_elements_cases) (simp add: Let_def)
  with Cons.IH [of "es @ [f]"] Cons.prems show ?case
    by (simp add: spelled t_def)
qed

text \<open>
  A normalised path is a list of components with a slash in front of each; none but the
  last is the parent directory, and normalising it again changes nothing.
\<close>

theorem normalize_resolves_parents:
  "\<exists>fs l. normalize s = path_text (fs @ [l]) \<and> ''..'' \<notin> set fs \<and>
    CHR ''/'' \<notin> set (concat (fs @ [l])) \<and> normalize (normalize s) = normalize s"
proof -
  define c_str where "c_str = takeWhile (\<lambda>c. c \<noteq> nul) s"
  define start where "start = (if c_str \<noteq> [] \<and> hd c_str = CHR ''/'' then tl c_str else c_str)"
  have n: "normalize s = path_text (path_elements [] start)"
    by (simp add: normalize_def c_str_def start_def Let_def)
  have "nul \<notin> set c_str"
    by (auto simp: c_str_def dest: set_takeWhileD)
  then have start: "nul \<notin> set start"
    by (auto simp: start_def dest: list.set_sel(2))
  obtain fs l where p: "path_elements [] start = fs @ [l]" "''..'' \<notin> set fs"
      "CHR ''/'' \<notin> set (concat (fs @ [l]))" "set (concat (fs @ [l])) \<subseteq> set start"
    using path_elements_normal [of "[]" start] by auto
  have "set (path_text es) \<subseteq> insert (CHR ''/'') (set (concat es))" for es
    by (induction es) (auto simp: path_text_def)
  then have nul: "nul \<notin> set (path_text (fs @ [l]))"
    using p(4) start by fastforce
  have whole: "takeWhile (\<lambda>c. c \<noteq> nul) (path_text (fs @ [l])) = path_text (fs @ [l])"
    using nul by (auto simp: takeWhile_eq_all_conv)
  have "path_text (fs @ [l]) \<noteq> []" "hd (path_text (fs @ [l])) = CHR ''/''"
    by (cases fs; simp add: path_text_def)+
  then have "normalize (path_text (fs @ [l])) = path_text (fs @ [l])"
    using path_elements_of_text [OF p(2,3), of "[]"] unfolding normalize_def whole by (simp add: Let_def)
  with n p show ?thesis by auto
qed

section \<open>Requests in print\<close>

definition header_line :: "string \<times> string \<Rightarrow> string" where
  "header_line h = fst h @ '': '' @ snd h @ crlf"

text \<open>How \<open>http_proxy::forward_request\<close> spells a request.\<close>

definition request_text :: "string \<Rightarrow> string \<Rightarrow> headers \<Rightarrow> string" where
  "request_text meth target hs =
    meth @ '' '' @ target @ '' HTTP/1.1'' @ crlf @ concat (map header_line hs) @ crlf"

text \<open>The same lines, each with its line break in front.\<close>

definition header_block :: "headers \<Rightarrow> string" where
  "header_block hs = concat (map (\<lambda>(k, v). crlf @ k @ '': '' @ v) hs) @ crlf @ crlf"

lemma request_text_block:
  "request_text meth target hs = meth @ '' '' @ target @ '' HTTP/1.1'' @ header_block hs"
proof -
  have "crlf @ concat (map header_line hs) @ crlf = header_block hs"
    by (induction hs) (auto simp: header_line_def header_block_def)
  then show ?thesis by (simp add: request_text_def)
qed

definition printable_header :: "string \<times> string \<Rightarrow> bool" where
  "printable_header h \<longleftrightarrow> cr \<notin> set (fst h) \<and> cr \<notin> set (snd h) \<and> CHR '':'' \<notin> set (fst h) \<and>
    lower_case (trim (fst h)) = fst h \<and> trim (snd h) = snd h"

definition printable_request :: "string \<Rightarrow> string \<Rightarrow> headers \<Rightarrow> bool" where
  "printable_request meth target hs \<longleftrightarrow>
    CHR '' '' \<notin> set (meth @ target) \<and> cr \<notin> set (meth @ target) \<and>
    om_invar hs \<and> list_all printable_header hs"

lemma dropWhile_prefix: "list_all P a \<Longrightarrow> dropWhile P (a @ s) = dropWhile P s"
  by (induction a) auto

lemma trim_prefix: "list_all is_blank a \<Longrightarrow> trim (a @ s) = trim s"
  by (simp add: trim_def dropWhile_prefix)

lemma header_block_Cons:
  "header_block ((k, v) # hs) = crlf @ (k @ '': '' @ v) @ header_block hs"
  by (simp add: header_block_def)

lemma header_block_crlf: "\<exists>s. header_block hs = crlf @ s"
  by (cases hs) (auto simp: header_block_def)

lemma parse_header_line:
  assumes "printable_header (k, v)"
  shows "parse_headers acc (Some (header_block ((k, v) # hs))) =
    parse_headers (om_assign k v acc) (Some (header_block hs))"
proof -
  obtain s where s: "header_block hs = crlf @ s"
    using header_block_crlf by blast
  let ?line = "k @ '': '' @ v" and ?h = "header_block ((k, v) # hs)"
  have p: "cr \<notin> set ?line" "CHR '':'' \<notin> set (crlf @ k)" "lower_case (trim (crlf @ k)) = k" "trim ('' '' @ v) = v"
    using assms by (auto simp: printable_header_def crlf_def trim_prefix [of "[cr, lf]", simplified]
        trim_prefix [of "'' ''", simplified] is_blank_def)
  have h: "?h = crlf @ ?line @ header_block hs"
    by (simp add: header_block_Cons)
  have two: "length crlf = 2" by (simp add: crlf_def)
  have "find_str crlf (drop 2 ?h) = Some (length ?line)"
    using find_crlf [OF p(1), of s] by (simp add: h two s)
  moreover have "find_str '':'' ?h = Some (2 + length k)"
    using find_str_skip [of "'':''" "crlf @ k" "'': '' @ v @ header_block hs"] p(2) two by (simp add: h)
  moreover have "length ?h \<noteq> 4"
    by (simp add: h s two)
  moreover have "take (2 + length k) ?h = crlf @ k" "drop (length ?line + 2) ?h = header_block hs"
    "take (length ?line + 2 - Suc (2 + length k)) (drop (Suc (2 + length k)) ?h) = '' '' @ v"
    by (simp_all add: h two)
  ultimately show ?thesis
    using p(3,4) by (subst parse_headers.simps) simp
qed

lemma om_assign_last:
  assumes "om_invar (m @ (k, v) # hs)"
  shows "om_assign k v m = m @ [(k, v)]"
proof -
  have less: "fst e < k" if "e \<in> set m" for e
    using assms that by (auto simp: om_invar_def sorted_wrt_append)
  then have "om_before k m = m" "om_lower_bound k m = []"
    by (auto simp: om_before_def om_lower_bound_def takeWhile_eq_all_conv dropWhile_eq_Nil_conv)
  then show ?thesis
    by (simp add: om_assign_def om_erase_def om_insert_def om_find_def)
qed

text \<open>The map the assignments of a list of headers make.\<close>

definition assign_all :: "headers \<Rightarrow> headers \<Rightarrow> headers" where
  "assign_all acc hs = foldl (\<lambda>m (k, v). om_assign k v m) acc hs"

lemma assign_all_simps [simp]:
  "assign_all acc [] = acc" "assign_all acc ((k, v) # hs) = assign_all (om_assign k v acc) hs"
  "assign_all acc (hs @ hs') = assign_all (assign_all acc hs) hs'"
  by (simp_all add: assign_all_def)

lemma assign_all_sorted: "om_invar (acc @ hs) \<Longrightarrow> assign_all acc hs = acc @ hs"
proof (induction hs arbitrary: acc)
  case Nil
  then show ?case by simp
next
  case (Cons h hs)
  obtain k v where "h = (k, v)" by (cases h)
  with Cons om_assign_last [of acc k v hs] show ?case by simp
qed

lemma parse_header_block:
  assumes "list_all printable_header hs"
  shows "parse_headers acc (Some (header_block hs)) = Inr (assign_all acc hs)"
  using assms
proof (induction hs arbitrary: acc)
  case Nil
  then show ?case by (subst parse_headers.simps) (simp add: header_block_def crlf_def)
next
  case (Cons h hs)
  obtain k v where "h = (k, v)" by (cases h)
  with Cons show ?case
    by (simp add: parse_header_line)
qed

lemma find_end_of_block:
  assumes "list_all printable_header hs"
  shows "find_str (crlf @ crlf) (header_block hs @ rest) = Some (length (header_block hs) - 4)"
  using assms
proof (induction hs)
  case Nil
  then show ?case by (simp add: header_block_def crlf_def)
next
  case (Cons h hs)
  obtain k v where h: "h = (k, v)" by (cases h)
  let ?line = "k @ '': '' @ v"
  have p: "cr \<notin> set ?line"
    using Cons.prems by (simp add: h printable_header_def)
  then have "hd (?line @ header_block hs @ rest) \<noteq> cr"
    by (cases k) auto
  moreover have "find_str (crlf @ crlf) (?line @ header_block hs @ rest) =
      Some (length ?line + (length (header_block hs) - 4))"
    using find_str_skip [of "crlf @ crlf" ?line "header_block hs @ rest"] p Cons
    by (simp add: crlf_def)
  moreover have "4 \<le> length (header_block hs)"
    by (simp add: header_block_def crlf_def)
  ultimately show ?case
    using find_blank_line_skip [of "?line @ header_block hs @ rest"]
    by (simp add: h header_block_Cons) (simp add: crlf_def)
qed

lemma request_text_parses:
  assumes "CHR '' '' \<notin> set (meth @ target)" and "cr \<notin> set (meth @ target)" and "list_all printable_header hs"
  shows "find_request_len (request_text meth target hs @ rest) = Some (length (request_text meth target hs))"
    and "parse_request (request_text meth target hs) = Inr \<lparr>hr_method = meth, hr_req = target,
      hr_path = (if meth = ''CONNECT'' then target else normalize (takeWhile (\<lambda>c. c \<noteq> CHR ''?'') target)),
      hr_headers = assign_all [] hs\<rparr>"
proof -
  let ?line = "meth @ '' '' @ target @ '' HTTP/1.1''" and ?text = "request_text meth target hs"
  have p: "CHR '' '' \<notin> set meth" "CHR '' '' \<notin> set target" "cr \<notin> set ?line"
    using assms by auto
  obtain s where s: "header_block hs = crlf @ s"
    using header_block_crlf by blast
  have parts: "?text = ?line @ header_block hs"
    by (simp add: request_text_block)
  have "4 \<le> length (header_block hs)"
    by (simp add: header_block_def crlf_def)
  then show "find_request_len (?text @ rest) = Some (length ?text)"
    using find_str_skip [of "crlf @ crlf" ?line "header_block hs @ rest"] p(3) find_end_of_block [OF assms(3), of rest]
    by (simp add: find_request_len_def parts) (simp add: crlf_def)
  have "find_str '' '' ?text = Some (length meth)"
    using find_str_skip [of "'' ''" meth "'' '' @ target @ '' HTTP/1.1'' @ header_block hs"] p(1) by (simp add: parts)
  moreover have "find_str '' '' (drop (Suc (length meth)) ?text) = Some (length target)"
    using find_str_skip [of "'' ''" target "'' HTTP/1.1'' @ header_block hs"] p(2) by (simp add: parts)
  moreover have "find_str crlf ('' HTTP/1.1'' @ header_block hs) = Some (length '' HTTP/1.1'')"
    using find_crlf [of "'' HTTP/1.1''" s] by (simp add: s)
  ultimately show "parse_request ?text = Inr \<lparr>hr_method = meth, hr_req = target,
      hr_path = (if meth = ''CONNECT'' then target else normalize (takeWhile (\<lambda>c. c \<noteq> CHR ''?'') target)),
      hr_headers = assign_all [] hs\<rparr>"
    using parse_header_block [OF assms(3), of "[]"] by (simp add: parse_request_def parts Let_def)
qed

lemma printable_request_parses:
  assumes "printable_request meth target hs"
  shows "find_request_len (request_text meth target hs @ rest) = Some (length (request_text meth target hs))"
    and "parse_request (request_text meth target hs) = Inr \<lparr>hr_method = meth, hr_req = target,
      hr_path = (if meth = ''CONNECT'' then target else normalize (takeWhile (\<lambda>c. c \<noteq> CHR ''?'') target)),
      hr_headers = hs\<rparr>"
  using assms request_text_parses(1) [of meth target hs rest] request_text_parses(2) [of meth target hs] assign_all_sorted [of "[]" hs]
  by (simp_all add: printable_request_def)

lemma find_request_len_prefix:
  assumes "find_request_len s = Some k" and "j < k"
  shows "find_request_len (take j s) = None"
proof (rule ccontr)
  assume "find_request_len (take j s) \<noteq> None"
  then obtain i where i: "find_request_len (take j s) = Some i" by auto
  then have "find_request_len (take j s @ drop j s) = Some i" by (rule find_request_len_append)
  with assms find_request_len_bound [OF i] show False by simp
qed

text \<open>
  C13. A request printed the way the proxy forwards it is found whole at the front of any
  buffer that starts with it, but in none of which it is not yet all there, and parsing it gives
  back the method, the target and the headers. What is found is the length of the request; the
  comment in the header file says the index to its last byte, which is one less.
\<close>

theorem request_reads_back:
  assumes "printable_request meth target hs"
  shows "find_request_len (request_text meth target hs @ rest) = Some (length (request_text meth target hs)) \<and>
    (\<forall>j < length (request_text meth target hs). find_request_len (take j (request_text meth target hs)) = None) \<and>
    parse_request (request_text meth target hs) = Inr \<lparr>hr_method = meth, hr_req = target,
      hr_path = (if meth = ''CONNECT'' then target else normalize (takeWhile (\<lambda>c. c \<noteq> CHR ''?'') target)),
      hr_headers = hs\<rparr>"
  using printable_request_parses [OF assms] printable_request_parses(1) [OF assms, of "[]"]
    find_request_len_prefix [of "request_text meth target hs" "length (request_text meth target hs)"]
  by simp

lemma request_reads_back_witness:
  "parse_request (request_text ''GET'' ''/a/../b?x'' [(''host'', ''h:80''), (''range'', ''bytes=1-2'')]) =
    Inr \<lparr>hr_method = ''GET'', hr_req = ''/a/../b?x'', hr_path = ''/b'',
      hr_headers = [(''host'', ''h:80''), (''range'', ''bytes=1-2'')]\<rparr>"
proof -
  have "printable_request ''GET'' ''/a/../b?x'' [(''host'', ''h:80''), (''range'', ''bytes=1-2'')]"
    by code_simp
  moreover have "normalize ''/a/../b'' = ''/b''"
    by code_simp
  ultimately show ?thesis
    using request_reads_back [of "''GET''" "''/a/../b?x''" "[(''host'', ''h:80''), (''range'', ''bytes=1-2'')]"]
    by simp
qed

section \<open>Numbers and ranges\<close>

lemma int32_id: "0 \<le> x \<Longrightarrow> x < 2 ^ 31 \<Longrightarrow> int32 x = x"
  by (simp add: int32_def)

text \<open>
  C33. A handler made by \<open>register_content\<close> answers a request for the bytes \<open>a\<close> to \<open>b\<close>, both
  included, with status 206, the length \<open>b - a + 1\<close>, and what the generator makes for that range.
  (The number after the slash in \<open>Content-Range\<close> is the length of the range too, not that of
  the content.)
\<close>

theorem content_handler_serves_range:
  assumes "om_find ''range'' hdr = Some (''bytes='' @ to_string a @ ''-'' @ to_string b)"
    and "0 \<le> a" and "a \<le> b" and "b < 2 ^ 31 - 1"
  shows "content_handler file_size gen meth req hdr =
    Inr (''HTTP/1.1 206 Partial Content'' @ crlf @ ''content-length: '' @ to_string (b - a + 1) @ crlf @
      ''Content-Range: bytes '' @ to_string a @ ''-'' @ to_string b @ ''/'' @ to_string (b - a + 1) @ crlf @
      crlf @ gen a (b - a + 1), hdr)"
proof -
  have plain: "CHR ''-'' \<notin> set (to_string i)" "CHR ''='' \<notin> set (to_string i)" if "0 \<le> i" for i
    using nat_string_digits [of "nat i"] that by (auto simp: to_string_def list_all_iff is_digit_def)
  have tw: "takeWhile (\<lambda>x. x \<noteq> c) (u @ c # v) = u" "dropWhile (\<lambda>x. x \<noteq> c) (u @ c # v) = c # v"
    if "c \<notin> set u" for u v :: string and c
    using that by (induction u) auto
  let ?range = "to_string a @ CHR ''-'' # to_string b"
  have "after_char (CHR ''='') (''bytes='' @ ?range) = ?range"
    by (simp add: after_char_def)
  moreover have "after_char (CHR ''-'') ?range = to_string b"
    using plain(1) [OF assms(2)] by (simp add: after_char_def tw)
  moreover have "stoll (to_string a) = Inr a" "stoll (to_string b) = Inr b"
    using assms(2-4) by (simp_all add: stoll_to_string)
  ultimately have "parse_range (''bytes='' @ to_string a @ ''-'' @ to_string b) = Inr (a, b + 1)"
    using plain(1) [OF assms(2)] assms(4) by (simp add: parse_range_def tw)
  moreover have "to_string 206 = ''206''"
    by (simp add: to_string_def nat_string.simps digit_def) code_simp
  moreover have len: "b + 1 - a = b - a + 1"
    by simp
  moreover have "int32 (b - a + 1) = b - a + 1"
    using assms(2-4) by (intro int32_id) simp_all
  ultimately show ?thesis
    by (simp add: content_handler_def assms(1) send_response_def len)
qed

lemma content_handler_serves_range_witness:
  "content_handler 100 (\<lambda>a n. replicate (nat n) (CHR ''x'')) ''GET'' ''/f'' [(''range'', ''bytes=3-5'')] =
    Inr (''HTTP/1.1 206 Partial Content'' @ crlf @ ''content-length: 3'' @ crlf @
      ''Content-Range: bytes 3-5/3'' @ crlf @ crlf @ ''xxx'', [(''range'', ''bytes=3-5'')])"
proof -
  have n: "to_string 3 = ''3''" "to_string 5 = ''5''"
    by code_simp+
  have "om_find ''range'' [(''range'', ''bytes=3-5'')] = Some (''bytes='' @ to_string 3 @ ''-'' @ to_string 5)"
    by (simp add: n om_find_def om_lower_bound_def)
  from content_handler_serves_range [OF this, of 100 "\<lambda>a n. replicate (nat n) (CHR ''x'')"] show ?thesis
    by (simp add: n numeral_eq_Suc)
qed

end
