(* ===== verification/Http_Server.thy ===== *)
theory Http_Server
  imports Network Http_Message
begin

text \<open>
  \<open>http_server\<close> (\<open>http_server.cpp\<close>): an acceptor, one connection at a time, and the handlers
  registered for paths. The object is a record beside the world; its callbacks are events that
  an injection \<open>ev\<close> turns into jobs of the application. The characters of \<open>m_recv_buffer\<close> and
  \<open>m_send_buffer\<close> stand at fixed places of the memory. Boost's \<open>async_write\<close>, which writes the
  whole buffer to a socket and then calls the handler, is a parameter.
\<close>

section \<open>Characters in memory\<close>

definition chars_of :: "byte list \<Rightarrow> string" where
  "chars_of bs = map (\<lambda>b. char_of (unat b)) bs"

definition bytes_of :: "string \<Rightarrow> byte list" where
  "bytes_of s = map (\<lambda>c. word_of_nat (of_char c)) s"

lemma chars_of_bytes_of [simp]: "chars_of (bytes_of s) = s"
proof -
  have "char_of (unat (word_of_nat (of_char c) :: byte)) = c" for c
  proof -
    have "(of_char c :: nat) < 256" by simp
    then have "unat (word_of_nat (of_char c) :: byte) = of_char c"
      by (simp add: unat_of_nat)
    then show ?thesis by simp
  qed
  then show ?thesis by (simp add: chars_of_def bytes_of_def comp_def)
qed

lemma length_chars [simp]: "length (chars_of bs) = length bs" "length (bytes_of s) = length s"
  by (simp_all add: chars_of_def bytes_of_def)

section \<open>State\<close>

record http_server =
  hs_ios :: nat
  hs_listen_socket :: nat
  hs_connection :: nat
  hs_ep :: nat
  hs_handlers :: "string \<rightharpoonup> handler_t"
  hs_stall_handlers :: "string set"
  hs_recv_at :: nat
  hs_recv_size :: nat
  hs_bytes_used :: nat
  hs_send_at :: nat
  hs_close :: bool
  hs_flags :: int
  hs_accepted_connections :: nat

definition keep_alive :: "http_server \<Rightarrow> bool" where
  "keep_alive s = bit (hs_flags s) 0"

definition http_1_0 :: "http_server \<Rightarrow> bool" where
  "http_1_0 s = bit (hs_flags s) 1"

datatype http_event = Http_accept error_code | Http_read error_code nat | Http_write error_code nat bool

type_synonym 'u async_write = "nat \<Rightarrow> buffer list \<Rightarrow> 'u io_handler \<Rightarrow> 'u world \<Rightarrow> fault + 'u world"

text \<open>\<open>bind(ep)\<close> and \<open>listen()\<close> throw their error.\<close>

definition throwing :: "error_code \<times> 'u world \<Rightarrow> fault + 'u world" where
  "throwing r = (case r of (ec, w) \<Rightarrow> if ec \<noteq> success then Inl (Thrown ec) else Inr w)"

text \<open>What the three servers do to listen on a port of their node, for any address of its family.\<close>

definition open_listener :: "'u net \<Rightarrow> nat \<Rightarrow> nat \<Rightarrow> 16 word \<Rightarrow> 'u world \<Rightarrow> fault + 'u world" where
  "open_listener fwd ios k port w =
    bindE (node_of ios w) (\<lambda>n.
    bindE (case m_ips n of [] \<Rightarrow> Inl Undefined_behaviour | ip # _ \<Rightarrow> Inr ip) (\<lambda>ip.
    bindE (tcp_open fwd k (is_v4 ip) w) (\<lambda>w1.
    bindE (bindE (tcp_bind k (Endpoint (if is_v4 ip then V4 0 else V6 0) port) w1) throwing) (\<lambda>w2.
    throwing (listen k (-1) w2)))))"

definition accept_next :: "'u net \<Rightarrow> (http_event \<Rightarrow> 'u) \<Rightarrow> http_server \<Rightarrow> 'u world \<Rightarrow> fault + 'u world" where
  "accept_next fwd ev s w =
    async_accept_endpoint fwd (hs_listen_socket s) (hs_connection s) (hs_ep s) (\<lambda>ec. App (ev (Http_accept ec))) w"

definition http_construct ::
  "'u net \<Rightarrow> (http_event \<Rightarrow> 'u) \<Rightarrow> nat \<Rightarrow> nat \<Rightarrow> nat \<Rightarrow> nat \<Rightarrow> 16 word \<Rightarrow> int \<Rightarrow> 'u world \<Rightarrow> fault + (http_server \<times> 'u world)" where
  "http_construct fwd ev ios ep recv_at send_at listen_port flags w =
    (let (k, w1) = acceptor_construct ios w; (c, w2) = tcp_construct ios w1;
         s = \<lparr>hs_ios = ios, hs_listen_socket = k, hs_connection = c, hs_ep = ep, hs_handlers = Map.empty,
           hs_stall_handlers = {}, hs_recv_at = recv_at, hs_recv_size = 0, hs_bytes_used = 0,
           hs_send_at = send_at, hs_close = False, hs_flags = flags, hs_accepted_connections = 0\<rparr>
     in bindE (open_listener fwd ios k listen_port w2) (\<lambda>w3.
        bindE (accept_next fwd ev s w3) (\<lambda>w4. Inr (s, w4))))"

definition register_handler :: "string \<Rightarrow> handler_t \<Rightarrow> http_server \<Rightarrow> http_server" where
  "register_handler path h s = s\<lparr>hs_handlers := (hs_handlers s)(path \<mapsto> h)\<rparr>"

definition register_content :: "string \<Rightarrow> int \<Rightarrow> (int \<Rightarrow> int \<Rightarrow> string) \<Rightarrow> http_server \<Rightarrow> http_server" where
  "register_content path n gen s = register_handler path (content_handler n gen) s"

definition register_redirect :: "string \<Rightarrow> string \<Rightarrow> http_server \<Rightarrow> http_server" where
  "register_redirect path target s = register_handler path (redirect_handler target) s"

definition register_stall_handler :: "string \<Rightarrow> http_server \<Rightarrow> http_server" where
  "register_stall_handler path s = s\<lparr>hs_stall_handlers := insert path (hs_stall_handlers s)\<rparr>"

section \<open>The connection\<close>

definition http_close_connection ::
  "'u net \<Rightarrow> (http_event \<Rightarrow> 'u) \<Rightarrow> http_server \<Rightarrow> 'u world \<Rightarrow> fault + (http_server \<times> 'u world)" where
  "http_close_connection fwd ev s w =
    (let s1 = s\<lparr>hs_recv_size := 0, hs_bytes_used := 0\<rparr> in
     bindE (tcp_close fwd (hs_connection s) w) (\<lambda>w1.
     if hs_close s then Inr (s1, w1)
     else bindE (accept_next fwd ev s1 w1) (\<lambda>w2. Inr (s1, w2))))"

text \<open>\<open>resize\<close> fills with null characters.\<close>

definition http_read :: "(http_event \<Rightarrow> 'u) \<Rightarrow> http_server \<Rightarrow> 'u world \<Rightarrow> fault + (http_server \<times> 'u world)" where
  "http_read ev s w =
    (let used = hs_bytes_used s; old = hs_recv_size s;
         new = (if old div 2 \<le> used then max 500 (used * 2) else old);
         s1 = s\<lparr>hs_recv_size := new\<rparr>;
         w1 = w\<lparr>w_mem := store (w_mem w) (hs_recv_at s + old) (replicate (new - old) 0)\<rparr>
     in bindE (assertE (used < new)) (\<lambda>_.
        bindE (async_read_some (hs_connection s) [(hs_recv_at s + used, new - used)]
          (Some (\<lambda>ec n. App (ev (Http_read ec n)))) w1) (\<lambda>w2. Inr (s1, w2))))"

definition http_on_accept ::
  "'u net \<Rightarrow> (http_event \<Rightarrow> 'u) \<Rightarrow> http_server \<Rightarrow> error_code \<Rightarrow> 'u world \<Rightarrow> fault + (http_server \<times> 'u world)" where
  "http_on_accept fwd ev s ec w =
    (if ec \<noteq> success then http_close_connection fwd ev s w
     else http_read ev (s\<lparr>hs_accepted_connections := hs_accepted_connections s + 1\<rparr>) w)"

text \<open>The response to a request; \<open>None\<close> when the path is one that stalls.\<close>

definition find_response :: "http_server \<Rightarrow> http_request \<Rightarrow> fault + (string \<times> headers) option" where
  "find_response s req =
    (case hs_handlers s (hr_path req) of
       Some h \<Rightarrow> bindE (h (hr_method req) (hr_req req) (hr_headers req)) (\<lambda>r. Inr (Some r))
     | None \<Rightarrow>
         if hr_path req \<in> hs_stall_handlers s then Inr None
         else Inr (Some (send_response 404 ''Not Found'' 0 None, hr_headers req)))"

text \<open>Whether to close after the response, and how the response says so.\<close>

definition finish_response :: "http_server \<Rightarrow> string \<Rightarrow> headers \<Rightarrow> fault + (string \<times> bool)" where
  "finish_response s r hdr =
    (if http_1_0 s then
       Inr (case find_str ''HTTP/1.1'' r of
              None \<Rightarrow> r
            | Some i \<Rightarrow> take i r @ ''HTTP/1.0'' @ drop (i + 8) r, True)
     else
       let close = (lower_case (case om_find ''connection'' hdr of None \<Rightarrow> [] | Some v \<Rightarrow> v) = ''close'' \<or>
             \<not> keep_alive s)
       in if \<not> close then Inr (r, False)
          else case find_str crlf r of
            None \<Rightarrow> Inr (r, True)
          | Some i \<Rightarrow>
              bindE (assertE (find_str ''Connection:'' r = None)) (\<lambda>_.
              Inr (take (i + 2) r @ ''Connection: close'' @ crlf @ drop (i + 2) r, True)))"

definition std_exception :: "fault \<Rightarrow> bool" where
  "std_exception f \<longleftrightarrow> (case f of
     Runtime_error _ \<Rightarrow> True | Logic_error _ \<Rightarrow> True | Thrown _ \<Rightarrow> True | Bad_address_cast \<Rightarrow> True | _ \<Rightarrow> False)"

text \<open>
  \<open>on_read\<close>. Parsing the request and making the response is what can throw; the handler of the
  exception closes the connection. It also covers reading on and writing the response, which report
  errors to their handlers and throw nothing.
\<close>

definition http_on_read ::
  "'u net \<Rightarrow> 'u async_write \<Rightarrow> (http_event \<Rightarrow> 'u) \<Rightarrow> http_server \<Rightarrow> error_code \<Rightarrow> nat \<Rightarrow> 'u world \<Rightarrow>
    fault + (http_server \<times> 'u world)" where
  "http_on_read fwd async_write ev s ec bytes_transferred w =
    (if ec \<noteq> success then http_close_connection fwd ev s w
     else
       let used = hs_bytes_used s + bytes_transferred; at = hs_recv_at s;
           buf = chars_of (load (w_mem w) at used); s1 = s\<lparr>hs_bytes_used := used\<rparr>
       in case find_request_len buf of
         None \<Rightarrow> http_read ev s1 w
       | Some n \<Rightarrow>
           (case bindE (parse_request (take n buf)) (\<lambda>req.
                 bindE (find_response s req) (\<lambda>r. case r of
                   None \<Rightarrow> Inr None
                 | Some (resp, hdr) \<Rightarrow> bindE (finish_response s resp hdr) (\<lambda>x. Inr (Some x)))) of
              Inl f \<Rightarrow> if std_exception f then http_close_connection fwd ev s1 w else Inl f
            | Inr r \<Rightarrow>
                let s2 = s1\<lparr>hs_recv_size := hs_recv_size s - n, hs_bytes_used := used - n\<rparr>;
                    m = store (w_mem w) at (load (w_mem w) (at + n) (hs_recv_size s - n))
                in case r of
                  None \<Rightarrow> Inr (s2, w\<lparr>w_mem := m\<rparr>)
                | Some (resp, close) \<Rightarrow>
                    bindE (async_write (hs_connection s) [(hs_send_at s, length resp)]
                      (\<lambda>ec k. App (ev (Http_write ec k close)))
                      (w\<lparr>w_mem := store m (hs_send_at s) (bytes_of resp)\<rparr>)) (\<lambda>w1. Inr (s2, w1))))"

definition http_on_write ::
  "'u net \<Rightarrow> (http_event \<Rightarrow> 'u) \<Rightarrow> http_server \<Rightarrow> error_code \<Rightarrow> bool \<Rightarrow> 'u world \<Rightarrow> fault + (http_server \<times> 'u world)" where
  "http_on_write fwd ev s ec close w =
    (if ec \<noteq> success then http_close_connection fwd ev s w
     else if \<not> close then Inr (s, post_job (App (ev (Http_read success 0))) w)
     else http_close_connection fwd ev s w)"

definition http_stop :: "http_server \<Rightarrow> 'u world \<Rightarrow> fault + (http_server \<times> 'u world)" where
  "http_stop s w = bindE (acceptor_close_all (hs_listen_socket s) w) (\<lambda>w1. Inr (s\<lparr>hs_close := True\<rparr>, w1))"

definition http_handle ::
  "'u net \<Rightarrow> 'u async_write \<Rightarrow> (http_event \<Rightarrow> 'u) \<Rightarrow> http_event \<Rightarrow> http_server \<Rightarrow> 'u world \<Rightarrow>
    fault + (http_server \<times> 'u world)" where
  "http_handle fwd async_write ev e s w =
    (case e of
       Http_accept ec \<Rightarrow> http_on_accept fwd ev s ec w
     | Http_read ec n \<Rightarrow> http_on_read fwd async_write ev s ec n w
     | Http_write ec _ close \<Rightarrow> http_on_write fwd ev s ec close w)"

section \<open>Answering a request\<close>

lemma chars_of_append [simp]: "chars_of (a @ b) = chars_of a @ chars_of b"
  by (simp add: chars_of_def)

lemma take_chars: "take n (chars_of bs) = chars_of (take n bs)" "drop n (chars_of bs) = chars_of (drop n bs)"
  by (simp_all add: chars_of_def take_map drop_map)

lemma take_load: "n \<le> k \<Longrightarrow> take n (load m a k) = load m a n" "n \<le> k \<Longrightarrow> drop n (load m a k) = load m (a + n) (k - n)"
  using load_append [of m a n "k - n"] by simp_all

text \<open>Reading the start of what was stored.\<close>

lemma load_store_front:
  assumes "n \<le> length bs"
  shows "load (store m a bs) a n = take n bs"
  using take_load(1) [OF assms, of "store m a bs" a] by simp

text \<open>
  C12. When the bytes of a whole request, and perhaps of later ones, have arrived, the server
  writes exactly the response of the handler for its path, tells \<open>on_write\<close> whether to close,
  and keeps the bytes after the request, in place at the front of the buffer, for the next turn.
\<close>

theorem http_request_answered:
  assumes "printable_request meth target hs"
    and "chars_of (load (w_mem w) (hs_recv_at s) (hs_bytes_used s + n)) = request_text meth target hs @ rest"
    and "hs_bytes_used s + n \<le> hs_recv_size s" and "hs_recv_at s + hs_recv_size s \<le> hs_send_at s"
    and "find_response s \<lparr>hr_method = meth, hr_req = target,
      hr_path = (if meth = ''CONNECT'' then target else normalize (takeWhile (\<lambda>c. c \<noteq> CHR ''?'') target)),
      hr_headers = hs\<rparr> = Inr (Some (resp, hdr))"
    and "finish_response s resp hdr = Inr (out, close)"
  shows "\<exists>s' m. http_on_read fwd async_write ev s success n w =
      bindE (async_write (hs_connection s) [(hs_send_at s, length out)] (\<lambda>ec k. App (ev (Http_write ec k close)))
        (w\<lparr>w_mem := m\<rparr>)) (\<lambda>w1. Inr (s', w1)) \<and>
    load m (hs_send_at s) (length out) = bytes_of out \<and>
    hs_bytes_used s' = length rest \<and> chars_of (load m (hs_recv_at s) (length rest)) = rest \<and>
    hs_bytes_used s' \<le> hs_recv_size s' \<and> hs_recv_at s' = hs_recv_at s \<and> hs_handlers s' = hs_handlers s"
proof -
  let ?text = "request_text meth target hs" and ?used = "hs_bytes_used s + n" and ?at = "hs_recv_at s"
  let ?k = "length ?text"
  have used: "?used = ?k + length rest"
    using arg_cong [OF assms(2), of length] by simp
  let ?m1 = "store (w_mem w) ?at (load (w_mem w) (?at + ?k) (hs_recv_size s - ?k))"
  let ?m = "store ?m1 (hs_send_at s) (bytes_of out)"
  let ?s = "s\<lparr>hs_recv_size := hs_recv_size s - ?k, hs_bytes_used := length rest\<rparr>"
  have "http_on_read fwd async_write ev s success n w =
      bindE (async_write (hs_connection s) [(hs_send_at s, length out)] (\<lambda>ec k. App (ev (Http_write ec k close)))
        (w\<lparr>w_mem := ?m\<rparr>)) (\<lambda>w1. Inr (?s, w1))"
    using printable_request_parses(1) [OF assms(1), of rest] printable_request_parses(2) [OF assms(1)] assms(2,5,6)
    by (simp add: http_on_read_def Let_def used split del: if_split)
  moreover have "load ?m (hs_send_at s) (length out) = bytes_of out"
    using load_store_same [of ?m1 "hs_send_at s" "bytes_of out"] by simp
  moreover have "chars_of (load ?m ?at (length rest)) = rest"
  proof -
    have "load ?m ?at (length rest) = load ?m1 ?at (length rest)"
      using assms(3,4) used by (intro load_store_disjoint) simp
    also have "\<dots> = take (length rest) (load (w_mem w) (?at + ?k) (hs_recv_size s - ?k))"
      using assms(3) used by (intro load_store_front) simp
    also have "\<dots> = load (w_mem w) (?at + ?k) (length rest)"
      using assms(3) used by (intro take_load) simp
    also have "\<dots> = drop ?k (load (w_mem w) ?at ?used)"
      using used by (simp add: take_load)
    finally show ?thesis
      using assms(2) by (simp flip: take_chars(2))
  qed
  moreover have "length rest \<le> hs_recv_size s - ?k"
    using assms(3) used by simp
  ultimately show ?thesis
    by (intro exI [of _ ?s] exI [of _ ?m]) simp
qed

definition demo_server :: http_server where
  "demo_server = \<lparr>hs_ios = 0, hs_listen_socket = 1, hs_connection = 2, hs_ep = 3, hs_handlers = Map.empty,
    hs_stall_handlers = {}, hs_recv_at = 0, hs_recv_size = 500, hs_bytes_used = 0, hs_send_at = 1000,
    hs_close = False, hs_flags = 1, hs_accepted_connections = 1\<rparr>"

lemma http_request_answered_witness:
  "\<exists>s' m. http_on_read (\<lambda>_. Inr) (\<lambda>_ _ _. Inr) (\<lambda>_. 0) demo_server success
      (length (request_text ''GET'' ''/x'' [] @ ''GET'')) (empty_world\<lparr>w_mem := store (\<lambda>_. 0) 0 (bytes_of (request_text ''GET'' ''/x'' [] @ ''GET''))\<rparr>) =
        Inr (s', empty_world\<lparr>w_mem := m\<rparr>) \<and> hs_bytes_used s' = 3 \<and> chars_of (load m 0 3) = ''GET'' \<and>
    load m 1000 (length (send_response 404 ''Not Found'' 0 None)) = bytes_of (send_response 404 ''Not Found'' 0 None)"
proof -
  let ?buf = "request_text ''GET'' ''/x'' [] @ ''GET''" and ?resp = "send_response 404 ''Not Found'' 0 None"
  let ?w = "empty_world\<lparr>w_mem := store (\<lambda>_. 0) 0 (bytes_of ?buf)\<rparr> :: nat world"
  have len: "length ?buf = 22"
    by code_simp
  have p: "printable_request ''GET'' ''/x'' []"
    by (simp add: printable_request_def)
  have c: "chars_of (load (w_mem ?w) (hs_recv_at demo_server) (hs_bytes_used demo_server + length ?buf)) = ?buf"
    using load_store_same [of "\<lambda>_. 0" 0 "bytes_of ?buf"] by (simp add: demo_server_def)
  have r: "find_response demo_server \<lparr>hr_method = ''GET'', hr_req = ''/x'',
      hr_path = (if ''GET'' = ''CONNECT'' then ''/x'' else normalize (takeWhile (\<lambda>c. c \<noteq> CHR ''?'') ''/x'')),
      hr_headers = []\<rparr> = Inr (Some (?resp, []))"
    by (simp add: find_response_def demo_server_def)
  have f: "finish_response demo_server ?resp [] = Inr (?resp, False)"
    by (simp add: finish_response_def http_1_0_def keep_alive_def demo_server_def lower_case_def Let_def)
  from http_request_answered [OF p c _ _ r f, of "\<lambda>_. Inr" "\<lambda>_ _ _. Inr" "\<lambda>_. 0"] len
  obtain s' m where "http_on_read (\<lambda>_. Inr) (\<lambda>_ _ _. Inr) (\<lambda>_. 0) demo_server success (length ?buf) ?w =
      Inr (s', ?w\<lparr>w_mem := m\<rparr>)" "hs_bytes_used s' = 3" "chars_of (load m 0 3) = ''GET''"
    "load m 1000 (length ?resp) = bytes_of ?resp"
    by (auto simp: demo_server_def numeral_eq_Suc)
  then show ?thesis
    by (intro exI [of _ s'] exI [of _ m]) simp
qed

section \<open>A request in pieces\<close>

lemma response_buffer_simps [simp]:
  "find_response (s\<lparr>hs_bytes_used := x\<rparr>) = find_response s" "find_response (s\<lparr>hs_recv_size := x\<rparr>) = find_response s"
  "finish_response (s\<lparr>hs_bytes_used := x\<rparr>) = finish_response s"
  "finish_response (s\<lparr>hs_recv_size := x\<rparr>) = finish_response s"
  by (simp_all add: fun_eq_iff find_response_def finish_response_def http_1_0_def keep_alive_def)

text \<open>
  C28. It makes no difference to the server that a request arrives in pieces. As long as the end is
  missing it answers nothing, keeps what it has, and reads on into the place after that, which
  is never empty; and once the rest is there it goes on as if all had come at once.
\<close>

theorem http_request_in_pieces:
  assumes "printable_request meth target hs" and "request_text meth target hs = a @ b" and "b \<noteq> []"
    and "length a = hs_bytes_used s + n" and "chars_of (load (w_mem w) (hs_recv_at s) (length a)) = a"
    and "length a \<le> hs_recv_size s"
  shows "\<exists>s1 w1 room. http_on_read fwd async_write ev s success n w =
      bindE (async_read_some (hs_connection s) [(hs_recv_at s + length a, room)]
        (Some (\<lambda>ec k. App (ev (Http_read ec k)))) w1) (\<lambda>w2. Inr (s1, w2)) \<and>
    0 < room \<and> chars_of (load (w_mem w1) (hs_recv_at s) (length a)) = a \<and>
    s1 = s\<lparr>hs_bytes_used := length a, hs_recv_size := length a + room\<rparr> \<and>
    (\<forall>k w'. http_on_read fwd async_write ev s1 success k w' =
      http_on_read fwd async_write ev (s1\<lparr>hs_bytes_used := 0\<rparr>) success (length a + k) w')"
proof -
  have none: "find_request_len a = None"
  proof (rule ccontr)
    assume "find_request_len a \<noteq> None"
    then obtain k where "find_request_len a = Some k" by auto
    then have "find_request_len (a @ b) = Some k" "k \<le> length a"
      using find_request_len_append find_request_len_bound by auto
    with printable_request_parses(1) [OF assms(1), of "[]"] assms(2,3) show False by simp
  qed
  let ?old = "hs_recv_size s"
  define new where "new = (if ?old div 2 \<le> length a then max 500 (length a * 2) else ?old)"
  have new: "length a < new"
    using assms(6) by (auto simp: new_def)
  let ?s = "s\<lparr>hs_bytes_used := length a, hs_recv_size := new\<rparr>"
  let ?v = "w\<lparr>w_mem := store (w_mem w) (hs_recv_at s + ?old) (replicate (new - ?old) 0)\<rparr>"
  have "http_on_read fwd async_write ev s success n w = http_read ev (s\<lparr>hs_bytes_used := length a\<rparr>) w"
    using none assms(4,5) by (simp add: http_on_read_def Let_def)
  also have "\<dots> = bindE (async_read_some (hs_connection s) [(hs_recv_at s + length a, new - length a)]
      (Some (\<lambda>ec k. App (ev (Http_read ec k)))) ?v) (\<lambda>w2. Inr (?s, w2))"
    using new by (simp add: http_read_def Let_def new_def [symmetric])
  finally have run: "http_on_read fwd async_write ev s success n w = \<dots>" .
  have kept: "chars_of (load (w_mem ?v) (hs_recv_at s) (length a)) = a"
    using assms(5,6) by (simp add: load_store_disjoint)
  have "http_on_read fwd async_write ev ?s success k w' =
      http_on_read fwd async_write ev (?s\<lparr>hs_bytes_used := 0\<rparr>) success (length a + k) w'" for k w'
    by (simp add: http_on_read_def Let_def cong: option.case_cong sum.case_cong)
  with run kept new show ?thesis
    by (intro exI [of _ ?s] exI [of _ ?v] exI [of _ "new - length a"]) simp
qed

lemma http_request_in_pieces_witness:
  "\<exists>s1 w1 room. http_on_read (\<lambda>_. Inr) (\<lambda>_ _ _. Inr) (\<lambda>_. 0) demo_server success 3
      (empty_world\<lparr>w_mem := store (\<lambda>_. 0) 0 (bytes_of ''GET'')\<rparr>) =
      bindE (async_read_some 2 [(3, room)] (Some (\<lambda>ec k. App 0)) w1) (\<lambda>w2. Inr (s1, w2)) \<and>
    0 < room \<and> chars_of (load (w_mem w1) 0 3) = ''GET''"
proof -
  let ?w = "empty_world\<lparr>w_mem := store (\<lambda>_. 0) 0 (bytes_of ''GET'')\<rparr> :: nat world"
  have p: "printable_request ''GET'' ''/x'' []"
    by (simp add: printable_request_def)
  have t: "request_text ''GET'' ''/x'' [] = ''GET'' @ (drop 3 (request_text ''GET'' ''/x'' []))"
    "drop 3 (request_text ''GET'' ''/x'' []) \<noteq> []"
    by code_simp+
  have l: "chars_of (load (w_mem ?w) (hs_recv_at demo_server) (length ''GET'')) = ''GET''"
    using load_store_same [of "\<lambda>_. 0" 0 "bytes_of ''GET''"] by (simp add: demo_server_def)
  have u: "length ''GET'' = hs_bytes_used demo_server + 3" "length ''GET'' \<le> hs_recv_size demo_server"
    by (simp_all add: demo_server_def)
  obtain s1 w1 room where "http_on_read (\<lambda>_. Inr) (\<lambda>_ _ _. Inr) (\<lambda>_. 0) demo_server success 3 ?w =
      bindE (async_read_some (hs_connection demo_server) [(hs_recv_at demo_server + length ''GET'', room)]
        (Some (\<lambda>ec k. App 0)) w1) (\<lambda>w2. Inr (s1, w2))"
    "0 < room" "chars_of (load (w_mem w1) (hs_recv_at demo_server) (length ''GET'')) = ''GET''"
    using http_request_in_pieces [OF p t u(1) l u(2), of "\<lambda>_. Inr" "\<lambda>_ _ _. Inr" "\<lambda>_. 0"]
    by (elim exE conjE) (rule that; assumption)
  then show ?thesis
    by (intro exI [of _ s1] exI [of _ w1] exI [of _ room]) (simp add: demo_server_def numeral_3_eq_3)
qed

end
