(* ===== verification/Http_Proxy.thy ===== *)
theory Http_Proxy
  imports Http_Server Resolver
begin

text \<open>
  \<open>http_proxy\<close> (\<open>http_proxy.cpp\<close>): it reads requests from one client, rewrites each from the
  absolute to the relative form, and forwards them over one connection to the server, whose
  bytes it passes back. As in theory \<open>Http_Server\<close>, the object is a record beside the world and
  its callbacks are events; its three buffers stand at fixed places of the memory.
\<close>

section \<open>State\<close>

record http_proxy =
  hp_resolver :: nat
  hp_listen_socket :: nat
  hp_client_connection :: nat
  hp_ep :: nat
  hp_server_connection :: nat
  hp_writing_to_server :: bool
  hp_client_in_at :: nat
  hp_num_client_in_bytes :: nat
  hp_server_out_at :: nat
  hp_num_server_out_bytes :: nat
  hp_in_at :: nat
  hp_num_in_bytes :: nat
  hp_close :: bool

definition proxy_buffer_size :: nat where
  "proxy_buffer_size = 65536"

datatype proxy_event =
    Proxy_accept error_code
  | Proxy_request error_code nat
  | Proxy_lookup error_code "resolver_entry list"
  | Proxy_connected error_code
  | Proxy_server_write error_code nat
  | Proxy_server_receive error_code nat
  | Proxy_server_forward error_code nat
  | Proxy_close_connection

definition proxy_accept_next :: "'u net \<Rightarrow> (proxy_event \<Rightarrow> 'u) \<Rightarrow> http_proxy \<Rightarrow> 'u world \<Rightarrow> fault + 'u world" where
  "proxy_accept_next fwd ev s w =
    async_accept_endpoint fwd (hp_listen_socket s) (hp_client_connection s) (hp_ep s)
      (\<lambda>ec. App (ev (Proxy_accept ec))) w"

definition proxy_construct ::
  "'u net \<Rightarrow> (proxy_event \<Rightarrow> 'u) \<Rightarrow> nat \<Rightarrow> nat \<Rightarrow> nat \<Rightarrow> nat \<Rightarrow> nat \<Rightarrow> 16 word \<Rightarrow> 'u world \<Rightarrow>
    fault + (http_proxy \<times> 'u world)" where
  "proxy_construct fwd ev ios ep client_in_at server_out_at in_at listen_port w =
    (let (r, w1) = resolver_construct ios w; (k, w2) = acceptor_construct ios w1;
         (c, w3) = tcp_construct ios w2; (v, w4) = tcp_construct ios w3;
         s = \<lparr>hp_resolver = r, hp_listen_socket = k, hp_client_connection = c, hp_ep = ep,
           hp_server_connection = v, hp_writing_to_server = False, hp_client_in_at = client_in_at,
           hp_num_client_in_bytes = 0, hp_server_out_at = server_out_at, hp_num_server_out_bytes = 0,
           hp_in_at = in_at, hp_num_in_bytes = 0, hp_close = False\<rparr>
     in bindE (open_listener fwd ios k listen_port w4) (\<lambda>w5.
        bindE (proxy_accept_next fwd ev s w5) (\<lambda>w6. Inr (s, w6))))"

definition proxy_close_connection ::
  "'u net \<Rightarrow> (proxy_event \<Rightarrow> 'u) \<Rightarrow> http_proxy \<Rightarrow> 'u world \<Rightarrow> fault + (http_proxy \<times> 'u world)" where
  "proxy_close_connection fwd ev s w =
    (let s1 = s\<lparr>hp_num_client_in_bytes := 0, hp_num_server_out_bytes := 0, hp_num_in_bytes := 0\<rparr> in
     bindE (tcp_close fwd (hp_client_connection s) w) (\<lambda>w1.
     bindE (tcp_close fwd (hp_server_connection s) w1) (\<lambda>w2.
     if hp_close s then Inr (s1, w2)
     else bindE (proxy_accept_next fwd ev s1 w2) (\<lambda>w3. Inr (s1, w3)))))"

section \<open>Rewriting a request\<close>

text \<open>\<open>find_last_of\<close>.\<close>

definition find_last :: "char \<Rightarrow> string \<Rightarrow> nat option" where
  "find_last c s =
    (if c \<in> set s then Some (length s - Suc (length (takeWhile (\<lambda>x. x \<noteq> c) (rev s)))) else None)"

text \<open>The path, host and port of an absolute request target; a missing position is \<open>npos\<close>.\<close>

definition proxy_target :: "string \<Rightarrow> fault + (string \<times> string \<times> int)" where
  "proxy_target req =
    (if take 7 req \<noteq> ''http://'' then Inl (Runtime_error ''invalid request'')
     else
       let path_start = map_option (\<lambda>i. i + 7) (find_str ''/'' (drop 7 req));
           path = (case path_start of None \<Rightarrow> ''/'' | Some p \<Rightarrow> drop p req);
           host_end = find_last (CHR '':'') (case path_start of None \<Rightarrow> req | Some p \<Rightarrow> take p req);
           explicit = (case host_end of None \<Rightarrow> None | Some e \<Rightarrow> if e \<le> 7 then None else Some e);
           host = (case explicit of
               Some e \<Rightarrow> take (e - 7) (drop 7 req)
             | None \<Rightarrow> (case path_start of None \<Rightarrow> drop 7 req | Some p \<Rightarrow> take (p - 7) (drop 7 req)));
           host1 = (if 2 \<le> length host \<and> hd host = CHR ''['' \<and> last host = CHR '']''
             then butlast (tl host) else host);
           port = (case explicit of
               None \<Rightarrow> 80
             | Some e \<Rightarrow> atoi (case path_start of None \<Rightarrow> drop (Suc e) req | Some p \<Rightarrow> take p (drop (Suc e) req)))
       in bindE (assertE (0 \<le> port \<and> port < 0xffff)) (\<lambda>_. Inr (path, host1, port)))"

definition forwarded_headers :: "string \<Rightarrow> headers \<Rightarrow> headers" where
  "forwarded_headers host hs = (if ''host'' \<in> fst ` set hs then hs else hs @ [(''host'', host)])"

definition forwarded_text :: "http_request \<Rightarrow> string \<Rightarrow> string \<Rightarrow> string" where
  "forwarded_text req path host = request_text (hr_method req) path (forwarded_headers host (hr_headers req))"

section \<open>Callbacks\<close>

definition open_forward_connection ::
  "'u net \<Rightarrow> (proxy_event \<Rightarrow> 'u) \<Rightarrow> endpoint \<Rightarrow> http_proxy \<Rightarrow> 'u world \<Rightarrow> fault + 'u world" where
  "open_forward_connection fwd ev target s w =
    bindE (tcp_open fwd (hp_server_connection s) (is_v4 (ep_address target)) w)
      (async_connect fwd (hp_server_connection s) target (Some (\<lambda>ec. App (ev (Proxy_connected ec)))))"

definition write_server_send_buffer ::
  "'u net \<Rightarrow> (proxy_event \<Rightarrow> 'u) \<Rightarrow> http_proxy \<Rightarrow> 'u world \<Rightarrow> fault + (http_proxy \<times> 'u world)" where
  "write_server_send_buffer fwd ev s w =
    (if hp_writing_to_server s then Inr (s, w)
     else
       bindE (async_write_some fwd (hp_server_connection s) [(hp_server_out_at s, hp_num_server_out_bytes s)]
         (Some (\<lambda>ec n. App (ev (Proxy_server_write ec n)))) w) (\<lambda>w1.
       Inr (s\<lparr>hp_writing_to_server := True\<rparr>, w1)))"

definition forward_request ::
  "'u net \<Rightarrow> (string \<Rightarrow> address option) \<Rightarrow> (proxy_event \<Rightarrow> 'u) \<Rightarrow> http_request \<Rightarrow> http_proxy \<Rightarrow> 'u world \<Rightarrow>
    fault + (http_proxy \<times> 'u world)" where
  "forward_request fwd make_address ev req s w =
    bindE (proxy_target (hr_req req)) (\<lambda>(path, host, port).
    let out = forwarded_text req path host; num = hp_num_server_out_bytes s in
    if proxy_buffer_size < num + length out then Inl (Runtime_error ''pipeline too deep'')
    else
      let w1 = w\<lparr>w_mem := store (w_mem w) (hp_server_out_at s + num) (bytes_of out)\<rparr>;
          s1 = s\<lparr>hp_num_server_out_bytes := num + length out\<rparr>
      in if \<not> m_open (w_tcp w1 (hp_server_connection s1)) then
           (case make_address host of
              None \<Rightarrow>
                bindE (async_resolve make_address (hp_resolver s1) host (to_string port)
                  (\<lambda>ec ips. App (ev (Proxy_lookup ec ips))) w1) (\<lambda>w2. Inr (s1, w2))
            | Some a \<Rightarrow>
                bindE (open_forward_connection fwd ev (Endpoint a (word_of_int port)) s1 w1) (\<lambda>w2. Inr (s1, w2)))
         else write_server_send_buffer fwd ev s1 w1)"

definition proxy_on_accept ::
  "'u net \<Rightarrow> (proxy_event \<Rightarrow> 'u) \<Rightarrow> http_proxy \<Rightarrow> error_code \<Rightarrow> 'u world \<Rightarrow> fault + (http_proxy \<times> 'u world)" where
  "proxy_on_accept fwd ev s ec w =
    (if ec = operation_aborted then Inr (s, w)
     else if ec \<noteq> success then proxy_close_connection fwd ev s w
     else bindE (async_read_some (hp_client_connection s) [(hp_client_in_at s, proxy_buffer_size)]
       (Some (\<lambda>ec n. App (ev (Proxy_request ec n)))) w) (\<lambda>w1. Inr (s, w1)))"

definition runtime_error :: "fault \<Rightarrow> bool" where
  "runtime_error f \<longleftrightarrow> (case f of Runtime_error _ \<Rightarrow> True | Thrown _ \<Rightarrow> True | _ \<Rightarrow> False)"

text \<open>
  The loop over the requests in the client's buffer, which holds \<open>n\<close> bytes. The result says
  whether a runtime error ended it; none is thrown once a request has changed anything.
\<close>

function proxy_requests ::
  "'u net \<Rightarrow> (string \<Rightarrow> address option) \<Rightarrow> (proxy_event \<Rightarrow> 'u) \<Rightarrow> nat \<Rightarrow> http_proxy \<Rightarrow> 'u world \<Rightarrow>
    fault + (bool \<times> http_proxy \<times> 'u world)" where
  "proxy_requests fwd make_address ev n s w =
    (let at = hp_client_in_at s; buf = chars_of (load (w_mem w) at n) in
     case find_request_len buf of
       None \<Rightarrow> Inr (False, s, w)
     | Some k \<Rightarrow>
         (case bindE (parse_request (take k buf)) (\<lambda>req. forward_request fwd make_address ev req s w) of
            Inl f \<Rightarrow> if runtime_error f then Inr (True, s, w) else Inl f
          | Inr (s1, w1) \<Rightarrow>
              proxy_requests fwd make_address ev (n - k) (s1\<lparr>hp_num_client_in_bytes := n - k\<rparr>)
                (w1\<lparr>w_mem := store (w_mem w1) at (load (w_mem w1) (at + k) (n - k))\<rparr>)))"
  by pat_completeness auto
termination
  by (relation "measure (\<lambda>(_, _, _, n, _, _). n)") (auto dest!: find_request_len_bound)

declare proxy_requests.simps [simp del]

definition proxy_on_read_request ::
  "'u net \<Rightarrow> (string \<Rightarrow> address option) \<Rightarrow> (proxy_event \<Rightarrow> 'u) \<Rightarrow> http_proxy \<Rightarrow> error_code \<Rightarrow> nat \<Rightarrow> 'u world \<Rightarrow>
    fault + (http_proxy \<times> 'u world)" where
  "proxy_on_read_request fwd make_address ev s ec bytes_transferred w =
    (if ec \<noteq> success then proxy_close_connection fwd ev s w
     else
       let n = hp_num_client_in_bytes s + bytes_transferred in
       bindE (proxy_requests fwd make_address ev n (s\<lparr>hp_num_client_in_bytes := n\<rparr>) w) (\<lambda>(threw, s1, w1).
       if threw then proxy_close_connection fwd ev s1 w1
       else
         let used = hp_num_client_in_bytes s1 in
         bindE (async_read_some (hp_client_connection s1) [(hp_client_in_at s1 + used, proxy_buffer_size - used)]
           (Some (\<lambda>ec n. App (ev (Proxy_request ec n)))) w1) (\<lambda>w2. Inr (s1, w2))))"

definition proxy_error ::
  "'u async_write \<Rightarrow> (proxy_event \<Rightarrow> 'u) \<Rightarrow> int \<Rightarrow> string \<Rightarrow> http_proxy \<Rightarrow> 'u world \<Rightarrow> fault + (http_proxy \<times> 'u world)" where
  "proxy_error async_write ev code message s w =
    (let r = send_response code message 0 None in
     bindE (async_write (hp_client_connection s) [(hp_in_at s, length r)] (\<lambda>_ _. App (ev Proxy_close_connection))
       (w\<lparr>w_mem := store (w_mem w) (hp_in_at s) (bytes_of r)\<rparr>)) (\<lambda>w1. Inr (s, w1)))"

definition proxy_on_domain_lookup ::
  "'u net \<Rightarrow> 'u async_write \<Rightarrow> (proxy_event \<Rightarrow> 'u) \<Rightarrow> http_proxy \<Rightarrow> error_code \<Rightarrow> resolver_entry list \<Rightarrow> 'u world \<Rightarrow>
    fault + (http_proxy \<times> 'u world)" where
  "proxy_on_domain_lookup fwd async_write ev s ec ips w =
    (if ec \<noteq> success \<or> ips = [] then proxy_error async_write ev 503 ''Resource Temporarily Unavailable'' s w
     else bindE (open_forward_connection fwd ev (e_endpoint (hd ips)) s w) (\<lambda>w1. Inr (s, w1)))"

definition proxy_read_server :: "(proxy_event \<Rightarrow> 'u) \<Rightarrow> http_proxy \<Rightarrow> 'u world \<Rightarrow> fault + 'u world" where
  "proxy_read_server ev s w =
    async_read_some (hp_server_connection s) [(hp_in_at s, proxy_buffer_size)]
      (Some (\<lambda>ec n. App (ev (Proxy_server_receive ec n)))) w"

definition proxy_on_connected ::
  "'u net \<Rightarrow> 'u async_write \<Rightarrow> (proxy_event \<Rightarrow> 'u) \<Rightarrow> http_proxy \<Rightarrow> error_code \<Rightarrow> 'u world \<Rightarrow>
    fault + (http_proxy \<times> 'u world)" where
  "proxy_on_connected fwd async_write ev s ec w =
    (if ec \<noteq> success then
       bindE (tcp_close fwd (hp_server_connection s) w)
         (proxy_error async_write ev 503 ''Service Temporarily Unavailable'' s)
     else
       bindE (write_server_send_buffer fwd ev s w) (\<lambda>(s1, w1).
       bindE (proxy_read_server ev s1 w1) (\<lambda>w2. Inr (s1, w2))))"

text \<open>The number of bytes to move is computed without a sign; a write of more than is left is undefined.\<close>

definition proxy_on_server_write ::
  "'u net \<Rightarrow> (proxy_event \<Rightarrow> 'u) \<Rightarrow> http_proxy \<Rightarrow> error_code \<Rightarrow> nat \<Rightarrow> 'u world \<Rightarrow> fault + (http_proxy \<times> 'u world)" where
  "proxy_on_server_write fwd ev s ec n w =
    (let s1 = s\<lparr>hp_writing_to_server := False\<rparr>; num = hp_num_server_out_bytes s; at = hp_server_out_at s in
     if ec \<noteq> success then proxy_close_connection fwd ev s1 w
     else if num < n then Inl Undefined_behaviour
     else
       let w1 = w\<lparr>w_mem := store (w_mem w) at (load (w_mem w) (at + n) (num - n))\<rparr>;
           s2 = s1\<lparr>hp_num_server_out_bytes := num - n\<rparr>
       in if 0 < num - n then write_server_send_buffer fwd ev s2 w1 else Inr (s2, w1))"

definition proxy_on_server_receive ::
  "'u net \<Rightarrow> 'u async_write \<Rightarrow> (proxy_event \<Rightarrow> 'u) \<Rightarrow> http_proxy \<Rightarrow> error_code \<Rightarrow> nat \<Rightarrow> 'u world \<Rightarrow>
    fault + (http_proxy \<times> 'u world)" where
  "proxy_on_server_receive fwd async_write ev s ec n w =
    (if ec \<noteq> success then proxy_close_connection fwd ev s w
     else bindE (async_write (hp_client_connection s) [(hp_in_at s, n)]
       (\<lambda>ec k. App (ev (Proxy_server_forward ec k))) w) (\<lambda>w1. Inr (s, w1)))"

definition proxy_on_server_forward ::
  "'u net \<Rightarrow> (proxy_event \<Rightarrow> 'u) \<Rightarrow> http_proxy \<Rightarrow> error_code \<Rightarrow> 'u world \<Rightarrow> fault + (http_proxy \<times> 'u world)" where
  "proxy_on_server_forward fwd ev s ec w =
    (if ec \<noteq> success then proxy_close_connection fwd ev s w
     else bindE (proxy_read_server ev s w) (\<lambda>w1. Inr (s, w1)))"

definition proxy_stop :: "http_proxy \<Rightarrow> 'u world \<Rightarrow> fault + (http_proxy \<times> 'u world)" where
  "proxy_stop s w = bindE (acceptor_close_all (hp_listen_socket s) w) (\<lambda>w1. Inr (s\<lparr>hp_close := True\<rparr>, w1))"

definition proxy_handle ::
  "'u net \<Rightarrow> 'u async_write \<Rightarrow> (string \<Rightarrow> address option) \<Rightarrow> (proxy_event \<Rightarrow> 'u) \<Rightarrow> proxy_event \<Rightarrow> http_proxy \<Rightarrow>
    'u world \<Rightarrow> fault + (http_proxy \<times> 'u world)" where
  "proxy_handle fwd async_write make_address ev e s w =
    (case e of
       Proxy_accept ec \<Rightarrow> proxy_on_accept fwd ev s ec w
     | Proxy_request ec n \<Rightarrow> proxy_on_read_request fwd make_address ev s ec n w
     | Proxy_lookup ec ips \<Rightarrow> proxy_on_domain_lookup fwd async_write ev s ec ips w
     | Proxy_connected ec \<Rightarrow> proxy_on_connected fwd async_write ev s ec w
     | Proxy_server_write ec n \<Rightarrow> proxy_on_server_write fwd ev s ec n w
     | Proxy_server_receive ec n \<Rightarrow> proxy_on_server_receive fwd async_write ev s ec n w
     | Proxy_server_forward ec _ \<Rightarrow> proxy_on_server_forward fwd ev s ec w
     | Proxy_close_connection \<Rightarrow> proxy_close_connection fwd ev s w)"

section \<open>What the server gets\<close>

lemma find_last_char: "c \<notin> set b \<Longrightarrow> find_last c (a @ c # b) = Some (length a)"
proof -
  assume "c \<notin> set b"
  then have "takeWhile (\<lambda>x. x \<noteq> c) (rev b @ c # rev a) = rev b"
    by (induction b rule: rev_induct) auto
  then show ?thesis by (simp add: find_last_def)
qed

text \<open>The part of a target between the last colon and the path, a number and what follows it.\<close>

lemma proxy_target_port:
  assumes "host \<noteq> []" and "CHR ''/'' \<notin> set (host @ mid)" and "CHR '':'' \<notin> set mid"
    and "mid \<noteq> [] \<Longrightarrow> \<not> is_digit (hd mid)"
    and "length host < 2 \<or> hd host \<noteq> CHR ''['' \<or> last host \<noteq> CHR '']''" and "0 \<le> port" and "port < 65535"
  shows "proxy_target (''http://'' @ host @ '':'' @ to_string port @ mid @ ''/'' @ p) = Inr (''/'' @ p, host, port)"
proof -
  define http where "http = ''http://''"
  define ps where "ps = to_string port"
  let ?before = "http @ host @ '':'' @ ps @ mid" and ?path = "''/'' @ p"
  let ?req = "http @ host @ '':'' @ ps @ mid @ ?path"
  have plain: "CHR ''/'' \<notin> set ps" "CHR '':'' \<notin> set (ps @ mid)"
    using to_string_plain [OF assms(6), of "CHR ''/''"] to_string_plain [OF assms(6), of "CHR '':''"] assms(3)
    by (auto simp: is_digit_def ps_def)
  have h7: "length http = 7" by (simp add: http_def)
  then have seven: "drop 7 ?req = host @ '':'' @ ps @ mid @ ?path" "take 7 ?req = http"
    by simp_all
  have cut: "take (length ?before) ?req = ?before" "drop (length ?before) ?req = ?path"
    by simp_all
  have "find_str ''/'' ((host @ '':'' @ ps @ mid) @ ?path) = Some (length (host @ '':'' @ ps @ mid))"
    using find_str_skip [of "''/''" "host @ '':'' @ ps @ mid" ?path] assms(2) plain(1) by simp
  then have start: "map_option (\<lambda>i. i + 7) (find_str ''/'' (drop 7 ?req)) = Some (length ?before)"
    unfolding seven using h7 by simp
  have colon: "find_last (CHR '':'') ?before = Some (7 + length host)"
    using find_last_char [OF plain(2), of "http @ host"] h7 by simp
  have after: "drop (Suc (7 + length host)) ?req = ps @ mid @ ?path"
    using h7 by simp
  have front: "take (length ?before) (ps @ mid @ ?path) = ps @ mid @ take (length ?before - length (ps @ mid)) ?path"
    using h7 by simp
  have "\<not> is_digit (hd (mid @ take (length ?before - length (ps @ mid)) ?path))"
    using assms(4) h7 by (cases mid) (auto simp: is_digit_def)
  then have number: "atoi (take (length ?before) (ps @ mid @ ?path)) = port"
    unfolding front using atoi_to_string [OF assms(6)] by (simp only: ps_def not_False_eq_True simp_thms)
  then have "proxy_target ?req = Inr (?path, host, port)"
    using assms(1,5-7)
    by (simp only: proxy_target_def Let_def http_def [symmetric] start [unfolded seven] seven option.case cut colon)
      (simp add: after h7 number [simplified h7] del: take_append, auto)
  then show ?thesis by (simp add: http_def ps_def)
qed

lemma list_all_forwarded:
  "list_all P hs \<Longrightarrow> P (''host'', host) \<Longrightarrow> list_all P (forwarded_headers host hs)"
  by (simp add: forwarded_headers_def)

lemma om_find_absent: "om_invar hs \<Longrightarrow> k \<notin> fst ` set hs \<Longrightarrow> om_find k hs = None"
  by (simp add: om_find_map_of map_of_eq_None_iff)

lemma om_find_present: "om_invar hs \<Longrightarrow> k \<in> fst ` set hs \<Longrightarrow> om_find k hs \<noteq> None"
  by (simp add: om_find_map_of map_of_eq_None_iff)

text \<open>
  C20. The request the proxy sends on, for a target \<open>http://host:port/path\<close>, is one the server
  reads as the client meant it: the method and the headers are the client's, the target is the
  path alone, and there is a \<open>host\<close> header, the client's or else the host of the target.
\<close>

theorem proxy_forwards_faithfully:
  assumes "host \<noteq> []" and "CHR ''/'' \<notin> set host" and "CHR '':'' \<notin> set host" and "hd host \<noteq> CHR ''[''"
    and "cr \<notin> set host" and "trim host = host" and "0 \<le> port" and "port < 65535"
    and "printable_request meth (''/'' @ p) hs"
    and "hr_method req = meth" and "hr_req req = ''http://'' @ host @ '':'' @ to_string port @ ''/'' @ p"
    and "hr_headers req = hs"
  shows "\<exists>path hs'. proxy_target (hr_req req) = Inr (''/'' @ p, host, port) \<and>
    parse_request (forwarded_text req (''/'' @ p) host) =
      Inr \<lparr>hr_method = meth, hr_req = ''/'' @ p, hr_path = path, hr_headers = hs'\<rparr> \<and>
    om_find ''host'' hs' = (case om_find ''host'' hs of None \<Rightarrow> Some host | Some v \<Rightarrow> Some v) \<and>
    (om_find k hs' = om_find k hs \<or> k = ''host'')"
proof -
  have p: "CHR '' '' \<notin> set (meth @ ''/'' @ p)" "cr \<notin> set (meth @ ''/'' @ p)" "om_invar hs" "list_all printable_header hs"
    using assms(9) by (simp_all add: printable_request_def)
  have "lower_case (trim ''host'') = ''host''"
    by code_simp
  then have "printable_header (''host'', host)"
    using assms(5,6) by (simp add: printable_header_def)
  then have all: "list_all printable_header (forwarded_headers host hs)"
    using p(4) by (rule list_all_forwarded [rotated])
  define hs' where "hs' = assign_all [] (forwarded_headers host hs)"
  have host: "om_find ''host'' hs' = (case om_find ''host'' hs of None \<Rightarrow> Some host | Some v \<Rightarrow> Some v) \<and>
      (om_find k hs' = om_find k hs \<or> k = ''host'')"
  proof (cases "''host'' \<in> fst ` set hs")
    case True
    then have "hs' = hs"
      using assign_all_sorted [of "[]" hs] p(3) by (simp add: hs'_def forwarded_headers_def)
    with om_find_present [OF p(3) True] show ?thesis by auto
  next
    case False
    then have "hs' = om_assign ''host'' host hs"
      using assign_all_sorted [of "[]" hs] p(3) by (simp add: hs'_def forwarded_headers_def)
    with om_find_absent [OF p(3) False] om_find_assign [OF p(3)] show ?thesis by auto
  qed
  have target: "proxy_target (hr_req req) = Inr (''/'' @ p, host, port)"
    using proxy_target_port [of host "[]" port p] assms(1-4,7,8,11) by simp
  show ?thesis
    unfolding forwarded_text_def assms(10,12)
    by (rule exI, rule exI [of _ hs'], rule conjI [OF target],
        rule conjI [OF request_text_parses(2) [OF p(1,2) all, folded hs'_def] host])
qed

lemma proxy_forwards_faithfully_witness:
  "\<exists>path hs'. parse_request (forwarded_text \<lparr>hr_method = ''GET'', hr_req = ''http://a.b:8080/x'',
      hr_path = [], hr_headers = []\<rparr> ''/x'' ''a.b'') =
      Inr \<lparr>hr_method = ''GET'', hr_req = ''/x'', hr_path = path, hr_headers = hs'\<rparr> \<and>
    om_find ''host'' hs' = Some ''a.b''"
proof -
  let ?req = "\<lparr>hr_method = ''GET'', hr_req = ''http://'' @ ''a.b'' @ '':'' @ to_string 8080 @ ''/'' @ ''x'',
      hr_path = [], hr_headers = []\<rparr>"
  have "trim ''a.b'' = ''a.b''" "printable_request ''GET'' (''/'' @ ''x'') []"
    by code_simp+
  moreover have "to_string 8080 = ''8080''"
    by (simp add: to_string_def nat_string.simps digit_chars)
  ultimately show ?thesis
    using proxy_forwards_faithfully [of "''a.b''" 8080 "''GET''" "''x''" "[]" ?req "[]"] by auto
qed

text \<open>
  The brackets of an IPv6 address that has no port are not recognised: the last colon of the
  address is taken for the one in front of a port. The host keeps its opening bracket and loses
  its end, and the port is read off the last group of the address.
\<close>

theorem proxy_misreads_ipv6:
  assumes "CHR ''/'' \<notin> set a" and "CHR '']'' \<notin> set a" and "0 \<le> g16" and "g16 < 65535"
  shows "proxy_target (''http://['' @ a @ '':'' @ to_string g16 @ '']/'' @ p) = Inr (''/'' @ p, ''['' @ a, g16)"
proof -
  have "length (''['' @ a) < 2 \<or> last (''['' @ a) \<noteq> CHR '']''"
    using assms(2) by (cases a) (auto dest: last_in_set)
  then show ?thesis
    using proxy_target_port [of "''['' @ a" "'']''" g16 p] assms(1,3,4) by (simp add: is_digit_def)
qed

lemma proxy_misreads_ipv6_witness:
  "proxy_target ''http://[::1]/x'' = Inr (''/x'', ''[:'', 1)"
proof -
  have "to_string 1 = ''1''" by (simp add: to_string_def nat_string.simps digit_chars)
  with proxy_misreads_ipv6 [of "'':''" 1 "''x''"] show ?thesis by simp
qed

section \<open>The buffers\<close>

text \<open>The state of a proxy: what is used of its buffers is inside them.\<close>

definition proxy_ok :: "http_proxy \<Rightarrow> bool" where
  "proxy_ok s \<longleftrightarrow> hp_num_client_in_bytes s \<le> proxy_buffer_size \<and> hp_num_server_out_bytes s \<le> proxy_buffer_size \<and>
    hp_num_in_bytes s \<le> proxy_buffer_size"

lemma proxy_close_connection_ok: "proxy_close_connection fwd ev s w = Inr (s', w') \<Longrightarrow> proxy_ok s'"
  by (auto simp: proxy_close_connection_def proxy_ok_def Let_def split: if_splits)

lemma write_server_ok: "write_server_send_buffer fwd ev s w = Inr (s', w') \<Longrightarrow> proxy_ok s \<Longrightarrow> proxy_ok s'"
  by (auto simp: write_server_send_buffer_def proxy_ok_def split: if_splits)

lemma forward_request_ok:
  assumes "forward_request fwd make_address ev req s w = Inr (s', w')" and "proxy_ok s"
  shows "proxy_ok s'"
proof -
  have "proxy_ok (s\<lparr>hp_num_server_out_bytes := n\<rparr>)" if "n \<le> proxy_buffer_size" for n
    using assms(2) that by (simp add: proxy_ok_def)
  then show ?thesis
    using assms(1) unfolding forward_request_def Let_def
    by (auto split: if_splits option.splits dest!: write_server_ok)
qed

lemma proxy_requests_ok:
  "proxy_requests fwd make_address ev n s w = Inr (threw, s', w') \<Longrightarrow> proxy_ok s \<Longrightarrow> n \<le> proxy_buffer_size \<Longrightarrow>
    proxy_ok s'"
proof (induction fwd make_address ev n s w rule: proxy_requests.induct)
  case (1 fwd make_address ev n s w)
  let ?buf = "chars_of (load (w_mem w) (hp_client_in_at s) n)"
  show ?case
  proof (cases "find_request_len ?buf")
    case None
    with "1.prems" show ?thesis by (auto simp: proxy_requests.simps [of fwd make_address ev n s w] Let_def)
  next
    case (Some k)
    show ?thesis
    proof (cases "bindE (parse_request (take k ?buf)) (\<lambda>req. forward_request fwd make_address ev req s w)")
      case (Inl f)
      with "1.prems" Some show ?thesis
        by (auto simp: proxy_requests.simps [of fwd make_address ev n s w] Let_def split: if_splits)
    next
      case (Inr r)
      obtain s1 w1 where r: "r = (s1, w1)" by fastforce
      have "proxy_ok s1"
        using Inr "1.prems"(2) by (auto simp: r dest: forward_request_ok)
      then have "proxy_ok (s1\<lparr>hp_num_client_in_bytes := n - k\<rparr>)"
        using "1.prems"(3) by (simp add: proxy_ok_def)
      with "1.IH" [OF refl refl Some Inr r [symmetric]] "1.prems" Some Inr r show ?thesis
        by (simp add: proxy_requests.simps [of fwd make_address ev n s w] Let_def)
    qed
  qed
qed

text \<open>
  C32. No event makes the proxy use more of its buffers than there is: a request that does not fit
  behind the ones that wait for the server is refused, and what is received goes into the rest
  of the client's buffer.
\<close>

theorem proxy_buffers_bounded:
  assumes "proxy_handle fwd async_write make_address ev e s w = Inr (s', w')" and "proxy_ok s"
    and "\<And>ec n. e = Proxy_request ec n \<Longrightarrow> hp_num_client_in_bytes s + n \<le> proxy_buffer_size"
  shows "hp_num_client_in_bytes s' \<le> proxy_buffer_size \<and> hp_num_server_out_bytes s' \<le> proxy_buffer_size"
proof -
  have request: "proxy_ok s'"
    if "proxy_on_read_request fwd make_address ev s ec n w = Inr (s', w')" "hp_num_client_in_bytes s + n \<le> proxy_buffer_size"
    for ec n
  proof -
    have "proxy_ok (s\<lparr>hp_num_client_in_bytes := hp_num_client_in_bytes s + n\<rparr>)"
      using assms(2) that(2) by (simp add: proxy_ok_def)
    then show ?thesis
      using that unfolding proxy_on_read_request_def Let_def
      by (auto split: if_splits dest: proxy_close_connection_ok proxy_requests_ok)
  qed
  have sent: "proxy_ok s'" if "proxy_on_server_write fwd ev s ec n w = Inr (s', w')" for ec n
  proof -
    have "proxy_ok (s\<lparr>hp_writing_to_server := False, hp_num_server_out_bytes := hp_num_server_out_bytes s - n\<rparr>)"
      using assms(2) by (auto simp: proxy_ok_def)
    then show ?thesis
      using that unfolding proxy_on_server_write_def Let_def
      by (auto split: if_splits dest: proxy_close_connection_ok write_server_ok)
  qed
  have "proxy_ok s'"
    using assms request sent
    by (cases e)
      (auto simp: proxy_handle_def proxy_on_accept_def proxy_on_domain_lookup_def proxy_error_def
        proxy_on_connected_def proxy_on_server_receive_def proxy_on_server_forward_def Let_def split: if_splits
        dest: proxy_close_connection_ok write_server_ok)
  then show ?thesis by (simp add: proxy_ok_def)
qed

lemma proxy_buffers_bounded_witness:
  "\<exists>s' w'. proxy_handle (\<lambda>_. Inr) (\<lambda>_ _ _. Inr) (\<lambda>_. None) (\<lambda>_. 0) (Proxy_server_write success 3)
      \<lparr>hp_resolver = 1, hp_listen_socket = 2, hp_client_connection = 3, hp_ep = 0, hp_server_connection = 4,
        hp_writing_to_server = True, hp_client_in_at = 0, hp_num_client_in_bytes = 9, hp_server_out_at = 70000,
        hp_num_server_out_bytes = 3, hp_in_at = 140000, hp_num_in_bytes = 0, hp_close = False\<rparr> (empty_world :: nat world) =
      Inr (s', w') \<and> hp_num_client_in_bytes s' \<le> proxy_buffer_size \<and> hp_num_server_out_bytes s' \<le> proxy_buffer_size"
proof -
  let ?s = "\<lparr>hp_resolver = 1, hp_listen_socket = 2, hp_client_connection = 3, hp_ep = 0, hp_server_connection = 4,
    hp_writing_to_server = True, hp_client_in_at = 0, hp_num_client_in_bytes = 9, hp_server_out_at = 70000,
    hp_num_server_out_bytes = 3, hp_in_at = 140000, hp_num_in_bytes = 0, hp_close = False\<rparr>"
  obtain s' and w' :: "nat world" where run: "proxy_handle (\<lambda>_. Inr) (\<lambda>_ _ _. Inr) (\<lambda>_. None) (\<lambda>_. 0)
      (Proxy_server_write success 3) ?s empty_world = Inr (s', w')"
    by (simp add: proxy_handle_def proxy_on_server_write_def Let_def)
  moreover have "proxy_ok ?s"
    by (simp add: proxy_ok_def proxy_buffer_size_def)
  ultimately show ?thesis
    using proxy_buffers_bounded [OF run] by simp
qed

end
