(* ===== verification/Udp_Unheard.thy ===== *)
theory Udp_Unheard
  imports Network
begin

text \<open>
  Whether no handler waits on a UDP socket. The network never makes one wait: a packet that is
  forwarded, whatever it reaches and whatever that sends in turn, leaves a socket on which no
  handler waits as it is in this. The proof follows \<open>forward_packet\<close> through the operations of TCP
  sockets and acceptors, which touch no UDP socket but through the network.
\<close>

definition unheard :: "nat \<Rightarrow> 'u world \<Rightarrow> bool" where
  "unheard k w \<longleftrightarrow> u_recv_handler (w_udp w k) = None \<and> u_wait_recv_handler (w_udp w k) = None"

lemma unheard_cong: "w_udp w = w_udp w' \<Longrightarrow> unheard k w = unheard k w'"
  by (simp add: unheard_def)

lemma unheard_frame [simp]:
  "unheard u (upd_tcp k f w) = unheard u w"
  "unheard u (upd_sched g w) = unheard u w"
  "unheard u (post_job j w) = unheard u w"
  "unheard u (cancel_timer t w) = unheard u w"
  "unheard u (set_forwarder i r w) = unheard u w"
  "unheard u (upd_channel c h w) = unheard u w"
  "unheard u (upd_queue q x w) = unheard u w"
  "unheard u (upd_acceptor k a w) = unheard u w"
  "unheard u (w\<lparr>w_sched := s\<rparr>) = unheard u w"
  "unheard u (w\<lparr>w_ports := ps\<rparr>) = unheard u w"
  "unheard u (w\<lparr>w_next_id := n\<rparr>) = unheard u w"
  "unheard u (w\<lparr>w_mem := m\<rparr>) = unheard u w"
  "unheard u (w\<lparr>w_eps := es\<rparr>) = unheard u w"
  "unheard u (w\<lparr>w_pcap := l\<rparr>) = unheard u w"
  "unheard u (w\<lparr>w_acceptors := acc\<rparr>) = unheard u w"
  "unheard u (move_timer t t' w) = unheard u w"
  by (auto simp: move_timer_def upd_acceptor_def intro!: unheard_cong)

section \<open>Operations without the network\<close>

lemma timer_ops_unheard:
  "timer_expires_at t e w = Inr w' \<Longrightarrow> unheard u w' = unheard u w"
  "timer_expires_after t e w = Inr w' \<Longrightarrow> unheard u w' = unheard u w"
  "timer_async_wait t h w = Inr w' \<Longrightarrow> unheard u w' = unheard u w"
  by (auto simp: timer_expires_at_def timer_expires_after_def timer_async_wait_def)

lemma write_log_unheard: "write_log f w = Inr w' \<Longrightarrow> unheard u w' = unheard u w"
  by (auto simp: write_log_def split: option.splits)

lemma tcp_abort_unheard [simp]:
  "unheard u (abort_recv_handlers k w) = unheard u w"
  "unheard u (abort_send_handlers k w) = unheard u w"
  by (simp_all add: abort_recv_handlers_def abort_send_handlers_def Let_def)

lemma tcp_small_unheard [simp]:
  "unheard u (tcp_cancel k w) = unheard u w"
  "unheard u (tcp_unbind k w) = unheard u w"
  "unheard u (tcp_drop_forwarder k w) = unheard u w"
  "unheard u (snd (tcp_construct ios w)) = unheard u w"
  "unheard u (tcp_destruct k w) = unheard u w"
  by (simp_all add: tcp_cancel_def tcp_unbind_def tcp_drop_forwarder_def tcp_construct_def tcp_destruct_def Let_def)

lemma reset_socket_unheard [simp]: "unheard u (reset_socket k w) = unheard u w"
  by (simp add: reset_socket_def Let_def)

lemma tcp_move_unheard: "tcp_move k w = Inr (k', w') \<Longrightarrow> unheard u w' = unheard u w"
  by (auto simp: tcp_move_def Let_def split: if_splits)

lemma packet_dropped_unheard: "packet_dropped k p w = Inr w' \<Longrightarrow> unheard u w' = unheard u w"
  by (auto simp: packet_dropped_def Let_def split: if_splits)

lemma read_unheard:
  "read_some_impl k bufs w = Inr (n, ec, w') \<Longrightarrow> unheard u w' = unheard u w"
  by (auto simp: read_some_impl_def Let_def split: if_splits option.splits)

lemma async_read_unheard: "async_read_some_impl k bufs h w = Inr w' \<Longrightarrow> unheard u w' = unheard u w"
  by (auto simp: async_read_some_impl_def split: if_splits dest!: read_unheard)

lemma wait_unheard [simp]:
  "unheard u (async_wait_read_impl k h w) = unheard u w"
  "unheard u (async_wait_write_impl k h w) = unheard u w"
  by (auto simp: async_wait_read_impl_def async_wait_write_impl_def Let_def split_beta)

lemma wakeup_reader_unheard: "maybe_wakeup_reader k w = Inr w' \<Longrightarrow> unheard u w' = unheard u w"
  by (auto simp: maybe_wakeup_reader_def Let_def split: if_splits dest!: async_read_unheard)

lemma abort_accept_unheard: "abort_accept r k w = Inr w' \<Longrightarrow> unheard u w' = unheard u w"
  using tcp_small_unheard(4) [of u _ "upd_acceptor k _ _"]
  by (auto simp: abort_accept_def Let_def split_beta split: option.splits)

lemma destroy_new_socket_unheard [simp]: "unheard u (destroy_new_socket k w) = unheard u w"
  by (auto simp: destroy_new_socket_def split: option.split)

lemma begin_send_unheard: "begin_send_next_packet q w = Inr w' \<Longrightarrow> unheard u w' = unheard u w"
  by (auto simp: begin_send_next_packet_def Let_def split: if_splits list.splits dest!: timer_ops_unheard)

lemma queue_incoming_unheard: "queue_incoming_packet q p w = Inr w' \<Longrightarrow> unheard u w' = unheard u w"
  by (auto simp: queue_incoming_packet_def Let_def split: if_splits option.splits
      dest!: packet_dropped_unheard begin_send_unheard)

lemmas quiet_ops = timer_ops_unheard write_log_unheard tcp_move_unheard wakeup_reader_unheard abort_accept_unheard

section \<open>Operations on a network that makes no socket wait\<close>

locale unheard_net =
  fixes fwd :: "'u net" and u :: nat
  assumes fwd_unheard: "fwd p w = Inr w' \<Longrightarrow> unheard u w \<Longrightarrow> unheard u w'"
begin

lemma send_packet_unheard: "send_packet fwd k p w = Inr w' \<Longrightarrow> unheard u w \<Longrightarrow> unheard u w'"
  by (auto simp: send_packet_def Let_def dest!: fwd_unheard write_log_unheard [where u = u])

lemma tcp_close_unheard: "tcp_close fwd k w = Inr w' \<Longrightarrow> unheard u w \<Longrightarrow> unheard u w'"
  by (auto simp: tcp_close_def close_channel_def Let_def split: option.splits if_splits dest!: send_packet_unheard)

lemma tcp_internal_connect_unheard:
  "tcp_internal_connect fwd k b c w = Inr w' \<Longrightarrow> unheard u w \<Longrightarrow> unheard u w'"
  by (auto simp: tcp_internal_connect_def tcp_open_def Let_def split: option.splits dest!: tcp_close_unheard)

lemma write_buffer_unheard:
  "write_buffer fwd k hops a n ret w = Inr (r, full, w') \<Longrightarrow> unheard u w \<Longrightarrow> unheard u w'"
proof (induction n arbitrary: a ret w rule: less_induct)
  case (less n)
  show ?case
  proof (cases "n = 0")
    case True
    with less.prems show ?thesis by (simp add: write_buffer.simps)
  next
    case False
    let ?s = "w_tcp w k"
    define size where "size = min n (nat (m_mss ?s))"
    define w1 where "w1 = upd_tcp k (\<lambda>s. s\<lparr>m_next_outgoing_seq := m_next_outgoing_seq s + 1\<rparr>) w"
    from less.prems(1) False obtain w2 where mss: "0 < m_mss ?s"
      and sent: "send_packet fwd k (payload_packet k hops (load (w_mem w) a size) ?s) w1 = Inr w2"
      and rest: "if window_full (w_tcp w2 k) then w' = w2
        else write_buffer fwd k hops (a + size) (n - size) (ret + size) w2 = Inr (r, full, w')"
      unfolding write_buffer.simps [of fwd k hops a n] Let_def size_def w1_def
      by (auto split: if_splits)
    have "unheard u w2"
      using sent by (rule send_packet_unheard) (use less.prems(2) in \<open>simp add: w1_def\<close>)
    moreover have "n - size < n"
      using False mss by (simp add: size_def)
    ultimately show ?thesis
      using rest less.IH by (auto split: if_splits)
  qed
qed

lemma write_buffers_unheard:
  "write_buffers fwd k hops bufs ret w = Inr (r, w') \<Longrightarrow> unheard u w \<Longrightarrow> unheard u w'"
proof (induction bufs arbitrary: ret w)
  case (Cons b bufs)
  obtain a n where "b = (a, n)" by fastforce
  with Cons show ?case by (auto split: if_splits dest: write_buffer_unheard)
qed simp

lemma wakeup_writer_unheard: "maybe_wakeup_writer fwd k w = Inr w' \<Longrightarrow> unheard u w \<Longrightarrow> unheard u w'"
  by (auto simp: maybe_wakeup_writer_def async_write_some_impl_def write_some_impl_def Let_def
      split: if_splits option.splits dest!: write_buffers_unheard)

lemma resend_unheard: "resend_packets fwd fuel k w = Inr w' \<Longrightarrow> unheard u w \<Longrightarrow> unheard u w'"
  by (induction fuel arbitrary: w) (auto simp: Let_def split: list.splits if_splits dest!: send_packet_unheard)

lemma tcp_incoming_unheard:
  "tcp_incoming_packet fwd fuel k p w = Inr w' \<Longrightarrow> unheard u w \<Longrightarrow> unheard u w'"
  by (auto simp: tcp_incoming_packet_def incoming_ack_def incoming_syn_ack_def incoming_data_def Let_def
      split: packet_type.splits option.splits if_splits prod.splits
      dest!: resend_unheard wakeup_writer_unheard fwd_unheard quiet_ops [where u = u])

lemma reset_conns_unheard: "reset_conns fwd e cs w = Inr w' \<Longrightarrow> unheard u w \<Longrightarrow> unheard u w'"
  by (induction cs arbitrary: w) (auto dest!: fwd_unheard)

lemma accept_first_unheard:
  "accept_first fwd k a c cs w = Inr w' \<Longrightarrow> unheard u w \<Longrightarrow> unheard u w'"
  by (auto simp: accept_first_def deliver_accepted_def Let_def split: option.splits
      dest!: tcp_internal_connect_unheard fwd_unheard quiet_ops [where u = u])

lemma acceptor_incoming_unheard:
  "acceptor_incoming_packet fwd k p w = Inr w' \<Longrightarrow> unheard u w \<Longrightarrow> unheard u w'"
  by (auto simp: acceptor_incoming_packet_def check_accept_queue_def flush_closed_def
      split: packet_type.splits if_splits list.splits
      dest!: reset_conns_unheard accept_first_unheard quiet_ops [where u = u])

end

section \<open>The network\<close>

lemma udp_receive_unheard:
  "async_receive_from_impl j bufs e h w = Inr w' \<Longrightarrow> j \<noteq> u \<Longrightarrow> unheard u w' = unheard u w"
  by (auto simp: async_receive_from_impl_def receive_from_impl_def unheard_def Let_def split_beta
      split: if_splits list.splits option.splits)

lemma udp_incoming_unheard: "udp_incoming_packet j p w = Inr w' \<Longrightarrow> unheard u w \<Longrightarrow> unheard u w'"
proof (cases "j = u")
  case True
  assume "udp_incoming_packet j p w = Inr w'" and "unheard u w"
  then show ?thesis
    using True by (auto simp: udp_incoming_packet_def udp_maybe_wakeup_reader_def unheard_def Let_def split: if_splits)
next
  case False
  then have frame: "unheard u (upd_udp j f v) = unheard u v" for f v
    by (simp add: unheard_def)
  assume "udp_incoming_packet j p w = Inr w'" and "unheard u w"
  then show ?thesis
    using False
    by (auto simp: udp_incoming_packet_def udp_maybe_wakeup_reader_def async_wait_receive_impl_def frame Let_def
        split: if_splits dest!: udp_receive_unheard [of j _ _ _ _ _ u])
qed

lemma forward_packet_unheard:
  "forward_packet n p w = Inr w' \<Longrightarrow> unheard u w \<Longrightarrow> unheard u w'"
proof (induction n arbitrary: p w w')
  case (Suc n)
  have net: "unheard_net (forward_packet n :: 'a net) u"
    by unfold_locales (rule Suc.IH)
  have hop: "unheard u w'" if "sink_incoming_packet (forward_packet n) n s q w = Inr w'" and "unheard u w"
    for s q and w :: "'a world"
    using that
    by (auto simp: sink_incoming_packet_def nat_incoming_packet_def forwarder_incoming_packet_def
        socket_incoming_packet_def Let_def split: sink.splits option.splits receiver.splits
        dest!: Suc.IH queue_incoming_unheard [where u = u] udp_incoming_unheard [where u = u]
          unheard_net.tcp_incoming_unheard [OF net] unheard_net.acceptor_incoming_unheard [OF net])
  show ?case
    using Suc.prems by (auto split: prod.splits option.splits dest!: hop)
qed simp

interpretation quiet_udp: unheard_net "forward_packet n" u for n u
  by unfold_locales (rule forward_packet_unheard)

end
