(* ===== verification/Socks_Relay.thy ===== *)
theory Socks_Relay
  imports Http_Server Resolver Udp_Unheard Pcap
begin

text \<open>
  The state of \<open>socks_server\<close> and \<open>socks_connection\<close> (\<open>socks_server.cpp\<close>), the replies to the client,
  the BIND command and the UDP relay; the handshake, the requests and the relaying of streams are
  in theory \<open>Socks_Server\<close>. As in theory \<open>Http_Server\<close>, each object is a record beside the world
  and its callbacks are events. The buffers and the endpoint
  \<open>m_udp_from\<close> stand at fixed places, and so do the local arrays the UDP relay sends from. Boost's
  \<open>async_read\<close> and \<open>async_write\<close>, which transfer whole buffers, and \<open>make_address\<close> are parameters.
  What a connection shares with its server by reference is a record of its own.
\<close>

section \<open>State\<close>

record socks_shared =
  sh_bind_port :: int
  sh_cmd_counts :: "int list"

record socks_connection =
  sc_ios :: nat
  sc_udp_resolver :: nat
  sc_resolver :: nat
  sc_name_mapping :: "(address \<times> string) list"
  sc_client_connection :: nat
  sc_server_connection :: nat
  sc_bind_socket :: nat
  sc_udp_associate :: nat
  sc_udp_associate_ep :: endpoint
  sc_udp_from :: nat
  sc_udp_buffer_at :: nat
  sc_local_at :: nat
  sc_out_at :: nat
  sc_num_out_bytes :: int
  sc_in_at :: nat
  sc_num_in_bytes :: int
  sc_close :: bool
  sc_version :: int
  sc_command :: int
  sc_flags :: int

datatype socks_event =
    Socks_handshake1 error_code nat
  | Socks_handshake2 error_code nat
  | Socks_handshake3 error_code nat
  | Socks_request1 error_code nat
  | Socks_domain_name error_code nat
  | Socks_domain_lookup error_code "resolver_entry list"
  | Socks_close
  | Socks_start_accept error_code
  | Socks_wait_for_eof error_code
  | Socks_read_udp error_code nat
  | Socks_udp_lookup "byte list" string error_code "resolver_entry list"
  | Socks_connected error_code
  | Socks_reply_written error_code
  | Socks_client_receive error_code nat
  | Socks_client_forward error_code
  | Socks_server_receive error_code nat
  | Socks_server_forward error_code

text \<open>The places of a connection's buffers: UDP, local, out, in, and of \<open>m_udp_from\<close>.\<close>

type_synonym places = "nat \<times> nat \<times> nat \<times> nat \<times> nat"

type_synonym 'u async_read = "nat \<Rightarrow> buffer list \<Rightarrow> 'u io_handler \<Rightarrow> 'u world \<Rightarrow> fault + 'u world"

definition socks_buffer_size :: nat where
  "socks_buffer_size = 65536"

definition udp_buffer_size :: nat where
  "udp_buffer_size = 1500"

definition disconnect_udp_associate :: "int \<Rightarrow> bool" where
  "disconnect_udp_associate flags = bit flags 0"

definition udp_associate_respond_empty_hostname :: "int \<Rightarrow> bool" where
  "udp_associate_respond_empty_hostname flags = bit flags 1"

definition socks_connection_construct ::
  "places \<Rightarrow> nat \<Rightarrow> int \<Rightarrow> int \<Rightarrow> 'u world \<Rightarrow> socks_connection \<times> 'u world" where
  "socks_connection_construct pl ios version flags w =
    (let (udp_at, local_at, out_at, in_at, from) = pl;
         (ur, w1) = resolver_construct ios w; (r, w2) = resolver_construct ios w1;
         (c, w3) = tcp_construct ios w2; (v, w4) = tcp_construct ios w3;
         (b, w5) = acceptor_construct ios w4; (u, w6) = udp_construct ios w5
     in (\<lparr>sc_ios = ios, sc_udp_resolver = ur, sc_resolver = r, sc_name_mapping = [],
          sc_client_connection = c, sc_server_connection = v, sc_bind_socket = b, sc_udp_associate = u,
          sc_udp_associate_ep = default_endpoint, sc_udp_from = from, sc_udp_buffer_at = udp_at,
          sc_local_at = local_at, sc_out_at = out_at, sc_num_out_bytes = 0, sc_in_at = in_at,
          sc_num_in_bytes = 0, sc_close = False, sc_version = version, sc_command = 0, sc_flags = flags\<rparr>, w6))"

section \<open>Bytes\<close>

text \<open>A \<open>char\<close> has a sign; a signed value used as a size does not.\<close>

definition schar :: "byte \<Rightarrow> int" where
  "schar b = sint b"

definition size_of_int :: "int \<Rightarrow> nat" where
  "size_of_int i = nat (i mod 2 ^ 64)"

definition port_at :: "memory \<Rightarrow> nat \<Rightarrow> 16 word" where
  "port_at m a = push_bit 8 (ucast (m a)) OR ucast (m (a + 1))"

definition addr_at :: "memory \<Rightarrow> nat \<Rightarrow> 32 word" where
  "addr_at m a =
    push_bit 8 (push_bit 8 (push_bit 8 (ucast (m a)) OR ucast (m (a + 1))) OR ucast (m (a + 2))) OR
    ucast (m (a + 3))"

text \<open>\<open>to_bytes\<close> of an IPv6 address.\<close>

definition be128 :: "128 word \<Rightarrow> byte list" where
  "be128 w = map (\<lambda>i. ucast (drop_bit (8 * (15 - i)) w)) [0..<16]"

section \<open>Closing, connecting, replying\<close>

definition socks_close_connection :: "'u net \<Rightarrow> socks_connection \<Rightarrow> 'u world \<Rightarrow> fault + 'u world" where
  "socks_close_connection fwd s w =
    bindE (tcp_close fwd (sc_client_connection s) w) (\<lambda>w1.
    bindE (tcp_close fwd (sc_server_connection s) w1) (acceptor_close fwd (sc_bind_socket s)))"

definition format_response ::
  "address \<Rightarrow> int \<Rightarrow> int \<Rightarrow> socks_connection \<Rightarrow> 'u world \<Rightarrow> fault + (nat \<times> 'u world)" where
  "format_response addr port response s w =
    bindE (if sc_version s = 5 then
        Inr ([word_of_int (sc_version s), word_of_int response, 0] @
          (case addr of V4 a \<Rightarrow> 1 # be32 a | V6 a \<Rightarrow> 4 # be128 a) @ be16 (word_of_int port))
      else
        (case addr of
           V4 a \<Rightarrow> Inr ([0, word_of_int response] @ be16 (word_of_int port) @ be32 a)
         | V6 _ \<Rightarrow> Inl Assertion_failed))
    (\<lambda>bs. Inr (length bs, w\<lparr>w_mem := store (w_mem w) (sc_in_at s) bs\<rparr>))"

definition format_hostname_response ::
  "'u net \<Rightarrow> string \<Rightarrow> int \<Rightarrow> int \<Rightarrow> socks_connection \<Rightarrow> 'u world \<Rightarrow> fault + (nat \<times> 'u world)" where
  "format_hostname_response fwd hostname port response s w =
    (if sc_version s \<noteq> 5 then
       bindE (socks_close_connection fwd s w) (\<lambda>w1. Inr (0, w1))
     else
       let bs = [word_of_int (sc_version s), word_of_int response, 0, 3, word_of_nat (length hostname)] @
             bytes_of hostname @ be16 (word_of_int port)
       in Inr (length bs, w\<lparr>w_mem := store (w_mem w) (sc_in_at s) bs\<rparr>))"

definition socks_open_forward_connection ::
  "'u net \<Rightarrow> (socks_event \<Rightarrow> 'u) \<Rightarrow> endpoint \<Rightarrow> socks_connection \<Rightarrow> 'u world \<Rightarrow> fault + 'u world" where
  "socks_open_forward_connection fwd ev target s w =
    bindE (tcp_open fwd (sc_server_connection s) (is_v4 (ep_address target)) w)
      (async_connect fwd (sc_server_connection s) target (Some (\<lambda>ec. App (ev (Socks_connected ec)))))"

text \<open>The reply that has been formatted, after which the connection is closed.\<close>

definition refuse ::
  "'u async_write \<Rightarrow> (socks_event \<Rightarrow> 'u) \<Rightarrow> nat \<Rightarrow> socks_connection \<Rightarrow> 'u world \<Rightarrow> fault + 'u world" where
  "refuse async_write ev len s =
    async_write (sc_client_connection s) [(sc_in_at s, len)] (\<lambda>_ _. App (ev Socks_close))"

text \<open>The functions without an error code throw theirs.\<close>

definition endpoint_or_throw :: "error_code \<times> endpoint \<Rightarrow> fault + endpoint" where
  "endpoint_or_throw r = (case r of (ec, ep) \<Rightarrow> if ec \<noteq> success then Inl (Thrown ec) else Inr ep)"

definition bind_connection ::
  "'u net \<Rightarrow> 'u async_write \<Rightarrow> (socks_event \<Rightarrow> 'u) \<Rightarrow> endpoint \<Rightarrow> socks_connection \<Rightarrow> 'u world \<Rightarrow> fault + 'u world" where
  "bind_connection fwd async_write ev target s w =
    bindE (tcp_open fwd (sc_bind_socket s) (is_v4 (ep_address target)) w) (\<lambda>w1.
    bindE (tcp_bind (sc_bind_socket s) target w1) (\<lambda>(ec, w2).
    let response = (if ec \<noteq> success then (if sc_version s = 4 then 91 else 1)
                    else (if sc_version s = 4 then 90 else 0))
    in bindE (endpoint_or_throw (local_endpoint (w_tcp w2 (sc_bind_socket s)))) (\<lambda>ep.
       bindE (format_response (ep_address ep) (uint (ep_port ep)) response s w2) (\<lambda>(len, w3).
       if ec \<noteq> success then refuse async_write ev len s w3
       else async_write (sc_client_connection s) [(sc_in_at s, len)]
         (\<lambda>ec _. App (ev (Socks_start_accept ec))) w3))))"

section \<open>UDP\<close>

definition receive_udp :: "(socks_event \<Rightarrow> 'u) \<Rightarrow> socks_connection \<Rightarrow> 'u world \<Rightarrow> fault + 'u world" where
  "receive_udp ev s =
    async_receive_from (sc_udp_associate s) [(sc_udp_buffer_at s, udp_buffer_size)] (Some (sc_udp_from s))
      (Some (\<lambda>ec n. App (ev (Socks_read_udp ec n))))"

definition udp_associate ::
  "'u net \<Rightarrow> 'u async_write \<Rightarrow> (socks_event \<Rightarrow> 'u) \<Rightarrow> endpoint \<Rightarrow> socks_shared \<Rightarrow> socks_connection \<Rightarrow> 'u world \<Rightarrow>
    fault + (socks_shared \<times> socks_connection \<times> 'u world)" where
  "udp_associate fwd async_write ev target sh s w =
    (let s1 = s\<lparr>sc_udp_associate_ep := target\<rparr>; k = sc_udp_associate s;
         w1 = udp_open k (is_v4 (ep_address target)) w;
         sh1 = sh\<lparr>sh_bind_port := sh_bind_port sh + 1\<rparr>
     in bindE (udp_bind k (Endpoint default_address (word_of_int (sh_bind_port sh))) w1) (\<lambda>(ec, w2).
        bindE (if ec \<noteq> success then Inr w2
               else receive_udp ev s1 (upd_udp k (set_non_blocking True) w2)) (\<lambda>w3.
        let response = (if ec \<noteq> success then 1 else 0) in
        bindE (endpoint_or_throw (local_bound_to (w_udp w3 k))) (\<lambda>ep.
        bindE (if udp_associate_respond_empty_hostname (sc_flags s)
               then format_hostname_response fwd ''foobar'' (uint (ep_port ep)) response s1 w3
               else format_response (ep_address ep) (uint (ep_port ep)) response s1 w3) (\<lambda>(len, w4).
        bindE (if ec \<noteq> success then refuse async_write ev len s1 w4
               else async_write (sc_client_connection s) [(sc_in_at s, len)]
                 (\<lambda>ec _. App (ev (Socks_wait_for_eof ec))) w4) (\<lambda>w5.
        Inr (sh1, s1, w5)))))))"

definition wait_for_eof ::
  "'u net \<Rightarrow> (socks_event \<Rightarrow> 'u) \<Rightarrow> error_code \<Rightarrow> socks_connection \<Rightarrow> 'u world \<Rightarrow> fault + (socks_connection \<times> 'u world)" where
  "wait_for_eof fwd ev ec s w =
    (if ec \<noteq> success then
       bindE (tcp_close fwd (sc_client_connection s) (udp_close (sc_udp_associate s) w)) (\<lambda>w1.
       Inr (s\<lparr>sc_udp_associate_ep := default_endpoint\<rparr>, w1))
     else if disconnect_udp_associate (sc_flags s) then
       bindE (tcp_close fwd (sc_client_connection s) w) (\<lambda>w1. Inr (s, w1))
     else
       bindE (async_read_some (sc_client_connection s) [(sc_out_at s, socks_buffer_size)]
         (Some (\<lambda>ec _. App (ev (Socks_wait_for_eof ec)))) w) (\<lambda>w1. Inr (s, w1)))"

text \<open>\<open>m_name_mapping\<close>, a map in both directions: neither side is ever there twice.\<close>

definition name_of_address :: "address \<Rightarrow> (address \<times> string) list \<Rightarrow> string option" where
  "name_of_address a nm = map_of nm a"

definition address_of_name :: "string \<Rightarrow> (address \<times> string) list \<Rightarrow> address option" where
  "address_of_name h nm = map_of (map (\<lambda>(a, b). (b, a)) nm) h"

definition insert_name :: "address \<Rightarrow> string \<Rightarrow> (address \<times> string) list \<Rightarrow> (address \<times> string) list" where
  "insert_name a h nm = (if a \<in> fst ` set nm \<or> h \<in> snd ` set nm then nm else nm @ [(a, h)])"

text \<open>The header of a datagram that is passed to the client.\<close>

definition relay_header :: "endpoint \<Rightarrow> (address \<times> string) list \<Rightarrow> fault + byte list" where
  "relay_header from nm =
    (case name_of_address (ep_address from) nm of
       Some h \<Rightarrow> Inr ([0, 0, 0, 3, word_of_nat (length h)] @ bytes_of h @ be16 (ep_port from))
     | None \<Rightarrow>
         (case ep_address from of
            V4 a \<Rightarrow> Inr ([0, 0, 0, 1] @ be32 a @ be16 (ep_port from))
          | V6 _ \<Rightarrow> Inl Bad_address_cast))"

definition send_and_drop_error :: "'u net \<Rightarrow> nat \<Rightarrow> buffer list \<Rightarrow> endpoint \<Rightarrow> 'u world \<Rightarrow> fault + 'u world" where
  "send_and_drop_error fwd k b dst w = bindE (send_to fwd k b dst w) (\<lambda>(_, _, w1). Inr w1)"

text \<open>
  A datagram from the client. The result says whether to receive again. A size that would be
  negative is a size of almost \<open>2\<^sup>6\<^sup>4\<close>; a string or vector of such a size cannot be made.
\<close>

definition relay_from_client ::
  "'u net \<Rightarrow> (string \<Rightarrow> address option) \<Rightarrow> (socks_event \<Rightarrow> 'u) \<Rightarrow> nat \<Rightarrow> socks_connection \<Rightarrow> 'u world \<Rightarrow>
    fault + (bool \<times> 'u world)" where
  "relay_from_client fwd make_address ev n s w =
    (let at = sc_udp_buffer_at s; m = w_mem w; k = sc_udp_associate s; atyp = schar (m (at + 3)) in
     if atyp = 3 then
       let len = schar (m (at + 4)) in
       if len < 0 then Inl (Logic_error ''length_error'')
       else
         let hostname = chars_of (load m (at + 5) (nat len)); port = port_at m (at + 5 + nat len);
             left = int n - 7 - len; data = at + 7 + nat len
         in case address_of_name hostname (sc_name_mapping s) of
           Some a \<Rightarrow>
             bindE (send_and_drop_error fwd k [(data, size_of_int left)] (Endpoint a port) w) (\<lambda>w1.
             Inr (False, w1))
         | None \<Rightarrow>
             if left < 0 then Inl Undefined_behaviour
             else
               bindE (async_resolve make_address (sc_udp_resolver s) (takeWhile (\<lambda>c. c \<noteq> nul) hostname)
                 (to_string (uint port))
                 (\<lambda>ec ips. App (ev (Socks_udp_lookup (load m data (nat left)) hostname ec ips))) w) (\<lambda>w1.
               Inr (True, w1))
     else if atyp = 1 then
       bindE (send_and_drop_error fwd k [(at + 10, size_of_int (int n - 10))]
         (Endpoint (V4 (addr_at m (at + 4))) (port_at m (at + 8))) w) (\<lambda>w1. Inr (True, w1))
     else Inr (True, w))"

definition relay_to_client :: "'u net \<Rightarrow> nat \<Rightarrow> socks_connection \<Rightarrow> 'u world \<Rightarrow> fault + 'u world" where
  "relay_to_client fwd n s w =
    bindE (relay_header (w_eps w (sc_udp_from s)) (sc_name_mapping s)) (\<lambda>h.
    send_and_drop_error fwd (sc_udp_associate s) [(sc_local_at s, length h), (sc_udp_buffer_at s, n)]
      (sc_udp_associate_ep s) (w\<lparr>w_mem := store (w_mem w) (sc_local_at s) h\<rparr>))"

definition on_read_udp ::
  "'u net \<Rightarrow> (string \<Rightarrow> address option) \<Rightarrow> (socks_event \<Rightarrow> 'u) \<Rightarrow> error_code \<Rightarrow> nat \<Rightarrow> socks_connection \<Rightarrow> 'u world \<Rightarrow>
    fault + (socks_connection \<times> 'u world)" where
  "on_read_udp fwd make_address ev ec bytes_transferred s w =
    (if ec \<noteq> success then Inr (s, w)
     else
       let from = w_eps w (sc_udp_from s); ep = sc_udp_associate_ep s;
           s1 = (if ep_port ep = 0 \<and> ep_address from = ep_address ep
             then s\<lparr>sc_udp_associate_ep := set_port (ep_port from) ep\<rparr> else s)
       in bindE (if from = sc_udp_associate_ep s1 then relay_from_client fwd make_address ev bytes_transferred s1 w
                 else bindE (relay_to_client fwd bytes_transferred s1 w) (\<lambda>w1. Inr (True, w1))) (\<lambda>(again, w1).
          if again then bindE (receive_udp ev s1 w1) (\<lambda>w2. Inr (s1, w2)) else Inr (s1, w1)))"

text \<open>The handler of the lookup: the datagram goes to the first address it can be sent to.\<close>

fun send_to_first ::
  "'u net \<Rightarrow> byte list \<Rightarrow> string \<Rightarrow> resolver_entry list \<Rightarrow> socks_connection \<Rightarrow> 'u world \<Rightarrow>
    fault + (socks_connection \<times> 'u world)" where
  "send_to_first fwd buf hostname [] s w = Inr (s, w)"
| "send_to_first fwd buf hostname (ip # ips) s w =
    bindE (send_to fwd (sc_udp_associate s) [(sc_local_at s, length buf)] (e_endpoint ip)
      (w\<lparr>w_mem := store (w_mem w) (sc_local_at s) buf\<rparr>)) (\<lambda>(_, ec, w1).
    if ec = success then
      Inr (s\<lparr>sc_name_mapping := insert_name (ep_address (e_endpoint ip)) hostname (sc_name_mapping s)\<rparr>, w1)
    else send_to_first fwd buf hostname ips s w1)"

definition on_udp_lookup ::
  "'u net \<Rightarrow> byte list \<Rightarrow> string \<Rightarrow> error_code \<Rightarrow> resolver_entry list \<Rightarrow> socks_connection \<Rightarrow> 'u world \<Rightarrow>
    fault + (socks_connection \<times> 'u world)" where
  "on_udp_lookup fwd buf hostname ec ips s w =
    (if ec \<noteq> success then Inr (s, w) else send_to_first fwd buf hostname ips s w)"

section \<open>Replies\<close>

text \<open>How a client reads a reply: the code, the address and the port.\<close>

definition read_be128 :: "byte list \<Rightarrow> 128 word" where
  "read_be128 bs = foldl (\<lambda>acc b. push_bit 8 acc OR ucast b) 0 bs"

definition read_reply :: "byte list \<Rightarrow> byte \<times> address \<times> 16 word" where
  "read_reply bs =
    (if bs ! 0 = 5 then
       (if bs ! 3 = 1 then (bs ! 1, V4 (read_be32 (take 4 (drop 4 bs))), read_be16 (take 2 (drop 8 bs)))
        else (bs ! 1, V6 (read_be128 (take 16 (drop 4 bs))), read_be16 (take 2 (drop 20 bs))))
     else (bs ! 1, V4 (read_be32 (take 4 (drop 4 bs))), read_be16 (take 2 (drop 2 bs))))"

lemma be128_length [simp]: "length (be128 w) = 16"
  by (simp add: be128_def)

lemma append_byte:
  assumes "k < 16"
  shows "push_bit 8 (drop_bit (8 * (16 - k)) w) OR ucast (ucast (drop_bit (8 * (15 - k)) w) :: byte) =
    drop_bit (8 * (15 - k)) (w :: 128 word)"
proof (rule bit_word_eqI)
  fix n
  assume n: "n < LENGTH(128)"
  show "bit (push_bit 8 (drop_bit (8 * (16 - k)) w) OR ucast (ucast (drop_bit (8 * (15 - k)) w) :: byte)) n =
      bit (drop_bit (8 * (15 - k)) w) n"
  proof (cases "n < 8")
    case False
    then have "8 * (16 - k) + (n - 8) = 8 * (15 - k) + n"
      using assms by arith
    with False n show ?thesis
      by (simp add: bit_simps)
  qed (use n in \<open>auto simp: bit_simps\<close>)
qed

lemma read_be128 [simp]: "read_be128 (be128 w) = w"
proof -
  have "foldl (\<lambda>acc b. push_bit 8 acc OR ucast b) 0
      (map (\<lambda>i. ucast (drop_bit (8 * (15 - i)) w) :: byte) [0..<k]) = drop_bit (8 * (16 - k)) w" if "k \<le> 16" for k
    using that
  proof (induction k)
    case 0
    show ?case by (rule bit_word_eqI) (auto simp: bit_simps dest: bit_imp_le_length)
  next
    case (Suc k)
    then show ?case using append_byte [of k w] by simp
  qed
  from this [of 16] show ?thesis
    by (simp add: read_be128_def be128_def del: upt_conv_Cons)
qed

text \<open>
  C23. A reply, of either version and for either kind of address, is read by the client as the
  code, address and port it was formatted from, and nothing else of the memory changes.
\<close>

theorem socks_reply_reads_back:
  assumes "sc_version s = 5 \<or> sc_version s = 4 \<and> is_v4 addr"
  shows "\<exists>len w'. format_response addr port response s w = Inr (len, w') \<and>
    read_reply (load (w_mem w') (sc_in_at s) len) = (word_of_int response, addr, word_of_int port) \<and>
    w' = w\<lparr>w_mem := w_mem w'\<rparr> \<and>
    (\<forall>a n. a + n \<le> sc_in_at s \<or> sc_in_at s + len \<le> a \<longrightarrow> load (w_mem w') a n = load (w_mem w) a n)"
proof -
  obtain bs where bs: "format_response addr port response s w =
      Inr (length bs, w\<lparr>w_mem := store (w_mem w) (sc_in_at s) bs\<rparr>)"
    "read_reply bs = (word_of_int response, addr, word_of_int port)"
  proof (cases addr)
    case (V4 a)
    show ?thesis
      by (rule that [of "if sc_version s = 5 then [5, word_of_int response, 0, 1] @ be32 a @ be16 (word_of_int port)
          else [0, word_of_int response] @ be16 (word_of_int port) @ be32 a"])
        (use assms V4 in \<open>auto simp: format_response_def read_reply_def\<close>)
  next
    case (V6 a)
    then have "sc_version s = 5"
      using assms by (simp add: is_v4_def)
    then show ?thesis
      using V6 that [of "[5, word_of_int response, 0, 4] @ be128 a @ be16 (word_of_int port)"]
      by (simp add: format_response_def read_reply_def)
  qed
  then show ?thesis
    by (auto intro: load_store_disjoint)
qed

definition demo_places :: places where
  "demo_places = (0, 2000, 4000, 70000, 9)"

definition demo_connection :: "int \<Rightarrow> socks_connection" where
  "demo_connection version = \<lparr>sc_ios = 0, sc_udp_resolver = 1, sc_resolver = 2, sc_name_mapping = [(V4 7, ''a.b'')],
    sc_client_connection = 3, sc_server_connection = 4, sc_bind_socket = 5, sc_udp_associate = 6,
    sc_udp_associate_ep = Endpoint (V4 1) 1000, sc_udp_from = 9, sc_udp_buffer_at = 0, sc_local_at = 2000,
    sc_out_at = 4000, sc_num_out_bytes = 0, sc_in_at = 70000, sc_num_in_bytes = 0, sc_close = False,
    sc_version = version, sc_command = 0, sc_flags = 0\<rparr>"

lemma socks_reply_reads_back_witness:
  "\<exists>len w'. format_response (V6 1) 80 5 (demo_connection 5) (empty_world :: nat world) = Inr (len, w') \<and>
    read_reply (load (w_mem w') 70000 len) = (5, V6 1, 80)"
  using socks_reply_reads_back [of "demo_connection 5" "V6 1" 80 5 "empty_world :: nat world"]
  by (auto simp: demo_connection_def)

section \<open>The UDP relay\<close>

lemma load_Suc: "load m a (Suc n) = m a # load m (Suc a) n"
  using load_append [of m a 1 n] by (simp add: load_def)

lemma load_split:
  assumes "load m a (length xs + n) = xs @ ys"
  shows "load m a (length xs) = xs" and "load m (a + length xs) n = ys"
  using assms load_append [of m a "length xs" n] by simp_all

lemma port_at_load: "port_at m a = read_be16 (load m a 2)"
  by (simp add: port_at_def read_be16_def load_Suc numeral_2_eq_2)

lemma addr_at_load: "addr_at m a = read_be32 (load m a 4)"
  by (rule bit_word_eqI)
    (auto simp: addr_at_def read_be32_def load_Suc numeral_eq_Suc bit_simps)

lemma schar_length: "n < 128 \<Longrightarrow> schar (word_of_nat n) = int n"
proof -
  assume "n < 128"
  then have "signed_take_bit 7 (int n) = int n"
    by (intro signed_take_bit_int_eq_self) auto
  then show ?thesis
    by (simp add: schar_def signed_of_nat)
qed

lemma schar_simps [simp]: "schar 0 = 0" "schar 1 = 1" "schar 2 = 2" "schar 3 = 3" "schar 4 = 4" "schar 5 = 5"
  by (simp_all add: schar_def)

lemma size_of_int_nat: "n < 2 ^ 64 \<Longrightarrow> size_of_int (int n) = n"
  by (simp add: size_of_int_def nat_mod_as_int)

text \<open>A map in both directions.\<close>

definition name_mapping_ok :: "(address \<times> string) list \<Rightarrow> bool" where
  "name_mapping_ok nm \<longleftrightarrow> distinct (map fst nm) \<and> distinct (map snd nm)"

lemma insert_name_ok: "name_mapping_ok nm \<Longrightarrow> name_mapping_ok (insert_name a h nm)"
  by (auto simp: name_mapping_ok_def insert_name_def)

lemma address_of_name_of:
  assumes "name_mapping_ok nm" and "name_of_address a nm = Some h"
  shows "address_of_name h nm = Some a"
proof -
  have "(a, h) \<in> set nm"
    using assms(2) by (simp add: name_of_address_def map_of_SomeD)
  then have "(h, a) \<in> set (map (\<lambda>(a, b). (b, a)) nm)"
    by force
  moreover have "map fst (map (\<lambda>(a, b). (b, a)) nm) = map snd nm"
    by (auto intro: map_cong)
  ultimately show ?thesis
    using assms(1) by (simp add: address_of_name_def name_mapping_ok_def map_of_eq_Some_iff split_def comp_def)
qed

text \<open>
  What is done with a datagram of the client whose header names \<open>from\<close>: it is sent there, from the
  place of its payload. When the name came from \<open>m_name_mapping\<close>, nothing is received after that.
\<close>

lemma relay_from_client_header:
  assumes "relay_header from nm = Inr h" and "name_mapping_ok nm" and "sc_name_mapping s = nm"
    and "\<forall>x \<in> snd ` set nm. length x < 128" and "n < 2 ^ 64"
    and "load (w_mem w) (sc_udp_buffer_at s) (length h) = h"
  shows "relay_from_client fwd make_address ev (length h + n) s w =
    bindE (send_and_drop_error fwd (sc_udp_associate s) [(sc_udp_buffer_at s + length h, n)] from w)
      (\<lambda>w1. Inr (name_of_address (ep_address from) nm = None, w1))"
proof (cases "name_of_address (ep_address from) nm")
  case None
  then obtain a where a: "ep_address from = V4 a" "h = [0, 0, 0, 1] @ be32 a @ be16 (ep_port from)"
    using assms(1) by (cases "ep_address from") (auto simp: relay_header_def)
  let ?m = "w_mem w" and ?at = "sc_udp_buffer_at s"
  have h: "load ?m ?at (length [0, 0, 0, 1 :: byte] + (4 + 2)) = [0, 0, 0, 1] @ be32 a @ be16 (ep_port from)"
    using assms(6) by (simp add: a(2))
  then have "load ?m (?at + 4) (4 + 2) = be32 a @ be16 (ep_port from)" "load ?m ?at 4 = [0, 0, 0, 1]"
    using load_split [OF h] by (simp_all add: numeral_eq_Suc)
  then have "load ?m (?at + 4) 4 = be32 a" "load ?m (?at + 8) 2 = be16 (ep_port from)" "?m (?at + 3) = 1"
    using load_split [of ?m "?at + 4" "be32 a" 2] by (simp_all add: load_Suc numeral_eq_Suc)
  then show ?thesis
    using None a size_of_int_nat [OF assms(5)]
    by (cases "from") (simp add: relay_from_client_def addr_at_load port_at_load Let_def)
next
  case (Some x)
  then have h: "h = [0, 0, 0, 3, word_of_nat (length x)] @ bytes_of x @ be16 (ep_port from)"
    using assms(1) by (simp add: relay_header_def)
  let ?m = "w_mem w" and ?at = "sc_udp_buffer_at s" and ?l = "word_of_nat (length x) :: byte"
  have "x \<in> snd ` set nm"
    using Some by (force simp: name_of_address_def dest: map_of_SomeD)
  then have len: "schar ?l = int (length x)"
    using assms(4) by (intro schar_length) auto
  have hl: "load ?m ?at (length [0, 0, 0, 3, ?l] + (length x + 2)) =
      [0, 0, 0, 3, ?l] @ bytes_of x @ be16 (ep_port from)"
    using assms(6) by (simp add: h add.assoc)
  have "load ?m (?at + 5) (length (bytes_of x) + 2) = bytes_of x @ be16 (ep_port from)"
      "load ?m ?at 5 = [0, 0, 0, 3, ?l]"
    using load_split [OF hl] by (simp_all add: numeral_eq_Suc)
  then have "load ?m (?at + 5) (length x) = bytes_of x" "load ?m (?at + 5 + length x) 2 = be16 (ep_port from)"
    "?m (?at + 3) = 3" "?m (?at + 4) = ?l"
    using load_split [of ?m "?at + 5" "bytes_of x" 2] by (simp_all add: load_Suc numeral_eq_Suc)
  moreover have "address_of_name x nm = Some (ep_address from)"
    using assms(2) Some by (rule address_of_name_of)
  moreover have "length h = 7 + length x"
    by (simp add: h)
  ultimately show ?thesis
    using Some size_of_int_nat [OF assms(5)] len assms(3)
    by (cases "from") (simp add: relay_from_client_def port_at_load Let_def add.assoc)
qed

lemma on_read_udp_header:
  assumes "relay_header from (sc_name_mapping s) = Inr h" and "name_mapping_ok (sc_name_mapping s)"
    and "\<forall>x \<in> snd ` set (sc_name_mapping s). length x < 128"
    and "w_eps w (sc_udp_from s) = sc_udp_associate_ep s" and "length answer < 2 ^ 64"
    and "load (w_mem w) (sc_udp_buffer_at s) (length h + length answer) = h @ answer"
  shows "on_read_udp fwd make_address ev success (length h + length answer) s w =
    bindE (send_and_drop_error fwd (sc_udp_associate s) [(sc_udp_buffer_at s + length h, length answer)] from w)
      (\<lambda>w1. if name_of_address (ep_address from) (sc_name_mapping s) = None
        then bindE (receive_udp ev s w1) (\<lambda>w2. Inr (s, w2)) else Inr (s, w1))"
proof -
  let ?ep = "sc_udp_associate_ep s"
  have same: "(if ep_port ?ep = 0 \<and> ep_address ?ep = ep_address ?ep
      then s\<lparr>sc_udp_associate_ep := set_port (ep_port ?ep) ?ep\<rparr> else s) = s"
    by (cases ?ep) (simp add: set_port_def)
  show ?thesis
    unfolding on_read_udp_def Let_def assms(4) same
    using relay_from_client_header [OF assms(1,2) refl assms(3,5) load_split(1) [OF assms(6)]]
    by (simp add: bindE_assoc)
qed

text \<open>
  C21. The UDP relay does not confuse its peers. A datagram from \<open>from\<close> goes to the client as a
  header and the payload, unchanged; whenever the client sends something under that header, just
  the bytes after it go to \<open>from\<close>, be the header a name or an address. (What the proof also shows:
  in the first case the relay does not receive again.)
\<close>

theorem udp_relay_round_trip:
  assumes "relay_header from (sc_name_mapping s) = Inr h" and "name_mapping_ok (sc_name_mapping s)"
    and "\<forall>x \<in> snd ` set (sc_name_mapping s). length x < 128"
    and "w_eps w0 (sc_udp_from s) = from" and "load (w_mem w0) (sc_udp_buffer_at s) (length payload) = payload"
    and "sc_udp_buffer_at s + length payload \<le> sc_local_at s"
    and "w_eps w (sc_udp_from s) = sc_udp_associate_ep s" and "length answer < 2 ^ 64"
    and "load (w_mem w) (sc_udp_buffer_at s) (length h + length answer) = h @ answer"
  shows "\<exists>bufs m at.
    relay_to_client fwd (length payload) s w0 =
      send_and_drop_error fwd (sc_udp_associate s) bufs (sc_udp_associate_ep s) (w0\<lparr>w_mem := m\<rparr>) \<and>
    concat (map (\<lambda>(a, n). load m a n) bufs) = h @ payload \<and>
    on_read_udp fwd make_address ev success (length h + length answer) s w =
      bindE (send_and_drop_error fwd (sc_udp_associate s) [(at, length answer)] from w) (\<lambda>w1.
        if name_of_address (ep_address from) (sc_name_mapping s) = None
        then bindE (receive_udp ev s w1) (\<lambda>w2. Inr (s, w2)) else Inr (s, w1)) \<and>
    load (w_mem w) at (length answer) = answer"
proof -
  let ?k = "sc_udp_associate s" and ?at = "sc_udp_buffer_at s" and ?ep = "sc_udp_associate_ep s"
  let ?m = "store (w_mem w0) (sc_local_at s) h"
  have out: "relay_to_client fwd (length payload) s w0 =
      send_and_drop_error fwd ?k [(sc_local_at s, length h), (?at, length payload)] ?ep (w0\<lparr>w_mem := ?m\<rparr>)"
    using assms(1,4) by (simp add: relay_to_client_def)
  have "load ?m ?at (length payload) = payload"
    using assms(5,6) load_store_disjoint [of ?at "length payload" "sc_local_at s" h] by simp
  then have sent: "concat (map (\<lambda>(a, n). load ?m a n) [(sc_local_at s, length h), (?at, length payload)]) = h @ payload"
    by simp
  with out sent load_split(2) [OF assms(9)] on_read_udp_header [OF assms(1-3,7-9)] show ?thesis
    by blast
qed

lemma udp_relay_round_trip_witness:
  "\<exists>bufs m at.
    relay_to_client (\<lambda>_. Inr) 2 (demo_connection 5)
        (empty_world\<lparr>w_mem := (\<lambda>_. 65), w_eps := (\<lambda>_. Endpoint (V4 8) 53)\<rparr> :: nat world) =
      send_and_drop_error (\<lambda>_. Inr) 6 bufs (Endpoint (V4 1) 1000)
        (empty_world\<lparr>w_eps := (\<lambda>_. Endpoint (V4 8) 53), w_mem := m\<rparr>) \<and>
    concat (map (\<lambda>(a, n). load m a n) bufs) = [0, 0, 0, 1, 0, 0, 0, 8, 0, 53, 65, 65] \<and>
    load (store (\<lambda>_. 0) 0 [0, 0, 0, 1, 0, 0, 0, 8, 0, 53, 66]) at 1 = [66]"
proof -
  let ?s = "demo_connection 5" and ?from = "Endpoint (V4 8) 53" and ?h = "[0, 0, 0, 1, 0, 0, 0, 8, 0, 53] :: byte list"
  let ?before = "empty_world\<lparr>w_mem := (\<lambda>_. 65), w_eps := (\<lambda>_. ?from)\<rparr> :: nat world"
  let ?w = "empty_world\<lparr>w_mem := store (\<lambda>_. 0) 0 (?h @ [66]), w_eps := (\<lambda>_. Endpoint (V4 1) 1000)\<rparr> :: nat world"
  have h: "relay_header ?from (sc_name_mapping ?s) = Inr ?h"
    by (simp add: relay_header_def name_of_address_def demo_connection_def be16_def be32_def)
  have l: "load (w_mem ?w) (sc_udp_buffer_at ?s) (length ?h + length [66 :: byte]) = ?h @ [66]"
    using load_store_same [of "\<lambda>_. 0" 0 "?h @ [66]"] by (simp add: demo_connection_def)
  have p: "load (w_mem ?before) (sc_udp_buffer_at ?s) (length [65 :: byte, 65]) = [65, 65]"
    by (simp add: load_def demo_connection_def)
  have "name_mapping_ok (sc_name_mapping ?s)" "\<forall>x \<in> snd ` set (sc_name_mapping ?s). length x < 128"
    by (simp_all add: name_mapping_ok_def demo_connection_def)
  moreover have "w_eps ?before (sc_udp_from ?s) = ?from" "w_eps ?w (sc_udp_from ?s) = sc_udp_associate_ep ?s"
    "sc_udp_buffer_at ?s + length [65 :: byte, 65] \<le> sc_local_at ?s" "length [66 :: byte] < 2 ^ 64"
    by (simp_all add: demo_connection_def)
  ultimately obtain bufs m at where
    "relay_to_client (\<lambda>_. Inr) (length [65 :: byte, 65]) ?s ?before =
      send_and_drop_error (\<lambda>_. Inr) (sc_udp_associate ?s) bufs (sc_udp_associate_ep ?s) (?before\<lparr>w_mem := m\<rparr>)"
    "concat (map (\<lambda>(a, n). load m a n) bufs) = ?h @ [65, 65]" "load (w_mem ?w) at (length [66 :: byte]) = [66]"
    using udp_relay_round_trip [OF h _ _ _ p _ _ _ l, of "\<lambda>_. Inr" "\<lambda>_. None" "\<lambda>_. 0"] by blast
  then show ?thesis
    by (intro exI [of _ bufs] exI [of _ m] exI [of _ at]) (simp add: demo_connection_def numeral_2_eq_2)
qed

section \<open>The relay goes deaf\<close>

lemma udp_bind_unheard: "udp_bind k ep w = Inr (ec, w') \<Longrightarrow> unheard u w' = unheard u w"
  by (auto simp: udp_bind_def ios_bind_udp_socket_def Let_def unheard_def split: if_splits)

lemma send_to_unheard:
  assumes "unheard k w" and "send_to (forward_packet fuel) k b dst w = Inr (n, ec, w')"
  shows "unheard k w'"
proof -
  have late: "unheard k (upd_udp k (\<lambda>s. s\<lparr>u_next_send := f s\<rparr>) w) = unheard k w" for f w
    by (simp add: unheard_def)
  have abort: "unheard k (udp_abort_send_handlers k w) = unheard k w"
    by (simp add: unheard_def udp_abort_send_handlers_def Let_def)
  show ?thesis
    using assms unfolding send_to_def send_to_impl_def Let_def
    by (auto simp: late abort split: if_splits
        dest!: forward_packet_unheard udp_bind_unheard [where u = k] write_log_unheard [where u = k])
qed

fun udp_arrivals :: "nat \<Rightarrow> packet list \<Rightarrow> 'u world \<Rightarrow> fault + 'u world" where
  "udp_arrivals k [] w = Inr w"
| "udp_arrivals k (p # ps) w = bindE (udp_incoming_packet k p w) (udp_arrivals k ps)"

lemma udp_arrivals_unheard:
  "unheard k w \<Longrightarrow> \<exists>w'. udp_arrivals k ps w = Inr w' \<and> w_sched w' = w_sched w"
proof (induction ps arbitrary: w)
  case (Cons p ps)
  have "\<exists>w1. udp_incoming_packet k p w = Inr w1 \<and> w_sched w1 = w_sched w \<and> unheard k w1"
    using Cons.prems
    by (auto simp: udp_incoming_packet_def udp_maybe_wakeup_reader_def unheard_def Let_def)
  then obtain w1 where "udp_incoming_packet k p w = Inr w1" "w_sched w1 = w_sched w" "unheard k w1"
    by blast
  with Cons.IH [of w1] show ?case by simp
qed simp

text \<open>
  C25. A datagram of the client for a name the relay has answered under is sent on through the
  network, but the relay returns without receiving again: whatever arrives at its socket from then
  on runs no handler, neither from the client nor from its peers.
\<close>

theorem udp_relay_goes_deaf:
  assumes "relay_header from (sc_name_mapping s) = Inr h" and "name_mapping_ok (sc_name_mapping s)"
    and "\<forall>x \<in> snd ` set (sc_name_mapping s). length x < 128"
    and "name_of_address (ep_address from) (sc_name_mapping s) \<noteq> None"
    and "w_eps w (sc_udp_from s) = sc_udp_associate_ep s" and "length payload < 2 ^ 64"
    and "load (w_mem w) (sc_udp_buffer_at s) (length h + length payload) = h @ payload"
    and "unheard (sc_udp_associate s) w"
    and "on_read_udp (forward_packet fuel) make_address ev success (length h + length payload) s w = Inr (s', w')"
  shows "(\<exists>n ec. send_to (forward_packet fuel) (sc_udp_associate s)
      [(sc_udp_buffer_at s + length h, length payload)] from w = Inr (n, ec, w')) \<and>
    (\<exists>w''. udp_arrivals (sc_udp_associate s) ps w' = Inr w'' \<and> w_sched w'' = w_sched w')"
proof -
  let ?fwd = "forward_packet fuel" and ?k = "sc_udp_associate s"
  have "bindE (send_and_drop_error ?fwd ?k [(sc_udp_buffer_at s + length h, length payload)] from w)
        (\<lambda>w1. Inr (s, w1)) = Inr (s', w')"
    using on_read_udp_header [OF assms(1-3,5-7), of ?fwd make_address ev] assms(4,9) by simp
  then obtain n ec where sent: "send_to ?fwd ?k [(sc_udp_buffer_at s + length h, length payload)] from w = Inr (n, ec, w')"
    by (auto simp: send_and_drop_error_def)
  from udp_arrivals_unheard [OF send_to_unheard [OF assms(8) this]] this show ?thesis by blast
qed

definition deaf_world :: "nat world" where
  "deaf_world = empty_world\<lparr>w_mem := store (\<lambda>_. 0) 0 [0, 0, 0, 3, 3, 97, 46, 98, 0, 53, 66],
    w_eps := (\<lambda>_. Endpoint (V4 1) 1000),
    w_nodes := [0 \<mapsto> \<lparr>m_ips = [V4 3], m_outgoing_route = [], m_incoming_route = [], m_ios_stopped = False\<rparr>],
    w_udp := (\<lambda>_. (new_udp_socket 0 0)\<lparr>m_open := True, m_non_blocking := True, m_bound_to := Endpoint (V4 3) 5\<rparr>)\<rparr>"

lemma udp_relay_goes_deaf_witness:
  "\<exists>s' w'. on_read_udp (forward_packet 1) (\<lambda>_. None) (\<lambda>_. 0) success 11 (demo_connection 5) deaf_world = Inr (s', w') \<and>
    (\<exists>w''. udp_arrivals 6 [new_packet, new_packet] w' = Inr w'' \<and> w_sched w'' = w_sched w')"
proof -
  let ?s = "demo_connection 5" and ?from = "Endpoint (V4 7) 53"
  let ?h = "[0, 0, 0, 3, 3, 97, 46, 98, 0, 53] :: byte list"
  have b: "bytes_of ''a.b'' = [97, 46, 98]"
    by code_simp
  have h: "relay_header ?from (sc_name_mapping ?s) = Inr ?h"
    by (simp add: relay_header_def name_of_address_def demo_connection_def be16_def b)
  have l: "load (w_mem deaf_world) (sc_udp_buffer_at ?s) (length ?h + length [66 :: byte]) = ?h @ [66]"
    using load_store_same [of "\<lambda>_. 0" 0 "?h @ [66]"] by (simp add: demo_connection_def deaf_world_def)
  have ok: "name_mapping_ok (sc_name_mapping ?s)" "\<forall>x \<in> snd ` set (sc_name_mapping ?s). length x < 128"
    "w_eps deaf_world (sc_udp_from ?s) = sc_udp_associate_ep ?s"
    by (simp_all add: name_mapping_ok_def demo_connection_def deaf_world_def)
  have named: "name_of_address (ep_address ?from) (sc_name_mapping ?s) \<noteq> None"
    by (simp add: name_of_address_def demo_connection_def)
  have deaf: "unheard (sc_udp_associate ?s) deaf_world"
    by (simp add: unheard_def deaf_world_def new_udp_socket_def)
  define w1 where "w1 = udp_abort_send_handlers 6 deaf_world"
  have w1: "m_open (w_udp w1 6)" "m_non_blocking (w_udp w1 6)" "m_bound_to (w_udp w1 6) = Endpoint (V4 3) 5"
    "m_io_service (w_udp w1 6) = 0" "m_send_queue_time (w_udp w1 6) = 200000" "u_next_send (w_udp w1 6) = 0"
    "\<not> m_dont_fragment (w_udp w1 6)" "w_nodes w1 0 = w_nodes deaf_world 0"
    by (simp_all add: w1_def udp_abort_send_handlers_def deaf_world_def new_udp_socket_def Let_def)
  have w2: "m_udp_sockets (w_ports w1) = []" "path_mtu (w_config w1) a b = 1475" "0 \<le> now (w_sched w1)" for a b
    by (simp_all add: w1_def udp_abort_send_handlers_def deaf_world_def new_world_def fresh_ports_def
        new_udp_socket_def now_def cancel_timer_def upd_sched_def cancel_def new_timer_def Let_def)
  have "find_udp_socket (w_udp w1 6) ?from w1 = Inr []" "get_path_mtu 0 (V4 3) (V4 7) w1 = Inr 1475"
    using w1(8) w2(1,2) by (simp_all add: find_udp_socket_def get_path_mtu_def node_of_def deaf_world_def)
  then obtain n ec w' where "send_to (forward_packet 1) 6 [(10, 1)] ?from deaf_world = Inr (n, ec, w')"
    using w1 w2(3) by (simp add: send_to_def send_to_impl_def buffer_size_def default_endpoint_def
        default_address_def Let_def flip: w1_def)
  moreover have "sc_udp_buffer_at ?s + length ?h = 10" "length [66 :: byte] = 1" "sc_udp_associate ?s = 6"
    by (simp_all add: demo_connection_def)
  ultimately have "send_to (forward_packet 1) (sc_udp_associate ?s) [(sc_udp_buffer_at ?s + length ?h, length [66 :: byte])]
      ?from deaf_world = Inr (n, ec, w')"
    by (simp only:)
  then have run: "on_read_udp (forward_packet 1) (\<lambda>_. None) (\<lambda>_. 0) success (length ?h + length [66 :: byte]) ?s deaf_world =
      Inr (?s, w')"
    using named on_read_udp_header [OF h ok(1,2,3) _ l, of "forward_packet 1" "\<lambda>_. None" "\<lambda>_. 0"]
    unfolding send_and_drop_error_def by auto
  have "\<exists>w''. udp_arrivals (sc_udp_associate ?s) [new_packet, new_packet] w' = Inr w'' \<and> w_sched w'' = w_sched w'"
    using udp_relay_goes_deaf [OF h ok(1,2) named ok(3) _ l deaf run, of "[new_packet, new_packet]"] by simp
  moreover have "length ?h + length [66 :: byte] = 11" "sc_udp_associate ?s = 6"
    by (simp_all add: demo_connection_def)
  ultimately show ?thesis
    using run by (simp only:) blast
qed

end
