(* ===== verification/Socks_Server.thy ===== *)
theory Socks_Server
  imports Socks_Relay
begin

text \<open>
  \<open>socks_server\<close> and the handlers of \<open>socks_connection\<close> (\<open>socks_server.cpp\<close>) up to the stream that is
  relayed: the handshake, the request with its three commands and two kinds of address, the
  reply, and the two directions of the relay. A connection lives as long as the server; when the
  last handler that keeps it alive is gone is not modelled.
\<close>

section \<open>Handshake\<close>

definition socks_start ::
  "'u async_read \<Rightarrow> (socks_event \<Rightarrow> 'u) \<Rightarrow> socks_connection \<Rightarrow> 'u world \<Rightarrow> fault + 'u world" where
  "socks_start async_read ev s =
    (if sc_version s = 4
     then async_read (sc_client_connection s) [(sc_out_at s, 9)] (\<lambda>ec n. App (ev (Socks_request1 ec n)))
     else async_read (sc_client_connection s) [(sc_out_at s, 2)] (\<lambda>ec n. App (ev (Socks_handshake1 ec n))))"

definition on_handshake1 ::
  "'u net \<Rightarrow> 'u async_read \<Rightarrow> (socks_event \<Rightarrow> 'u) \<Rightarrow> error_code \<Rightarrow> nat \<Rightarrow> socks_connection \<Rightarrow> 'u world \<Rightarrow>
    fault + 'u world" where
  "on_handshake1 fwd async_read ev ec n s w =
    (let version = schar (w_mem w (sc_out_at s)); num_methods = schar (w_mem w (sc_out_at s + 1)) in
     if ec \<noteq> success \<or> n \<noteq> 2 then socks_close_connection fwd s w
     else if version \<noteq> 4 \<and> version \<noteq> 5 then socks_close_connection fwd s w
     else async_read (sc_client_connection s) [(sc_out_at s, size_of_int num_methods)]
       (\<lambda>ec n. App (ev (Socks_handshake2 ec n))) w)"

definition on_handshake2 ::
  "'u net \<Rightarrow> 'u async_write \<Rightarrow> (socks_event \<Rightarrow> 'u) \<Rightarrow> error_code \<Rightarrow> nat \<Rightarrow> socks_connection \<Rightarrow> 'u world \<Rightarrow>
    fault + 'u world" where
  "on_handshake2 fwd async_write ev ec n s w =
    (if ec \<noteq> success then socks_close_connection fwd s w
     else if 0 \<notin> set (load (w_mem w) (sc_out_at s) n) then socks_close_connection fwd s w
     else async_write (sc_client_connection s) [(sc_in_at s, 2)] (\<lambda>ec n. App (ev (Socks_handshake3 ec n)))
       (w\<lparr>w_mem := store (w_mem w) (sc_in_at s) [5, 0]\<rparr>))"

definition on_handshake3 ::
  "'u net \<Rightarrow> 'u async_read \<Rightarrow> (socks_event \<Rightarrow> 'u) \<Rightarrow> error_code \<Rightarrow> nat \<Rightarrow> socks_connection \<Rightarrow> 'u world \<Rightarrow>
    fault + 'u world" where
  "on_handshake3 fwd async_read ev ec n s w =
    (if ec \<noteq> success \<or> n \<noteq> 2 then socks_close_connection fwd s w
     else async_read (sc_client_connection s) [(sc_out_at s, 10)] (\<lambda>ec n. App (ev (Socks_request1 ec n))) w)"

section \<open>The request\<close>

text \<open>\<open>++m_cmd_counts[command - 1]\<close> comes before the command has been looked at.\<close>

definition count_command :: "int \<Rightarrow> socks_shared \<Rightarrow> fault + socks_shared" where
  "count_command command sh =
    (if command < 1 \<or> int (length (sh_cmd_counts sh)) < command then Inl Undefined_behaviour
     else let i = nat (command - 1); c = sh_cmd_counts sh
       in Inr (sh\<lparr>sh_cmd_counts := c[i := c ! i + 1]\<rparr>))"

definition socks4_request ::
  "'u net \<Rightarrow> 'u async_write \<Rightarrow> (socks_event \<Rightarrow> 'u) \<Rightarrow> int \<Rightarrow> socks_connection \<Rightarrow> 'u world \<Rightarrow> fault + 'u world" where
  "socks4_request fwd async_write ev command s w =
    (let m = w_mem w; at = sc_out_at s in
     if command \<noteq> 1 \<and> command \<noteq> 2 then socks_close_connection fwd s w
     else if schar (m (at + 8)) \<noteq> 0 then socks_close_connection fwd s w
     else
       let target = Endpoint (V4 (addr_at m (at + 4))) (port_at m (at + 2)) in
       if command = 1 then socks_open_forward_connection fwd ev target s w
       else bind_connection fwd async_write ev target s w)"

text \<open>An IPv4 address: the whole request has been read.\<close>

definition socks5_request_v4 ::
  "'u net \<Rightarrow> 'u async_write \<Rightarrow> (socks_event \<Rightarrow> 'u) \<Rightarrow> int \<Rightarrow> socks_shared \<Rightarrow> socks_connection \<Rightarrow> 'u world \<Rightarrow>
    fault + (socks_shared \<times> socks_connection \<times> 'u world)" where
  "socks5_request_v4 fwd async_write ev command sh s w =
    (let m = w_mem w; at = sc_out_at s;
         target = Endpoint (V4 (addr_at m (at + 4))) (port_at m (at + 8))
     in if command = 1 then
          bindE (socks_open_forward_connection fwd ev target s w) (\<lambda>w1. Inr (sh, s, w1))
        else if command = 2 then
          bindE (bind_connection fwd async_write ev target s w) (\<lambda>w1. Inr (sh, s, w1))
        else
          bindE (if ep_address target = default_address then
              bindE (remote_endpoint (sc_client_connection s) w) (\<lambda>r.
              bindE (endpoint_or_throw r) (\<lambda>ep. Inr (set_address (ep_address ep) target)))
            else Inr target) (\<lambda>target.
          udp_associate fwd async_write ev target sh s w))"

text \<open>
  A domain name: three of its bytes have been read already, so a name of fewer asks for a
  negative number of bytes, which becomes a huge size.
\<close>

definition socks5_request_name ::
  "'u net \<Rightarrow> 'u async_read \<Rightarrow> (socks_event \<Rightarrow> 'u) \<Rightarrow> int \<Rightarrow> socks_connection \<Rightarrow> 'u world \<Rightarrow> fault + 'u world" where
  "socks5_request_name fwd async_read ev command s w =
    (if command = 2 then socks_close_connection fwd s w
     else
       let len = uint (w_mem w (sc_out_at s + 4))
       in async_read (sc_client_connection s) [(sc_out_at s + 10, size_of_int (len - 3))]
            (\<lambda>ec n. App (ev (Socks_domain_name ec n))) w)"

definition on_request1 ::
  "'u net \<Rightarrow> 'u async_read \<Rightarrow> 'u async_write \<Rightarrow> (socks_event \<Rightarrow> 'u) \<Rightarrow> error_code \<Rightarrow> nat \<Rightarrow>
    socks_shared \<Rightarrow> socks_connection \<Rightarrow> 'u world \<Rightarrow> fault + (socks_shared \<times> socks_connection \<times> 'u world)" where
  "on_request1 fwd async_read async_write ev ec n sh s w =
    (let m = w_mem w; at = sc_out_at s in
     if ec \<noteq> success \<or> n \<noteq> (if sc_version s = 4 then 9 else 10) then
       bindE (socks_close_connection fwd s w) (\<lambda>w1. Inr (sh, s, w1))
     else
       let version = schar (m at); command = schar (m (at + 1)); s1 = s\<lparr>sc_command := command\<rparr> in
       bindE (count_command command sh) (\<lambda>sh1.
       let close = bindE (socks_close_connection fwd s1 w) (\<lambda>w1. Inr (sh1, s1, w1)) in
       if version \<noteq> sc_version s then close
       else if sc_version s = 4 then
         bindE (socks4_request fwd async_write ev command s1 w) (\<lambda>w1. Inr (sh1, s1, w1))
       else if command \<noteq> 1 \<and> command \<noteq> 2 \<and> command \<noteq> 3 then close
       else if schar (m (at + 2)) \<noteq> 0 then close
       else
         let atyp = schar (m (at + 3)) in
         if atyp = 1 then socks5_request_v4 fwd async_write ev command sh1 s1 w
         else if atyp = 3 then
           bindE (socks5_request_name fwd async_read ev command s1 w) (\<lambda>w1. Inr (sh1, s1, w1))
         else close))"

definition on_request_domain_name ::
  "'u net \<Rightarrow> (string \<Rightarrow> address option) \<Rightarrow> (socks_event \<Rightarrow> 'u) \<Rightarrow> error_code \<Rightarrow> nat \<Rightarrow> socks_connection \<Rightarrow> 'u world \<Rightarrow>
    fault + 'u world" where
  "on_request_domain_name fwd make_address ev ec n s w =
    (if ec \<noteq> success then socks_close_connection fwd s w
     else
       let m = w_mem w; at = sc_out_at s; port = port_at m (at + 8 + n);
           hostname = chars_of (load m (at + 5) (unat (m (at + 4))))
       in async_resolve make_address (sc_resolver s) hostname (to_string (uint port))
            (\<lambda>ec ips. App (ev (Socks_domain_lookup ec ips))) w)"

definition on_request_domain_lookup ::
  "'u net \<Rightarrow> 'u async_write \<Rightarrow> (socks_event \<Rightarrow> 'u) \<Rightarrow> error_code \<Rightarrow> resolver_entry list \<Rightarrow> socks_connection \<Rightarrow>
    'u world \<Rightarrow> fault + 'u world" where
  "on_request_domain_lookup fwd async_write ev ec ips s w =
    (if ec \<noteq> success \<or> ips = [] then
       refuse async_write ev 10 s
         (w\<lparr>w_mem := store (w_mem w) (sc_in_at s) [word_of_int (sc_version s), 4, 0, 1, 0, 0, 0, 0, 0, 0]\<rparr>)
     else socks_open_forward_connection fwd ev (e_endpoint (hd ips)) s w)"

section \<open>Relaying\<close>

definition read_client :: "(socks_event \<Rightarrow> 'u) \<Rightarrow> socks_connection \<Rightarrow> 'u world \<Rightarrow> fault + 'u world" where
  "read_client ev s =
    async_read_some (sc_client_connection s) [(sc_out_at s, socks_buffer_size)]
      (Some (\<lambda>ec n. App (ev (Socks_client_receive ec n))))"

definition read_server :: "(socks_event \<Rightarrow> 'u) \<Rightarrow> socks_connection \<Rightarrow> 'u world \<Rightarrow> fault + 'u world" where
  "read_server ev s =
    async_read_some (sc_server_connection s) [(sc_in_at s, socks_buffer_size)]
      (Some (\<lambda>ec n. App (ev (Socks_server_receive ec n))))"

definition start_accept ::
  "'u net \<Rightarrow> (socks_event \<Rightarrow> 'u) \<Rightarrow> error_code \<Rightarrow> socks_connection \<Rightarrow> 'u world \<Rightarrow> fault + 'u world" where
  "start_accept fwd ev ec s w =
    (if ec \<noteq> success then socks_close_connection fwd s w
     else
       bindE (throwing (listen (sc_bind_socket s) (-1) w)) (\<lambda>w1.
       bindE (async_accept fwd (sc_bind_socket s) (sc_server_connection s)
         (\<lambda>ec. App (ev (Socks_connected ec))) w1) (read_client ev s)))"

definition on_connected ::
  "'u async_write \<Rightarrow> (socks_event \<Rightarrow> 'u) \<Rightarrow> error_code \<Rightarrow> socks_connection \<Rightarrow> 'u world \<Rightarrow> fault + 'u world" where
  "on_connected async_write ev ec s w =
    (if ec = operation_aborted \<or> ec = bad_descriptor then Inr w
     else
       bindE (remote_endpoint (sc_server_connection s) w) (\<lambda>(_, ep).
       let response = (if ec \<noteq> success then (if sc_version s = 4 then 91 else 5)
                       else (if sc_version s = 4 then 90 else 0))
       in bindE (format_response (ep_address ep) (uint (ep_port ep)) response s w) (\<lambda>(len, w1).
          if ec \<noteq> success then refuse async_write ev len s w1
          else async_write (sc_client_connection s) [(sc_in_at s, len)]
            (\<lambda>ec _. App (ev (Socks_reply_written ec))) w1)))"

definition on_reply_written ::
  "(socks_event \<Rightarrow> 'u) \<Rightarrow> error_code \<Rightarrow> socks_connection \<Rightarrow> 'u world \<Rightarrow> fault + 'u world" where
  "on_reply_written ev ec s w =
    (if ec \<noteq> success then Inr w else bindE (read_server ev s w) (read_client ev s))"

definition on_client_receive ::
  "'u net \<Rightarrow> 'u async_write \<Rightarrow> (socks_event \<Rightarrow> 'u) \<Rightarrow> error_code \<Rightarrow> nat \<Rightarrow> socks_connection \<Rightarrow> 'u world \<Rightarrow>
    fault + 'u world" where
  "on_client_receive fwd async_write ev ec n s w =
    (if ec = operation_aborted \<or> ec = bad_descriptor then Inr w
     else if ec \<noteq> success then socks_close_connection fwd s w
     else async_write (sc_server_connection s) [(sc_out_at s, n)] (\<lambda>ec _. App (ev (Socks_client_forward ec))) w)"

definition on_client_forward ::
  "'u net \<Rightarrow> (socks_event \<Rightarrow> 'u) \<Rightarrow> error_code \<Rightarrow> socks_connection \<Rightarrow> 'u world \<Rightarrow> fault + 'u world" where
  "on_client_forward fwd ev ec s w =
    (if ec \<noteq> success then socks_close_connection fwd s w else read_client ev s w)"

definition on_server_receive ::
  "'u net \<Rightarrow> 'u async_write \<Rightarrow> (socks_event \<Rightarrow> 'u) \<Rightarrow> error_code \<Rightarrow> nat \<Rightarrow> socks_connection \<Rightarrow> 'u world \<Rightarrow>
    fault + 'u world" where
  "on_server_receive fwd async_write ev ec n s w =
    (if ec \<noteq> success then socks_close_connection fwd s w
     else async_write (sc_client_connection s) [(sc_in_at s, n)] (\<lambda>ec _. App (ev (Socks_server_forward ec))) w)"

definition on_server_forward ::
  "'u net \<Rightarrow> (socks_event \<Rightarrow> 'u) \<Rightarrow> error_code \<Rightarrow> socks_connection \<Rightarrow> 'u world \<Rightarrow> fault + 'u world" where
  "on_server_forward fwd ev ec s w =
    (if ec \<noteq> success then socks_close_connection fwd s w else read_server ev s w)"

definition socks_connection_handle ::
  "'u net \<Rightarrow> 'u async_read \<Rightarrow> 'u async_write \<Rightarrow> (string \<Rightarrow> address option) \<Rightarrow> (socks_event \<Rightarrow> 'u) \<Rightarrow> socks_event \<Rightarrow>
    socks_shared \<Rightarrow> socks_connection \<Rightarrow> 'u world \<Rightarrow> fault + (socks_shared \<times> socks_connection \<times> 'u world)" where
  "socks_connection_handle fwd async_read async_write make_address ev e sh s w =
    (let plain = (\<lambda>r. bindE r (\<lambda>w1. Inr (sh, s, w1))); own = (\<lambda>r. bindE r (\<lambda>(s1, w1). Inr (sh, s1, w1))) in
     case e of
       Socks_handshake1 ec n \<Rightarrow> plain (on_handshake1 fwd async_read ev ec n s w)
     | Socks_handshake2 ec n \<Rightarrow> plain (on_handshake2 fwd async_write ev ec n s w)
     | Socks_handshake3 ec n \<Rightarrow> plain (on_handshake3 fwd async_read ev ec n s w)
     | Socks_request1 ec n \<Rightarrow> on_request1 fwd async_read async_write ev ec n sh s w
     | Socks_domain_name ec n \<Rightarrow> plain (on_request_domain_name fwd make_address ev ec n s w)
     | Socks_domain_lookup ec ips \<Rightarrow> plain (on_request_domain_lookup fwd async_write ev ec ips s w)
     | Socks_close \<Rightarrow> plain (socks_close_connection fwd s w)
     | Socks_start_accept ec \<Rightarrow> plain (start_accept fwd ev ec s w)
     | Socks_wait_for_eof ec \<Rightarrow> own (wait_for_eof fwd ev ec s w)
     | Socks_read_udp ec n \<Rightarrow> own (on_read_udp fwd make_address ev ec n s w)
     | Socks_udp_lookup buf name ec ips \<Rightarrow> own (on_udp_lookup fwd buf name ec ips s w)
     | Socks_connected ec \<Rightarrow> plain (on_connected async_write ev ec s w)
     | Socks_reply_written ec \<Rightarrow> plain (on_reply_written ev ec s w)
     | Socks_client_receive ec n \<Rightarrow> plain (on_client_receive fwd async_write ev ec n s w)
     | Socks_client_forward ec \<Rightarrow> plain (on_client_forward fwd ev ec s w)
     | Socks_server_receive ec n \<Rightarrow> plain (on_server_receive fwd async_write ev ec n s w)
     | Socks_server_forward ec \<Rightarrow> plain (on_server_forward fwd ev ec s w))"

section \<open>The server\<close>

record socks_server =
  ss_ios :: nat
  ss_listen_socket :: nat
  ss_conns :: "socks_connection list"
  ss_conn :: nat
  ss_ep :: nat
  ss_shared :: socks_shared
  ss_close :: bool
  ss_version :: int
  ss_flags :: int

text \<open>\<open>ss_conns\<close> are the connections made so far, \<open>m_conn\<close> one of them.\<close>

datatype socks_server_event = Socks_accept error_code | Socks_conn nat socks_event

definition socks_accept_next ::
  "'u net \<Rightarrow> (socks_server_event \<Rightarrow> 'u) \<Rightarrow> socks_server \<Rightarrow> 'u world \<Rightarrow> fault + 'u world" where
  "socks_accept_next fwd ev s w =
    async_accept_endpoint fwd (ss_listen_socket s) (sc_client_connection (ss_conns s ! ss_conn s)) (ss_ep s)
      (\<lambda>ec. App (ev (Socks_accept ec))) w"

definition socks_server_construct ::
  "'u net \<Rightarrow> (socks_server_event \<Rightarrow> 'u) \<Rightarrow> (nat \<Rightarrow> places) \<Rightarrow> nat \<Rightarrow> nat \<Rightarrow> 16 word \<Rightarrow> int \<Rightarrow> int \<Rightarrow> 'u world \<Rightarrow>
    fault + (socks_server \<times> 'u world)" where
  "socks_server_construct fwd ev pl ios ep listen_port version flags w =
    (let (k, w1) = acceptor_construct ios w; (c, w2) = socks_connection_construct (pl 0) ios version flags w1;
         s = \<lparr>ss_ios = ios, ss_listen_socket = k, ss_conns = [c], ss_conn = 0, ss_ep = ep,
           ss_shared = \<lparr>sh_bind_port = 2048, sh_cmd_counts = [0, 0, 0]\<rparr>, ss_close = False,
           ss_version = version, ss_flags = flags\<rparr>
     in bindE (open_listener fwd ios k listen_port w2) (\<lambda>w3.
        bindE (socks_accept_next fwd ev s w3) (\<lambda>w4. Inr (s, w4))))"

definition bind_start_port :: "int \<Rightarrow> socks_server \<Rightarrow> socks_server" where
  "bind_start_port port s = s\<lparr>ss_shared := (ss_shared s)\<lparr>sh_bind_port := port\<rparr>\<rparr>"

definition cmd_counts :: "socks_server \<Rightarrow> int list" where
  "cmd_counts s = sh_cmd_counts (ss_shared s)"

definition socks_on_accept ::
  "'u net \<Rightarrow> 'u async_read \<Rightarrow> (socks_server_event \<Rightarrow> 'u) \<Rightarrow> (nat \<Rightarrow> places) \<Rightarrow> error_code \<Rightarrow> socks_server \<Rightarrow> 'u world \<Rightarrow>
    fault + (socks_server \<times> 'u world)" where
  "socks_on_accept fwd async_read ev pl ec s w =
    (if ec \<noteq> success then Inr (s, w)
     else
       bindE (socks_start async_read (\<lambda>e. ev (Socks_conn (ss_conn s) e)) (ss_conns s ! ss_conn s) w) (\<lambda>w1.
       let i = length (ss_conns s);
           (c, w2) = socks_connection_construct (pl i) (ss_ios s) (ss_version s) (ss_flags s) w1;
           s1 = s\<lparr>ss_conns := ss_conns s @ [c], ss_conn := i\<rparr>
       in bindE (socks_accept_next fwd ev s1 w2) (\<lambda>w3. Inr (s1, w3))))"

definition socks_stop :: "socks_server \<Rightarrow> 'u world \<Rightarrow> fault + (socks_server \<times> 'u world)" where
  "socks_stop s w = bindE (acceptor_close_all (ss_listen_socket s) w) (\<lambda>w1. Inr (s\<lparr>ss_close := True\<rparr>, w1))"

definition socks_handle ::
  "'u net \<Rightarrow> 'u async_read \<Rightarrow> 'u async_write \<Rightarrow> (string \<Rightarrow> address option) \<Rightarrow> (socks_server_event \<Rightarrow> 'u) \<Rightarrow>
    (nat \<Rightarrow> places) \<Rightarrow> socks_server_event \<Rightarrow> socks_server \<Rightarrow> 'u world \<Rightarrow> fault + (socks_server \<times> 'u world)" where
  "socks_handle fwd async_read async_write make_address ev pl e s w =
    (case e of
       Socks_accept ec \<Rightarrow> socks_on_accept fwd async_read ev pl ec s w
     | Socks_conn i ce \<Rightarrow>
         bindE (socks_connection_handle fwd async_read async_write make_address (\<lambda>e. ev (Socks_conn i e)) ce
           (ss_shared s) (ss_conns s ! i) w) (\<lambda>(sh, c, w1).
         Inr (s\<lparr>ss_shared := sh, ss_conns := (ss_conns s)[i := c]\<rparr>, w1)))"

section \<open>Requests\<close>

text \<open>A CONNECT or BIND request of a client for an IPv4 address.\<close>

definition request_bytes :: "int \<Rightarrow> int \<Rightarrow> 32 word \<Rightarrow> 16 word \<Rightarrow> byte list" where
  "request_bytes version command a p =
    (if version = 4 then [4, word_of_int command] @ be16 p @ be32 a @ [0]
     else [5, word_of_int command, 0, 1] @ be32 a @ be16 p)"

lemma load_request4:
  assumes "load m at 9 = request_bytes 4 command a p"
  shows "m at = 4" and "m (at + 1) = word_of_int command" and "port_at m (at + 2) = p"
    and "addr_at m (at + 4) = a" and "m (at + 8) = 0"
proof -
  have h: "load m at (length [4, word_of_int command] + (2 + 5)) = [4, word_of_int command] @ be16 p @ be32 a @ [0]"
    using assms by (simp add: request_bytes_def)
  note s = load_split [OF h]
  have h2: "load m (at + 2) (length (be16 p) + 5) = be16 p @ be32 a @ [0]"
    using s(2) by (simp add: numeral_eq_Suc)
  note s2 = load_split [OF h2]
  have h4: "load m (at + 4) (length (be32 a) + 1) = be32 a @ [0]"
    using s2(2) by (simp add: numeral_eq_Suc)
  note s4 = load_split [OF h4]
  show "m at = 4" "m (at + 1) = word_of_int command"
    using s(1) by (simp_all add: load_Suc numeral_eq_Suc)
  show "port_at m (at + 2) = p" "addr_at m (at + 4) = a" "m (at + 8) = 0"
    using s2(1) s4 by (simp_all add: port_at_load addr_at_load load_Suc numeral_eq_Suc)
qed

lemma load_request5:
  assumes "load m at 10 = request_bytes 5 command a p"
  shows "m at = 5" and "m (at + 1) = word_of_int command" and "m (at + 2) = 0" and "m (at + 3) = 1"
    and "addr_at m (at + 4) = a" and "port_at m (at + 8) = p"
proof -
  have h: "load m at (length [5, word_of_int command, 0, 1 :: byte] + (4 + 2)) =
      [5, word_of_int command, 0, 1] @ be32 a @ be16 p"
    using assms by (simp add: request_bytes_def)
  note s = load_split [OF h]
  have h4: "load m (at + 4) (length (be32 a) + 2) = be32 a @ be16 p"
    using s(2) by (simp add: numeral_eq_Suc)
  note s4 = load_split [OF h4]
  show "m at = 5" "m (at + 1) = word_of_int command" "m (at + 2) = 0" "m (at + 3) = 1"
    using s(1) by (simp_all add: load_Suc numeral_eq_Suc)
  show "addr_at m (at + 4) = a" "port_at m (at + 8) = p"
    using s4 by (simp_all add: port_at_load addr_at_load numeral_eq_Suc)
qed

text \<open>
  C22. A well-formed CONNECT or BIND request for an IPv4 address is obeyed, in both versions of the
  protocol: it is counted under its command, and the connection is opened to, or the socket
  bound to, exactly the address and port of the request.
\<close>

theorem socks_request_obeyed:
  assumes "version = 4 \<or> version = 5" and "sc_version s = version" and "command = 1 \<or> command = 2"
    and "sh_cmd_counts sh = [x, y, z]" and "n = (if version = 4 then 9 else 10)"
    and "load (w_mem w) (sc_out_at s) n = request_bytes version command a p"
  shows "on_request1 fwd async_read async_write ev success n sh s w =
    (let s' = s\<lparr>sc_command := command\<rparr>; sh' = sh\<lparr>sh_cmd_counts := if command = 1 then [x + 1, y, z] else [x, y + 1, z]\<rparr> in
     bindE (if command = 1 then socks_open_forward_connection fwd ev (Endpoint (V4 a) p) s' w
            else bind_connection fwd async_write ev (Endpoint (V4 a) p) s' w) (\<lambda>w1. Inr (sh', s', w1)))"
proof -
  have "schar (word_of_int command) = command"
    using assms(3) by auto
  moreover have "count_command command sh =
      Inr (sh\<lparr>sh_cmd_counts := if command = 1 then [x + 1, y, z] else [x, y + 1, z]\<rparr>)"
    using assms(3,4) by (auto simp: count_command_def)
  ultimately show ?thesis
    using assms(1)
  proof (elim disjE)
    assume v: "version = 4" and *: "schar (word_of_int command) = command" "count_command command sh =
      Inr (sh\<lparr>sh_cmd_counts := if command = 1 then [x + 1, y, z] else [x, y + 1, z]\<rparr>)"
    then show ?thesis
      using load_request4 [of "w_mem w" "sc_out_at s" command a p] assms(2,3,5,6)
      by (auto simp: on_request1_def socks4_request_def Let_def)
  next
    assume v: "version = 5" and *: "schar (word_of_int command) = command" "count_command command sh =
      Inr (sh\<lparr>sh_cmd_counts := if command = 1 then [x + 1, y, z] else [x, y + 1, z]\<rparr>)"
    then show ?thesis
      using load_request5 [of "w_mem w" "sc_out_at s" command a p] assms(2,3,5,6)
      by (auto simp: on_request1_def socks5_request_v4_def Let_def)
  qed
qed

definition demo_shared :: socks_shared where
  "demo_shared = \<lparr>sh_bind_port = 2048, sh_cmd_counts = [0, 0, 0]\<rparr>"

lemma socks_request_obeyed_witness:
  "on_request1 (\<lambda>_. Inr) (\<lambda>_ _ _. Inr) (\<lambda>_ _ _. Inr) (\<lambda>_. 0) success 10 demo_shared (demo_connection 5)
      (empty_world\<lparr>w_mem := store (\<lambda>_. 0) 4000 (request_bytes 5 1 7 80)\<rparr> :: nat world) =
    bindE (socks_open_forward_connection (\<lambda>_. Inr) (\<lambda>_. 0) (Endpoint (V4 7) 80)
        ((demo_connection 5)\<lparr>sc_command := 1\<rparr>)
        (empty_world\<lparr>w_mem := store (\<lambda>_. 0) 4000 (request_bytes 5 1 7 80)\<rparr>))
      (\<lambda>w1. Inr (demo_shared\<lparr>sh_cmd_counts := [1, 0, 0]\<rparr>, (demo_connection 5)\<lparr>sc_command := 1\<rparr>, w1))"
proof -
  have "length (request_bytes 5 1 7 80) = 10"
    by (simp add: request_bytes_def)
  then have "load (w_mem (empty_world\<lparr>w_mem := store (\<lambda>_. 0) 4000 (request_bytes 5 1 7 80)\<rparr>))
      (sc_out_at (demo_connection 5)) 10 = request_bytes 5 1 7 80"
    using load_store_same [of "\<lambda>_. 0" 4000 "request_bytes 5 1 7 80"] by (simp add: demo_connection_def)
  moreover have "sc_version (demo_connection 5) = 5" "sh_cmd_counts demo_shared = [0, 0, 0]"
    by (simp_all add: demo_connection_def demo_shared_def)
  ultimately show ?thesis
    using socks_request_obeyed [of 5 "demo_connection 5" 1 demo_shared 0 0 0 10
        "empty_world\<lparr>w_mem := store (\<lambda>_. 0) 4000 (request_bytes 5 1 7 80)\<rparr>" 7 80]
    by (simp add: Let_def)
qed

text \<open>
  A request with any other command, which the code means to refuse by closing the connection,
  increments a counter outside \<open>m_cmd_counts\<close> before the command is looked at.
\<close>

theorem socks_bad_command_undefined:
  assumes "n = (if sc_version s = 4 then 9 else 10)" and "length (sh_cmd_counts sh) = 3"
    and "schar (w_mem w (sc_out_at s + 1)) \<notin> {1, 2, 3}"
  shows "on_request1 fwd async_read async_write ev success n sh s w = Inl Undefined_behaviour"
  using assms by (auto simp: on_request1_def count_command_def Let_def)

lemma socks_bad_command_undefined_witness:
  "on_request1 (\<lambda>_. Inr) (\<lambda>_ _ _. Inr) (\<lambda>_ _ _. Inr) (\<lambda>_. 0) success 10 demo_shared (demo_connection 5)
      (empty_world\<lparr>w_mem := store (\<lambda>_. 0) 4000 [5, 9]\<rparr> :: nat world) = Inl Undefined_behaviour"
  by (rule socks_bad_command_undefined) (simp_all add: demo_connection_def demo_shared_def store_def schar_def)

end
