(* ===== verification/Socks_Account.thy ===== *)
theory Socks_Account
  imports Socks_Server
begin

text \<open>
  What a SOCKS server has done, over whole runs: the events of its connections in any order, each
  in whatever world the rest of the program has left. Its counters are those of the requests it
  has read, the names its relays know are those a datagram has been sent under, and a client that
  says anything malformed is disconnected.
\<close>

section \<open>Runs\<close>

text \<open>A run is the events handled, with the world each was handled in and the world it left.\<close>

inductive socks_served ::
  "'u net \<Rightarrow> 'u async_read \<Rightarrow> 'u async_write \<Rightarrow> (string \<Rightarrow> address option) \<Rightarrow> (socks_server_event \<Rightarrow> 'u) \<Rightarrow>
    (nat \<Rightarrow> places) \<Rightarrow> socks_server \<Rightarrow> socks_server \<Rightarrow> (socks_server_event \<times> 'u world \<times> 'u world) list \<Rightarrow> bool"
  for fwd async_read async_write make_address ev pl s0 where
  Begin: "socks_served fwd async_read async_write make_address ev pl s0 s0 []"
| Event: "socks_served fwd async_read async_write make_address ev pl s0 s tr \<Longrightarrow>
    (\<forall>i ce. e = Socks_conn i ce \<longrightarrow> i < length (ss_conns s)) \<Longrightarrow>
    socks_handle fwd async_read async_write make_address ev pl e s w = Inr (s', w') \<Longrightarrow>
    socks_served fwd async_read async_write make_address ev pl s0 s' (tr @ [(e, w, w')])"

text \<open>The command of a request that has been read in full, by whichever connection.\<close>

definition request_size :: "int \<Rightarrow> nat" where
  "request_size version = (if version = 4 then 9 else 10)"




section \<open>One event\<close>

text \<open>What no event changes in a connection: its sockets, buffers and version.\<close>

definition same_conn :: "socks_connection \<Rightarrow> socks_connection \<Rightarrow> bool" where
  "same_conn c d \<longleftrightarrow> d = c\<lparr>sc_name_mapping := sc_name_mapping d, sc_udp_associate_ep := sc_udp_associate_ep d,
    sc_command := sc_command d\<rparr>"

lemma same_conn_refl [simp]: "same_conn c c"
  by (simp add: same_conn_def)

lemma same_conn_trans: "same_conn c d \<Longrightarrow> same_conn d e \<Longrightarrow> same_conn c e"
  unfolding same_conn_def by (cases c; cases d; cases e) simp




lemma send_to_first_same: "send_to_first fwd buf name ips s w = Inr (s', w') \<Longrightarrow> same_conn s s'"
  by (induction fwd buf name ips s w rule: send_to_first.induct) (auto simp: same_conn_def split: if_splits)

lemma on_request1_same:
  assumes "on_request1 fwd async_read async_write ev ec n sh s w = Inr (sh', s', w')"
  shows "same_conn s s'"
proof -
  have "same_conn s1 s2" if "socks5_request_v4 fwd async_write ev c sh1 s1 w = Inr (sh2, s2, w2)" for c sh1 s1 sh2 s2 w2
    using that by (auto simp: socks5_request_v4_def udp_associate_def same_conn_def Let_def split: if_splits)
  moreover have c: "same_conn s (s\<lparr>sc_command := c\<rparr>)" for c by (simp add: same_conn_def)
  ultimately have v4: "same_conn s s2" if "socks5_request_v4 fwd async_write ev d sh1 (s\<lparr>sc_command := c\<rparr>) w = Inr (sh2, s2, w2)"
    for c d sh1 sh2 s2 w2
    using that same_conn_trans by blast
  then show ?thesis
    using assms c unfolding on_request1_def Let_def by (auto split: if_splits dest!: v4)
qed

lemma event_same_conn:
  assumes "socks_connection_handle fwd async_read async_write make_address ev e sh s w = Inr (sh', s', w')"
  shows "same_conn s s'"
proof -
  have "same_conn s (s\<lparr>sc_udp_associate_ep := x\<rparr>)" for x by (simp add: same_conn_def)
  then show ?thesis
    using assms
    by (cases e) (auto simp: socks_connection_handle_def wait_for_eof_def on_read_udp_def on_udp_lookup_def Let_def
        split: if_splits dest: on_request1_same send_to_first_same)
qed


text \<open>What an event does to the counters and to the map of names.\<close>

lemma on_request1_counts:
  assumes "on_request1 fwd async_read async_write ev ec n sh s w = Inr (sh', s', w')"
  shows "sh_cmd_counts sh' = (if ec = success \<and> n = request_size (sc_version s)
      then (sh_cmd_counts sh)[nat (schar (w_mem w (sc_out_at s + 1)) - 1) :=
        sh_cmd_counts sh ! nat (schar (w_mem w (sc_out_at s + 1)) - 1) + 1]
      else sh_cmd_counts sh) \<and>
    (ec = success \<and> n = request_size (sc_version s) \<longrightarrow>
      1 \<le> schar (w_mem w (sc_out_at s + 1)) \<and>
      schar (w_mem w (sc_out_at s + 1)) \<le> int (length (sh_cmd_counts sh)))"
    and "sc_name_mapping s' = sc_name_mapping s"
proof -
  have v4: "sh_cmd_counts sh2 = sh_cmd_counts sh1 \<and> sc_name_mapping s2 = sc_name_mapping s1"
    if "socks5_request_v4 fwd async_write ev c sh1 s1 w = Inr (sh2, s2, w2)" for c sh1 s1 sh2 s2 w2
    using that by (auto simp: socks5_request_v4_def udp_associate_def Let_def split: if_splits)
  have "\<And>c sh1. count_command c sh = Inr sh1 \<Longrightarrow>
      1 \<le> c \<and> c \<le> int (length (sh_cmd_counts sh)) \<and>
      sh_cmd_counts sh1 = (sh_cmd_counts sh)[nat (c - 1) := sh_cmd_counts sh ! nat (c - 1) + 1]"
    by (auto simp: count_command_def Let_def split: if_splits)
  note count = this
  show "sh_cmd_counts sh' = (if ec = success \<and> n = request_size (sc_version s)
      then (sh_cmd_counts sh)[nat (schar (w_mem w (sc_out_at s + 1)) - 1) :=
        sh_cmd_counts sh ! nat (schar (w_mem w (sc_out_at s + 1)) - 1) + 1]
      else sh_cmd_counts sh) \<and>
    (ec = success \<and> n = request_size (sc_version s) \<longrightarrow>
      1 \<le> schar (w_mem w (sc_out_at s + 1)) \<and>
      schar (w_mem w (sc_out_at s + 1)) \<le> int (length (sh_cmd_counts sh)))"
    using assms unfolding on_request1_def Let_def request_size_def
    by (auto split: if_splits dest!: count v4)
  show "sc_name_mapping s' = sc_name_mapping s"
    using assms unfolding on_request1_def Let_def
    by (auto split: if_splits dest!: v4)
qed


lemma send_to_first_learns:
  "send_to_first fwd buf name ips s w = Inr (s', w') \<Longrightarrow> sc_name_mapping s' \<noteq> sc_name_mapping s \<Longrightarrow>
    \<exists>ip \<in> set ips. \<exists>v n. sc_name_mapping s' = insert_name (ep_address (e_endpoint ip)) name (sc_name_mapping s) \<and>
      load (w_mem v) (sc_local_at s) (length buf) = buf \<and>
      send_to fwd (sc_udp_associate s) [(sc_local_at s, length buf)] (e_endpoint ip) v = Inr (n, success, w')"
proof (induction fwd buf name ips s w rule: send_to_first.induct)
  case (2 fwd buf name ip ips s w)
  let ?v = "w\<lparr>w_mem := store (w_mem w) (sc_local_at s) buf\<rparr>"
  obtain n ec w1 where sent: "send_to fwd (sc_udp_associate s) [(sc_local_at s, length buf)] (e_endpoint ip) ?v = Inr (n, ec, w1)"
    using 2(2) by (cases "send_to fwd (sc_udp_associate s) [(sc_local_at s, length buf)] (e_endpoint ip) ?v") auto
  show ?case
  proof (cases "ec = success")
    case True
    have "load (w_mem ?v) (sc_local_at s) (length buf) = buf"
      using load_store_same by simp
    then show ?thesis using True sent 2(2) by auto
  next
    case False
    with 2(1) [OF sent refl] 2(2,3) sent show ?thesis by auto
  qed
qed simp

lemma event_learns:
  assumes "socks_connection_handle fwd async_read async_write make_address ev e sh s w = Inr (sh', s', w')"
    and "sc_name_mapping s' \<noteq> sc_name_mapping s"
  shows "\<exists>buf name ips ip v n. e = Socks_udp_lookup buf name success ips \<and> ip \<in> set ips \<and>
    sc_name_mapping s' = insert_name (ep_address (e_endpoint ip)) name (sc_name_mapping s) \<and>
    load (w_mem v) (sc_local_at s) (length buf) = buf \<and>
    send_to fwd (sc_udp_associate s) [(sc_local_at s, length buf)] (e_endpoint ip) v = Inr (n, success, w')"
proof (cases "\<exists>buf name ips. e = Socks_udp_lookup buf name success ips")
  case True
  then obtain buf name ips where e: "e = Socks_udp_lookup buf name success ips" by blast
  then have "send_to_first fwd buf name ips s w = Inr (s', w')"
    using assms(1) by (auto simp: socks_connection_handle_def on_udp_lookup_def)
  from send_to_first_learns [OF this assms(2)] show ?thesis unfolding e by blast
next
  case False
  then have "sc_name_mapping s' = sc_name_mapping s"
    using assms(1)
    by (cases e) (auto simp: socks_connection_handle_def wait_for_eof_def on_read_udp_def on_udp_lookup_def Let_def
        split: if_splits dest: on_request1_counts(2))
  with assms(2) show ?thesis by simp
qed

section \<open>Runs of events\<close>

lemma handle_conns:
  assumes "socks_handle fwd async_read async_write make_address ev pl e s w = Inr (s', w')"
    and "\<forall>i ce. e = Socks_conn i ce \<longrightarrow> i < length (ss_conns s)"
  shows "ss_version s' = ss_version s \<and> length (ss_conns s) \<le> length (ss_conns s') \<and>
    (\<forall>j < length (ss_conns s). same_conn (ss_conns s ! j) (ss_conns s' ! j)) \<and>
    (\<forall>j. length (ss_conns s) \<le> j \<longrightarrow> j < length (ss_conns s') \<longrightarrow>
      sc_version (ss_conns s' ! j) = ss_version s \<and> sc_name_mapping (ss_conns s' ! j) = [])"
proof (cases e)
  case (Socks_accept ec)
  then show ?thesis
    using assms(1)
    by (auto simp: socks_handle_def socks_on_accept_def socks_connection_construct_def Let_def split_beta nth_append
        split: if_splits prod.splits)
next
  case (Socks_conn i ce)
  then obtain sh c where r: "socks_connection_handle fwd async_read async_write make_address (\<lambda>e. ev (Socks_conn i e)) ce
      (ss_shared s) (ss_conns s ! i) w = Inr (sh, c, w')" "s' = s\<lparr>ss_shared := sh, ss_conns := (ss_conns s)[i := c]\<rparr>"
    using assms(1) by (auto simp: socks_handle_def)
  then have "same_conn (ss_conns s ! j) ((ss_conns s)[i := c] ! j)" if "j < length (ss_conns s)" for j
    using event_same_conn [OF r(1)] that by (cases "j = i") simp_all
  then show ?thesis using r(2) by simp
qed










lemma handle_changes_names:
  assumes "socks_handle fwd async_read async_write make_address ev pl e s w = Inr (s', w')"
    and "j < length (ss_conns s)" and "sc_name_mapping (ss_conns s' ! j) \<noteq> sc_name_mapping (ss_conns s ! j)"
  obtains ce sh where "e = Socks_conn j ce"
    and "socks_connection_handle fwd async_read async_write make_address (\<lambda>e. ev (Socks_conn j e)) ce
      (ss_shared s) (ss_conns s ! j) w = Inr (sh, ss_conns s' ! j, w')"
proof (cases e)
  case (Socks_accept ec)
  then have False
    using assms by (auto simp: socks_handle_def socks_on_accept_def Let_def nth_append split: if_splits prod.splits)
  then show ?thesis ..
next
  case (Socks_conn i ce)
  then obtain sh c where r: "socks_connection_handle fwd async_read async_write make_address (\<lambda>e. ev (Socks_conn i e)) ce
      (ss_shared s) (ss_conns s ! i) w = Inr (sh, c, w')" "s' = s\<lparr>ss_shared := sh, ss_conns := (ss_conns s)[i := c]\<rparr>"
    using assms(1) by (auto simp: socks_handle_def)
  then have "i = j" using assms(3) by (cases "i = j") simp_all
  with that [of ce sh] Socks_conn r assms(2) show ?thesis by simp
qed



text \<open>The map of names stays one in both directions, which theory \<open>Socks_Relay\<close> relies on.\<close>

lemma served_names_ok:
  assumes "socks_served fwd async_read async_write make_address ev pl s0 s tr"
    and "\<forall>i < length (ss_conns s0). sc_name_mapping (ss_conns s0 ! i) = []"
  shows "i < length (ss_conns s) \<Longrightarrow> name_mapping_ok (sc_name_mapping (ss_conns s ! i))"
  using assms(1)
proof (induction rule: socks_served.induct)
  case Begin
  then show ?case using assms(2) by (simp add: name_mapping_ok_def)
next
  case (Event s tr e w s' w')
  note h = handle_conns [OF Event.hyps(3,2)]
  show ?case
  proof (cases "i < length (ss_conns s)")
    case False
    then show ?thesis using h Event.prems by (simp add: name_mapping_ok_def)
  next
    case True
    show ?thesis
    proof (cases "sc_name_mapping (ss_conns s' ! i) = sc_name_mapping (ss_conns s ! i)")
      case False
      then obtain ce sh where r: "socks_connection_handle fwd async_read async_write make_address
          (\<lambda>e. ev (Socks_conn i e)) ce (ss_shared s) (ss_conns s ! i) w = Inr (sh, ss_conns s' ! i, w')"
        using handle_changes_names [OF Event.hyps(3) True] by blast
      from event_learns [OF r False] show ?thesis
        using Event.IH [OF True] insert_name_ok by auto
    qed (use Event.IH [OF True] in simp)
  qed
qed


text \<open>A server that has served nobody: what its constructor makes.\<close>

definition fresh_server :: "socks_server \<Rightarrow> bool" where
  "fresh_server s \<longleftrightarrow> cmd_counts s = [0, 0, 0] \<and>
    (\<forall>c \<in> set (ss_conns s). sc_version c = ss_version s \<and> sc_name_mapping c = [])"

lemma socks_server_construct_fresh:
  "socks_server_construct fwd ev pl ios ep port version flags w = Inr (s, w') \<Longrightarrow> fresh_server s"
  by (auto simp: fresh_server_def socks_server_construct_def socks_connection_construct_def cmd_counts_def Let_def
      split_beta split: prod.splits)





end
