(* ===== verification/Double_Error.thy ===== *)
theory Double_Error
  imports Complex_Main Double_Time
begin

text \<open>
  How far the transmission times of theory \<open>Double_Time\<close>, which are rounded twice to double
  precision and then truncated, are from the exact quotients.
\<close>

section \<open>Rounding errors\<close>

lemma round_even_div_error:
  assumes "0 < b"
  shows "\<bar>real (round_even_div a b) - real a / real b\<bar> \<le> 1 / 2"
proof -
  let ?q = "a div b" and ?r = "a mod b"
  have "real a = real b * real ?q + real ?r"
    by (metis mult_div_mod_eq of_nat_add of_nat_mult)
  then have "real a / real b = real ?q + real ?r / real b"
    using assms by (simp add: field_simps)
  moreover have "real ?r / real b \<le> 1 / 2" if "2 * ?r \<le> b"
    using assms that by (simp add: field_simps)
  moreover have "1 / 2 \<le> real ?r / real b" if "b \<le> 2 * ?r"
    using assms that by (simp add: field_simps)
  moreover have "real ?r / real b \<le> 1" "0 \<le> real ?r / real b"
    using assms by (simp_all add: less_imp_le)
  ultimately show ?thesis
    by (auto simp: round_even_div_def Let_def abs_le_iff)
qed

lemma half_ulp: "2 ^ 52 \<le> v \<Longrightarrow> e \<le> 1 / 2 \<Longrightarrow> e \<le> v / 2 ^ 53" for v e :: real
  by simp

lemma two_roundings:
  "\<bar>x - v\<bar> \<le> v / 2 ^ 53 \<Longrightarrow> \<bar>y - x\<bar> \<le> x / 2 ^ 53 \<Longrightarrow> v \<le> 2 ^ 51 \<Longrightarrow> \<bar>y - v\<bar> < 1" for v x y :: real
  unfolding abs_le_iff abs_less_iff by simp

text \<open>The quotient is off by at most one part in \<open>2\<^sup>5\<^sup>3\<close>, and so is the product.\<close>

lemma double_div_error:
  assumes "0 < a" and "0 < b" and "bit_length a \<le> bit_length b + 52" and "double_div a b = (m, s)"
  shows "\<bar>real m / 2 ^ s - real a / real b\<bar> \<le> real a / real b / 2 ^ 53"
proof -
  let ?s = "52 + bit_length b - bit_length a"
  have big: "2 ^ 52 * b \<le> a * 2 ^ s" and m: "m = round_even_div (a * 2 ^ s) b"
  proof -
    have "2 ^ 52 * b \<le> 2 ^ 52 * 2 ^ bit_length b"
      using bit_length_bounds [OF assms(2)] by simp
    also have "\<dots> = 2 ^ (52 + bit_length b)"
      by (rule power_add [symmetric])
    also have "52 + bit_length b = (bit_length a - 1) + Suc ?s"
      using assms(1,3) by (cases "bit_length a") (auto simp: bit_length.simps [of a])
    also have "2 ^ ((bit_length a - 1) + Suc ?s) = 2 ^ (bit_length a - 1) * (2 :: nat) ^ Suc ?s"
      by (rule power_add)
    also have "\<dots> \<le> a * 2 ^ Suc ?s"
      using bit_length_bounds [OF assms(1)] by (intro mult_le_mono1) simp
    finally show "2 ^ 52 * b \<le> a * 2 ^ s" "m = round_even_div (a * 2 ^ s) b"
      using assms(4) by (auto simp: double_div_def Let_def split: if_splits)
  qed
  let ?v = "real (a * 2 ^ s) / real b"
  have "2 ^ 52 \<le> ?v"
    using assms(2) of_nat_mono [OF big, where 'a = real] by (simp add: field_simps)
  moreover have "\<bar>real m - ?v\<bar> \<le> 1 / 2"
    unfolding m by (rule round_even_div_error [OF assms(2)])
  ultimately have "\<bar>real m - ?v\<bar> \<le> ?v / 2 ^ 53"
    by (rule half_ulp)
  then have "\<bar>real m - ?v\<bar> / 2 ^ s \<le> ?v / 2 ^ 53 / 2 ^ s"
    by (intro divide_right_mono) simp_all
  moreover have "\<bar>real m - ?v\<bar> / 2 ^ s = \<bar>real m / 2 ^ s - real a / real b\<bar>"
  proof -
    have "real m / 2 ^ s - real a / real b = (real m - ?v) / 2 ^ s"
      by (simp add: diff_divide_distrib)
    then show ?thesis by (simp only: abs_divide) simp
  qed
  moreover have "?v / 2 ^ 53 / 2 ^ s = real a / real b / 2 ^ 53"
    by simp
  ultimately show ?thesis by simp
qed

lemma double_mult_error:
  assumes "double_mult (m, s) n = (p', s')"
  shows "\<bar>real p' - real (m * n)\<bar> \<le> real (m * n) / 2 ^ 53" and "s' = s"
proof -
  let ?p = "m * n" and ?k = "bit_length (m * n) - 53"
  have p': "p' = round_even_div ?p (2 ^ ?k) * 2 ^ ?k" and s: "s' = s"
    using assms by (simp_all add: double_mult_def Let_def)
  show "s' = s" by (rule s)
  show "\<bar>real p' - real ?p\<bar> \<le> real ?p / 2 ^ 53"
  proof (cases "?k = 0")
    case True
    then show ?thesis
      using round_even_div_exact [of 1 ?p] by (simp add: p')
  next
    case False
    then have "0 < ?p" by (cases "?p = 0") simp_all
    have "\<bar>real (round_even_div ?p (2 ^ ?k)) - real ?p / 2 ^ ?k\<bar> \<le> 1 / 2"
      using round_even_div_error [of "2 ^ ?k" ?p] by simp
    then have "\<bar>real (round_even_div ?p (2 ^ ?k)) - real ?p / 2 ^ ?k\<bar> * 2 ^ ?k \<le> 1 / 2 * 2 ^ ?k"
      by (rule mult_right_mono) simp
    also have "\<bar>real (round_even_div ?p (2 ^ ?k)) - real ?p / 2 ^ ?k\<bar> * 2 ^ ?k = \<bar>real p' - real ?p\<bar>"
      by (simp add: p' left_diff_distrib abs_mult_pos)
    also have "1 / 2 * 2 ^ ?k \<le> real ?p / 2 ^ 53"
    proof -
      have eq: "bit_length ?p - 1 = 52 + ?k" using False by simp
      have "2 ^ (bit_length ?p - 1) \<le> ?p"
        using bit_length_bounds [OF \<open>0 < ?p\<close>] by (rule conjunct1)
      then have "2 ^ (52 + ?k) \<le> ?p"
        by (simp only: eq)
      then have "(2::real) ^ (52 + ?k) \<le> real ?p"
        by (metis of_nat_le_iff of_nat_numeral of_nat_power)
      then show ?thesis by (simp add: power_add)
    qed
    finally show ?thesis .
  qed
qed

section \<open>Transmission times\<close>

lemma double_product_error:
  assumes "0 < a" and "0 < b" and "bit_length a \<le> bit_length b + 52" and "real a / real b * real n \<le> 2 ^ 51"
    and "double_mult (double_div a b) n = (p, s)"
  shows "\<bar>real p / 2 ^ s - real a / real b * real n\<bar> < 1"
proof -
  obtain m t where d: "double_div a b = (m, t)" by fastforce
  note mult = double_mult_error [of m t n p s]
  have "s = t" using mult(2) assms(5) d by simp
  define v where "v = real a / real b"
  define x where "x = real m / 2 ^ s"
  have x: "\<bar>x - v\<bar> \<le> v / 2 ^ 53"
    using double_div_error [OF assms(1-3) d] by (simp add: x_def v_def \<open>s = t\<close>)
  have "\<bar>real p - real (m * n)\<bar> / 2 ^ s \<le> real (m * n) / 2 ^ 53 / 2 ^ s"
    using mult(1) assms(5) d by (intro divide_right_mono) simp_all
  then have p: "\<bar>real p / 2 ^ s - x * real n\<bar> \<le> x * real n / 2 ^ 53"
    by (simp add: x_def diff_divide_distrib flip: abs_divide) (simp add: field_simps)
  have "\<bar>x - v\<bar> * real n \<le> v / 2 ^ 53 * real n"
    using x by (rule mult_right_mono) simp
  moreover have "\<bar>x * real n - v * real n\<bar> = \<bar>x - v\<bar> * real n"
    by (simp add: abs_mult left_diff_distrib [symmetric])
  ultimately have xn: "\<bar>x * real n - v * real n\<bar> \<le> v * real n / 2 ^ 53"
    by simp
  show ?thesis
    using assms(4) two_roundings [OF xn p] by (simp only: v_def)
qed

text \<open>
  C30. The time a packet takes at a bandwidth, computed in double precision and truncated, is never
  more than a nanosecond longer and never two shorter than the exact quotient, for every
  positive bandwidth and every time below \<open>2\<^sup>5\<^sup>1\<close> nanoseconds (26 days).
\<close>

theorem send_time_accurate:
  assumes "0 < bandwidth" and "0 \<le> n" and "1000000000 * n \<le> 2 ^ 51 * bandwidth"
  shows "bandwidth * (send_time_ns bandwidth n - 1) < 1000000000 * n \<and>
    1000000000 * n < bandwidth * (send_time_ns bandwidth n + 2)"
proof -
  define b where "b = nat bandwidth"
  define k where "k = nat n"
  have b: "bandwidth = int b" "0 < b" and k: "n = int k"
    using assms(1,2) by (simp_all add: b_def k_def)
  obtain p s where ps: "double_mult (double_div 1000000000 b) k = (p, s)" by fastforce
  define v where "v = real 1000000000 / real b * real k"
  have "v \<le> 2 ^ 51"
    using assms(3) b(2) unfolding v_def b(1) k by (simp add: field_simps flip: of_int_le_iff [where 'a = real])
  moreover have "bit_length 1000000000 \<le> bit_length b + 52"
    using bit_length_le [of 1000000000 30] by simp
  ultimately have err: "\<bar>real p / 2 ^ s - v\<bar> < 1"
    using double_product_error [OF _ b(2) _ _ ps] unfolding v_def by simp
  let ?t = "p div 2 ^ s"
  have "real ?t \<le> real p / 2 ^ s" "real p / 2 ^ s < real ?t + 1"
    using floor_divide_of_nat_eq [of p "2 ^ s", where 'a = real]
      of_int_floor_le [of "real p / 2 ^ s"] real_of_int_floor_add_one_gt [of "real p / 2 ^ s"]
    by simp_all
  with err have "real ?t - 1 < v" "v < real ?t + 2"
    by (auto simp: abs_less_iff)
  then have "real b * (real ?t - 1) < real 1000000000 * real k" "real 1000000000 * real k < real b * (real ?t + 2)"
    using b(2) by (simp_all add: v_def field_simps)
  moreover have "send_time_ns bandwidth n = int ?t"
    using b ps k by (cases "k = 0") (simp_all add: send_time_ns_def double_trunc_def double_mult_def round_even_div_def Let_def)
  ultimately show ?thesis
    unfolding b(1) k by (simp flip: of_int_less_iff [where 'a = real])
qed

lemma send_time_accurate_witness:
  "3 * (send_time_ns 3 1500 - 1) < (1500000000000 :: int) \<and> 1500000000000 < 3 * (send_time_ns 3 1500 + 2)"
  using send_time_accurate [of 3 1500] by simp

end
