(* ===== verification/Graph.thy ===== *)
theory Graph
  imports Default_Config Decimal
begin

text \<open>
  \<open>dump_network_graph\<close> (\<open>simulator.cpp\<close>): the graph of every route a packet can take, collected
  from the nodes' routes and the configuration's channels, and its text in the language of
  Graphviz. Sinks are compared by address there, so a sink is a graph node and so is the object
  that stands for an \<open>io_context\<close>. The order of the unordered sets, the printed pointers,
  Boost's \<open>address::to_string\<close> and the names of the queues are parameters.
\<close>

section \<open>Collecting the graph\<close>

datatype graph_node = Sink sink | Host nat

record graph =
  g_edges :: "(graph_node \<times> graph_node) set"
  g_nodes :: "graph_node set"
  g_local_nodes :: "graph_node set list"

definition add_edge :: "graph_node \<Rightarrow> graph_node \<Rightarrow> graph \<Rightarrow> graph" where
  "add_edge a b g = g\<lparr>g_edges := insert (a, b) (g_edges g)\<rparr>"

definition add_node :: "graph_node \<Rightarrow> graph \<Rightarrow> graph" where
  "add_node n g = g\<lparr>g_nodes := insert n (g_nodes g)\<rparr>"

definition add_local :: "graph_node \<Rightarrow> graph \<Rightarrow> graph" where
  "add_local n g = g\<lparr>g_local_nodes := butlast (g_local_nodes g) @ [insert n (last (g_local_nodes g))]\<rparr>"

text \<open>The loops that take a route apart, from \<open>prev\<close> on.\<close>

fun walk :: "(graph_node \<Rightarrow> graph \<Rightarrow> graph) \<Rightarrow> graph_node option \<Rightarrow> route \<Rightarrow> graph \<Rightarrow> graph_node option \<times> graph" where
  "walk add prev [] g = (prev, g)"
| "walk add prev (s # r) g =
    walk add (Some (Sink s)) r
      (case prev of None \<Rightarrow> add (Sink s) g | Some p \<Rightarrow> add_edge p (Sink s) (add (Sink s) g))"

fun foldE :: "('a \<Rightarrow> 'b \<Rightarrow> fault + 'b) \<Rightarrow> 'a list \<Rightarrow> 'b \<Rightarrow> fault + 'b" where
  "foldE f [] a = Inr a"
| "foldE f (x # xs) a = bindE (f x a) (foldE f xs)"

text \<open>From the address \<open>ip\<close> through the network to the address \<open>ip2\<close> of the node \<open>j\<close>.\<close>

definition graph_channel :: "'u world \<Rightarrow> address \<Rightarrow> graph_node \<Rightarrow> nat \<Rightarrow> address \<Rightarrow> graph \<Rightarrow> fault + graph" where
  "graph_channel w ip egress j ip2 g =
    bindE (get_incoming_route j ip2 w) (\<lambda>r.
    bindE (next_hop r) (\<lambda>ingress.
    case walk add_node (Some egress) (channel_route (w_config w) ip ip2) g of
      (Some prev, g1) \<Rightarrow> Inr (add_edge prev (Sink ingress) g1)
    | (None, g1) \<Rightarrow> Inr g1))"

definition graph_peer :: "'u world \<Rightarrow> address \<Rightarrow> graph_node \<Rightarrow> nat \<Rightarrow> graph \<Rightarrow> fault + graph" where
  "graph_peer w ip egress j g =
    bindE (node_of j w) (\<lambda>n. foldE (graph_channel w ip egress j) (m_ips n) g)"

definition graph_address :: "nat list \<Rightarrow> 'u world \<Rightarrow> nat \<Rightarrow> address \<Rightarrow> graph \<Rightarrow> fault + graph" where
  "graph_address is w i ip g =
    bindE (get_incoming_route i ip w) (\<lambda>inc.
    bindE (get_outgoing_route i ip w) (\<lambda>out.
    let egress = (if out = [] then Host i else Sink (last out));
        g1 = (case walk add_local None inc g of
                (None, g') \<Rightarrow> g'
              | (Some prev, g') \<Rightarrow> add_edge prev (Host i) g');
        g2 = snd (walk add_local (Some (Host i)) out g1)
    in foldE (graph_peer w ip egress) is g2))"

definition graph_host :: "nat list \<Rightarrow> 'u world \<Rightarrow> nat \<Rightarrow> graph \<Rightarrow> fault + graph" where
  "graph_host is w i g =
    bindE (node_of i w) (\<lambda>n.
    foldE (graph_address is w i) (m_ips n) (g\<lparr>g_local_nodes := g_local_nodes g @ [{Host i}]\<rparr>))"

definition network_graph :: "nat list \<Rightarrow> 'u world \<Rightarrow> fault + graph" where
  "network_graph ios w =
    (let is = get_all_io_services ios w in
     foldE (graph_host is w) is \<lparr>g_edges = {}, g_nodes = {}, g_local_nodes = []\<rparr>)"

section \<open>The text\<close>

abbreviation newline :: string where "newline \<equiv> [CHR 0x0A]"
abbreviation dquote :: string where "dquote \<equiv> [CHR 0x22]"
abbreviation backslash :: string where "backslash \<equiv> [CHR 0x5C]"

definition c_str :: "string \<Rightarrow> string" where
  "c_str s = takeWhile (\<lambda>c. c \<noteq> CHR 0x00) s"

definition escape_label :: "string \<Rightarrow> string" where
  "escape_label s = concat (map (\<lambda>c.
    if c = CHR 0x0A then backslash @ ''n'' else if c = CHR 0x22 then backslash @ dquote else [c]) s)"

text \<open>
  \<open>queue::label\<close> prints into 400 characters. What does not fit is cut off, but a part that starts
  behind the end is written out of bounds.
\<close>

definition queue_label :: "string \<Rightarrow> queue \<Rightarrow> fault + string" where
  "queue_label name x =
    (let parts = [c_str name @ newline] @
       (if q_bandwidth x \<noteq> 0 then [''rate: '' @ to_string (cdiv (q_bandwidth x) 1000) @ '' kB/s'' @ newline] else []) @
       (if q_queue_size x \<noteq> 0 then [''queue: '' @ to_string (cdiv (q_queue_size x) 1000) @ '' kB'' @ newline] else []) @
       (if q_forwarding_latency x \<noteq> 0
        then [''latency: '' @ to_string (cdiv (q_forwarding_latency x) 1000000) @ '' ms'' @ newline] else [])
     in if 400 < length (concat (butlast parts)) then Inl Undefined_behaviour
        else Inr (take 399 (concat parts)))"

definition node_label :: "(address \<Rightarrow> string) \<Rightarrow> (nat \<Rightarrow> string) \<Rightarrow> 'u world \<Rightarrow> graph_node \<Rightarrow> fault + string" where
  "node_label show_address name w n =
    (case n of
       Sink (sink.Queue q) \<Rightarrow> queue_label (name q) (w_queues w q)
     | Sink (Nat a) \<Rightarrow> Inr (''NAT ['' @ show_address a @ '']'')
     | Sink (Forwarder f) \<Rightarrow>
         Inr (case w_forwarders w f of
                None \<Rightarrow> []
              | Some (Tcp k) \<Rightarrow> show_address (ep_address (m_bound_to (w_tcp w k)))
              | Some (Udp k) \<Rightarrow> show_address (ep_address (m_bound_to (w_udp w k))))
     | Host i \<Rightarrow>
         bindE (node_of i w) (\<lambda>x. Inr (concat (map (\<lambda>ip. show_address ip @ '' '') (m_ips x)))))"

definition node_attributes :: "graph_node \<Rightarrow> string" where
  "node_attributes n = (case n of Sink _ \<Rightarrow> ''shape=box'' | Host _ \<Rightarrow> ''shape=ellipse'')"

fun concatE :: "('a \<Rightarrow> fault + string) \<Rightarrow> 'a list \<Rightarrow> fault + string" where
  "concatE f [] = Inr []"
| "concatE f (x # xs) = bindE (f x) (\<lambda>s. bindE (concatE f xs) (\<lambda>t. Inr (s @ t)))"

definition render_node ::
  "(graph_node \<Rightarrow> fault + string) \<Rightarrow> (graph_node \<Rightarrow> string) \<Rightarrow> string \<Rightarrow> graph_node \<Rightarrow> fault + string" where
  "render_node label ptr color n =
    bindE (label n) (\<lambda>l. let attributes = node_attributes n in
    Inr ('' '' @ dquote @ ptr n @ dquote @ '' [label='' @ dquote @ c_str (escape_label l) @ dquote @
      '',style='' @ dquote @ ''filled'' @ dquote @ '',color='' @ dquote @ color @ dquote @
      (if attributes = [] then [] else '', '') @ attributes @ ''];'' @ newline))"

definition render_local ::
  "(graph_node \<Rightarrow> fault + string) \<Rightarrow> (graph_node \<Rightarrow> string) \<Rightarrow> (graph_node set \<Rightarrow> graph_node list) \<Rightarrow>
    nat \<times> graph_node set \<Rightarrow> fault + string" where
  "render_local label ptr order ln =
    bindE (concatE (render_node label ptr ''green'') (order (snd ln))) (\<lambda>s.
    Inr (''subgraph cluster_'' @ to_string (int (fst ln)) @ '' {'' @ newline @ s @ ''}'' @ newline))"

definition render_edge :: "(graph_node \<Rightarrow> string) \<Rightarrow> graph_node \<times> graph_node \<Rightarrow> string" where
  "render_edge ptr e =
    dquote @ ptr (fst e) @ dquote @ '' -> '' @ dquote @ ptr (snd e) @ dquote @ newline"

definition dump_network_graph ::
  "(graph_node \<Rightarrow> fault + string) \<Rightarrow> (graph_node \<Rightarrow> string) \<Rightarrow> (graph_node set \<Rightarrow> graph_node list) \<Rightarrow>
    ((graph_node \<times> graph_node) set \<Rightarrow> (graph_node \<times> graph_node) list) \<Rightarrow> nat list \<Rightarrow> 'u world \<Rightarrow> fault + string" where
  "dump_network_graph label ptr order order_edges ios w =
    bindE (network_graph ios w) (\<lambda>g.
    bindE (concatE (render_node label ptr ''red'') (order (g_nodes g))) (\<lambda>nodes.
    bindE (concatE (render_local label ptr order) (enumerate 0 (g_local_nodes g))) (\<lambda>locals.
    Inr (''digraph network {'' @ newline @ ''concentrate=true;'' @ newline @ ''overlap=scale;'' @ newline @
      ''splines=true;'' @ newline @ newline @ ''// nodes'' @ newline @ newline @ nodes @
      newline @ ''// local networks'' @ newline @ newline @ locals @
      newline @ ''// edges'' @ newline @ newline @
      concat (map (render_edge ptr) (order_edges (g_edges g))) @ ''}'' @ newline))))"

section \<open>Every route is in the graph\<close>

text \<open>The edges between the neighbours of a list.\<close>

fun steps :: "graph_node list \<Rightarrow> (graph_node \<times> graph_node) set" where
  "steps (a # b # ns) = insert (a, b) (steps (b # ns))"
| "steps _ = {}"

lemma steps_append: "steps (as @ b # bs) = steps (as @ [b]) \<union> steps (b # bs)"
proof (induction as)
  case (Cons a as)
  then show ?case by (cases as) auto
qed simp

text \<open>A loop over the elements keeps what the graph has and adds what one element adds.\<close>

lemma foldE_grows:
  assumes "\<And>x a b. f x a = Inr b \<Longrightarrow> g_edges a \<subseteq> g_edges b" and "foldE f xs a = Inr b"
  shows "g_edges a \<subseteq> g_edges b"
  using assms(2) by (induction xs arbitrary: a) (use assms(1) in fastforce)+

lemma foldE_adds:
  assumes "\<And>x a b. f x a = Inr b \<Longrightarrow> g_edges a \<subseteq> g_edges b" and "\<And>a b. f x a = Inr b \<Longrightarrow> E \<subseteq> g_edges b"
    and "x \<in> set xs" and "foldE f xs a = Inr b"
  shows "E \<subseteq> g_edges b"
  using assms(3,4)
proof (induction xs arbitrary: a)
  case (Cons y ys)
  from Cons.prems(2) obtain c where c: "f y a = Inr c" "foldE f ys c = Inr b" by auto
  show ?case
  proof (cases "y = x")
    case True
    have "g_edges c \<subseteq> g_edges b"
      using c(2) by (rule foldE_grows [rotated]) (rule assms(1))
    then show ?thesis
      using assms(2) [of a c] c(1) True by blast
  next
    case False
    then show ?thesis
      using Cons.IH [OF _ c(2)] Cons.prems(1) by simp
  qed
qed simp

definition plain_add :: "(graph_node \<Rightarrow> graph \<Rightarrow> graph) \<Rightarrow> bool" where
  "plain_add add \<longleftrightarrow> (\<forall>n g. g_edges (add n g) = g_edges g)"

lemma plain_adds [simp]: "plain_add add_node" "plain_add add_local"
  by (simp_all add: plain_add_def add_node_def add_local_def)

lemma g_edges_add_edge [simp]: "g_edges (add_edge a b g) = insert (a, b) (g_edges g)"
  by (simp add: add_edge_def)

lemma walk_Some:
  assumes "plain_add add"
  shows "fst (walk add (Some p) r g) = Some (last (p # map Sink r)) \<and>
    g_edges (snd (walk add (Some p) r g)) = g_edges g \<union> steps (p # map Sink r)"
  using assms by (induction r arbitrary: p g) (auto simp: plain_add_def)

lemma walk_None:
  assumes "plain_add add"
  shows "fst (walk add None r g) = (if r = [] then None else Some (last (map Sink r))) \<and>
    g_edges (snd (walk add None r g)) = g_edges g \<union> steps (map Sink r)"
  using assms walk_Some [OF assms] by (cases r) (auto simp: plain_add_def)

lemma steps_chain: "ns \<noteq> [] \<Longrightarrow> steps (ns @ ms) = steps ns \<union> steps (last ns # ms)"
proof -
  assume "ns \<noteq> []"
  then obtain as b where "ns = as @ [b]" by (cases ns rule: rev_cases) simp_all
  then show ?thesis using steps_append [of as b ms] by simp
qed

lemma graph_channel_adds:
  assumes "graph_channel w ip egress j ip2 g = Inr g'"
  shows "g_edges g \<subseteq> g_edges g'"
    and "get_incoming_route j ip2 w = Inr (s # inc) \<Longrightarrow>
      steps (egress # map Sink (channel_route (w_config w) ip ip2) @ [Sink s]) \<subseteq> g_edges g'"
proof -
  let ?r = "channel_route (w_config w) ip ip2"
  obtain g1 where w: "walk add_node (Some egress) ?r g = (Some (last (egress # map Sink ?r)), g1)"
      "g_edges g1 = g_edges g \<union> steps (egress # map Sink ?r)"
    using walk_Some [OF plain_adds(1), of egress ?r g]
    by (cases "walk add_node (Some egress) ?r g") auto
  show "g_edges g \<subseteq> g_edges g'"
    using assms w by (auto simp: graph_channel_def)
  show "steps (egress # map Sink ?r @ [Sink s]) \<subseteq> g_edges g'"
    if "get_incoming_route j ip2 w = Inr (s # inc)"
    using assms w that steps_chain [of "egress # map Sink ?r" "[Sink s]"]
    by (simp add: graph_channel_def next_hop_def del: last.simps)
      (metis append_Cons insert_subset list.distinct(1) subset_insertI2 sup_ge2 g_edges_add_edge insertI1)
qed

lemma graph_peer_adds:
  assumes "graph_peer w ip egress j g = Inr g'"
  shows "g_edges g \<subseteq> g_edges g'"
    and "node_of j w = Inr n \<Longrightarrow> ip2 \<in> set (m_ips n) \<Longrightarrow> get_incoming_route j ip2 w = Inr (s # inc) \<Longrightarrow>
      steps (egress # map Sink (channel_route (w_config w) ip ip2) @ [Sink s]) \<subseteq> g_edges g'"
proof -
  obtain m where m: "node_of j w = Inr m" "foldE (graph_channel w ip egress j) (m_ips m) g = Inr g'"
    using assms by (auto simp: graph_peer_def)
  show "g_edges g \<subseteq> g_edges g'"
    using m(2) by (rule foldE_grows [rotated]) (rule graph_channel_adds)
  show "steps (egress # map Sink (channel_route (w_config w) ip ip2) @ [Sink s]) \<subseteq> g_edges g'"
    if "node_of j w = Inr n" "ip2 \<in> set (m_ips n)" "get_incoming_route j ip2 w = Inr (s # inc)"
    using m that by (intro foldE_adds [OF _ _ _ m(2), where x = ip2]) (auto dest: graph_channel_adds)
qed

lemma graph_address_adds:
  assumes "graph_address is w i ip g = Inr g'"
  shows "g_edges g \<subseteq> g_edges g'"
    and "get_incoming_route i ip w = Inr (s # inc) \<Longrightarrow> steps (map Sink (s # inc) @ [Host i]) \<subseteq> g_edges g'"
    and "get_outgoing_route i ip w = Inr out \<Longrightarrow> steps (Host i # map Sink out) \<subseteq> g_edges g'"
    and "get_outgoing_route i ip w = Inr out \<Longrightarrow> j \<in> set is \<Longrightarrow> node_of j w = Inr n \<Longrightarrow> ip2 \<in> set (m_ips n) \<Longrightarrow>
      get_incoming_route j ip2 w = Inr (s # inc) \<Longrightarrow>
      steps (last (Host i # map Sink out) # map Sink (channel_route (w_config w) ip ip2) @ [Sink s]) \<subseteq> g_edges g'"
proof -
  obtain inc' out' where r: "get_incoming_route i ip w = Inr inc'" "get_outgoing_route i ip w = Inr out'"
    using assms by (auto simp: graph_address_def)
  define egress where "egress = last (Host i # map Sink out')"
  define g1 where "g1 = (case walk add_local None inc' g of
    (None, h) \<Rightarrow> h | (Some prev, h) \<Rightarrow> add_edge prev (Host i) h)"
  define g2 where "g2 = snd (walk add_local (Some (Host i)) out' g1)"
  have "(if out' = [] then Host i else Sink (last out')) = egress"
    by (simp add: egress_def last_map)
  then have f: "foldE (graph_peer w ip egress) is g2 = Inr g'"
    using assms r by (simp add: graph_address_def g1_def g2_def Let_def)
  have "g_edges g1 = g_edges g \<union> steps (map Sink inc' @ (if inc' = [] then [] else [Host i]))"
    using walk_None [OF plain_adds(2), of inc' g] steps_chain [of "map Sink inc'" "[Host i]"]
    by (cases "walk add_local None inc' g") (auto simp: g1_def)
  moreover have "g_edges g2 = g_edges g1 \<union> steps (Host i # map Sink out')"
    unfolding g2_def using walk_Some [OF plain_adds(2)] by simp
  moreover have "g_edges g2 \<subseteq> g_edges g'"
    using f by (rule foldE_grows [rotated]) (rule graph_peer_adds)
  ultimately show "g_edges g \<subseteq> g_edges g'"
    and "get_incoming_route i ip w = Inr (s # inc) \<Longrightarrow> steps (map Sink (s # inc) @ [Host i]) \<subseteq> g_edges g'"
    and "get_outgoing_route i ip w = Inr out \<Longrightarrow> steps (Host i # map Sink out) \<subseteq> g_edges g'"
    using r by auto
  show "steps (last (Host i # map Sink out) # map Sink (channel_route (w_config w) ip ip2) @ [Sink s]) \<subseteq> g_edges g'"
    if "get_outgoing_route i ip w = Inr out" "j \<in> set is" "node_of j w = Inr n" "ip2 \<in> set (m_ips n)"
      "get_incoming_route j ip2 w = Inr (s # inc)"
  proof (rule foldE_adds [OF graph_peer_adds(1) _ that(2) f])
    fix a b
    assume "graph_peer w ip egress j a = Inr b"
    moreover have "egress = last (Host i # map Sink out)"
      using that(1) r(2) by (simp add: egress_def)
    ultimately show "steps (last (Host i # map Sink out) # map Sink (channel_route (w_config w) ip ip2) @ [Sink s]) \<subseteq> g_edges b"
      using graph_peer_adds(2) [OF _ that(3-5)] by (simp only:)
  qed
qed

lemma graph_host_adds:
  assumes "graph_host is w i g = Inr g'"
  shows "g_edges g \<subseteq> g_edges g'"
    and "node_of i w = Inr n \<Longrightarrow> ip \<in> set (m_ips n) \<Longrightarrow>
      (\<And>a b. graph_address is w i ip a = Inr b \<Longrightarrow> E \<subseteq> g_edges b) \<Longrightarrow> E \<subseteq> g_edges g'"
proof -
  obtain m where m: "node_of i w = Inr m"
    "foldE (graph_address is w i) (m_ips m) (g\<lparr>g_local_nodes := g_local_nodes g @ [{Host i}]\<rparr>) = Inr g'"
    using assms by (auto simp: graph_host_def)
  have "g_edges (g\<lparr>g_local_nodes := g_local_nodes g @ [{Host i}]\<rparr>) \<subseteq> g_edges g'"
    using m(2) by (rule foldE_grows [rotated]) (rule graph_address_adds)
  then show "g_edges g \<subseteq> g_edges g'" by simp
  show "E \<subseteq> g_edges g'" if "node_of i w = Inr n" "ip \<in> set (m_ips n)"
    "\<And>a b. graph_address is w i ip a = Inr b \<Longrightarrow> E \<subseteq> g_edges b"
    using m(1) that(1,2) by (intro foldE_adds [OF graph_address_adds(1) that(3) _ m(2)]) auto
qed

lemma network_graph_adds:
  assumes "network_graph ios w = Inr g" and "i \<in> set (get_all_io_services ios w)" and "node_of i w = Inr n"
    and "ip \<in> set (m_ips n)" and "\<And>a b. graph_address (get_all_io_services ios w) w i ip a = Inr b \<Longrightarrow> E \<subseteq> g_edges b"
  shows "E \<subseteq> g_edges g"
proof -
  let ?is = "get_all_io_services ios w"
  have f: "foldE (graph_host ?is w) ?is \<lparr>g_edges = {}, g_nodes = {}, g_local_nodes = []\<rparr> = Inr g"
    using assms(1) by (simp add: network_graph_def Let_def)
  show ?thesis
  proof (rule foldE_adds [OF graph_host_adds(1) _ assms(2) f])
    fix a b
    assume "graph_host ?is w i a = Inr b"
    then show "E \<subseteq> g_edges b"
      using assms(3-5) by (rule graph_host_adds(2))
  qed
qed

text \<open>
  C31. The graph shows every way a packet can take: from the node \<open>i\<close> through the hops out of its
  address, the channel, and the hops into the address of the node \<open>j\<close>, up to \<open>j\<close>, each hop is
  joined to the next by an edge.
\<close>

theorem network_graph_shows_routes:
  assumes "network_graph ios w = Inr g"
    and "i \<in> set (get_all_io_services ios w)" and "node_of i w = Inr n" and "ip \<in> set (m_ips n)"
    and "j \<in> set (get_all_io_services ios w)" and "node_of j w = Inr n2" and "ip2 \<in> set (m_ips n2)"
    and "get_outgoing_route i ip w = Inr out" and "get_incoming_route j ip2 w = Inr inc" and "inc \<noteq> []"
  shows "steps (Host i # map Sink (out @ channel_route (w_config w) ip ip2 @ inc) @ [Host j]) \<subseteq> g_edges g"
proof -
  let ?is = "get_all_io_services ios w" and ?net = "map Sink (channel_route (w_config w) ip ip2)"
  obtain s r where s: "inc = s # r" using assms(10) by (cases inc) auto
  note adds = network_graph_adds [OF assms(1)]
  have out: "steps (Host i # map Sink out) \<subseteq> g_edges g"
    by (rule adds [OF assms(2-4)]) (rule graph_address_adds(3) [OF _ assms(8)])
  have net: "steps (last (Host i # map Sink out) # ?net @ [Sink s]) \<subseteq> g_edges g"
    by (rule adds [OF assms(2-4)]) (rule graph_address_adds(4) [OF _ assms(8,5-7) assms(9) [unfolded s]])
  have "steps (map Sink (s # r) @ [Host j]) \<subseteq> g_edges g"
    by (rule adds [OF assms(5-7)]) (rule graph_address_adds(2) [OF _ assms(9) [unfolded s]])
  then have "steps ((last (Host i # map Sink out) # ?net) @ Sink s # map Sink r @ [Host j]) \<subseteq> g_edges g"
    using net by (subst steps_append) simp
  then show ?thesis
    using out steps_chain [of "Host i # map Sink out" "?net @ Sink s # map Sink r @ [Host j]"]
    by (simp add: s)
qed

definition two_hosts :: "nat world" where
  "two_hosts = empty_world\<lparr>w_nodes := [
      0 \<mapsto> \<lparr>m_ips = [V4 1], m_outgoing_route = [(V4 1, [sink.Queue 5])], m_incoming_route = [(V4 1, [sink.Queue 6])],
        m_ios_stopped = False\<rparr>,
      1 \<mapsto> \<lparr>m_ips = [V4 2], m_outgoing_route = [(V4 2, [Nat (V4 9)])], m_incoming_route = [(V4 2, [sink.Queue 8])],
        m_ios_stopped = False\<rparr>],
    w_config := \<lparr>channel_route = (\<lambda>_ _. [sink.Queue 7]), path_mtu = (\<lambda>_ _. 1475),
      hostname_lookup = (\<lambda>_ _. ([], host_not_found, 0))\<rparr>\<rparr>"

lemma network_graph_shows_routes_witness:
  "\<exists>g. network_graph [0, 1] two_hosts = Inr g \<and>
    {(Host 1, Sink (Nat (V4 9))), (Sink (Nat (V4 9)), Sink (sink.Queue 7)), (Sink (sink.Queue 7), Sink (sink.Queue 6)),
     (Sink (sink.Queue 6), Host 0)} \<subseteq> g_edges g"
proof -
  have ok: "get_all_io_services [0, 1] two_hosts = [0, 1]"
    "get_incoming_route 0 (V4 1) two_hosts = Inr [sink.Queue 6]" "get_incoming_route 1 (V4 2) two_hosts = Inr [sink.Queue 8]"
    "get_outgoing_route 0 (V4 1) two_hosts = Inr [sink.Queue 5]" "get_outgoing_route 1 (V4 2) two_hosts = Inr [Nat (V4 9)]"
    "\<And>a b. channel_route (w_config two_hosts) a b = [sink.Queue 7]"
    by (simp_all add: two_hosts_def get_all_io_services_def get_incoming_route_def get_outgoing_route_def node_of_def
        om_find_def om_lower_bound_def derefE_def)
  obtain n m where nodes: "node_of 0 two_hosts = Inr n" "m_ips n = [V4 1]" "node_of 1 two_hosts = Inr m" "m_ips m = [V4 2]"
    by (simp add: two_hosts_def node_of_def)
  obtain g where g: "network_graph [0, 1] two_hosts = Inr g"
    using ok nodes
    by (simp add: network_graph_def graph_host_def graph_address_def graph_peer_def graph_channel_def next_hop_def Let_def)
  have "steps (Host 1 # map Sink ([Nat (V4 9)] @ channel_route (w_config two_hosts) (V4 2) (V4 1) @ [sink.Queue 6]) @ [Host 0])
      \<subseteq> g_edges g"
    by (rule network_graph_shows_routes [OF g _ nodes(3) _ _ nodes(1)]) (simp_all add: ok [unfolded One_nat_def] nodes)
  with g show ?thesis by (simp add: ok)
qed

end
