(* ===== verification/Steps.thy ===== *)
theory Steps
  imports Simulation
begin

text \<open>
  The event loop in small steps, for properties that follow one activity through many events: a step
  runs the first posted job, or, when there is none, lets the clock jump to the first timers and
  fire them. The main lemma is that steps to a world with nothing left to do are what \<open>run\<close> does.
\<close>

section \<open>Steps\<close>

definition running :: "'u world \<Rightarrow> bool" where
  "running w \<longleftrightarrow> \<not> m_stopped (w_sched w)"

inductive loop_step :: "'u app \<Rightarrow> nat \<Rightarrow> 'u world \<Rightarrow> 'u world \<Rightarrow> bool" for app n where
  Job: "m_service (w_sched w) = j # js \<Longrightarrow> run_job app n j (upd_sched (\<lambda>s. s\<lparr>m_service := js\<rparr>) w) = Inr w' \<Longrightarrow>
    running w' \<Longrightarrow> loop_step app n w w'"
| Advance: "m_service (w_sched w) = [] \<Longrightarrow> m_timer_queue (w_sched w) \<noteq> [] \<Longrightarrow> running w \<Longrightarrow>
    loop_step app n w (w\<lparr>w_sched := snd (advance (w_sched w))\<rparr>)"

abbreviation loop_steps :: "'u app \<Rightarrow> nat \<Rightarrow> nat \<Rightarrow> 'u world \<Rightarrow> 'u world \<Rightarrow> bool" where
  "loop_steps app n m \<equiv> loop_step app n ^^ m"

text \<open>Nothing left to do.\<close>

definition finished :: "'u world \<Rightarrow> bool" where
  "finished w \<longleftrightarrow> running w \<and> m_service (w_sched w) = [] \<and> m_timer_queue (w_sched w) = []"

text \<open>At most \<open>m\<close> steps.\<close>

definition leads :: "'u app \<Rightarrow> nat \<Rightarrow> nat \<Rightarrow> 'u world \<Rightarrow> 'u world \<Rightarrow> bool" where
  "leads app n m w w' \<longleftrightarrow> (\<exists>i \<le> m. loop_steps app n i w w')"

lemma leads_refl: "leads app n m w w"
  by (auto simp: leads_def intro: exI [of _ 0])

lemma leads_step: "loop_step app n w w1 \<Longrightarrow> leads app n m w1 w2 \<Longrightarrow> leads app n (Suc m) w w2"
  unfolding leads_def by (meson Suc_le_mono relpowp_Suc_I2)

lemma leads_trans: "leads app n m w w1 \<Longrightarrow> leads app n m' w1 w2 \<Longrightarrow> leads app n (m + m') w w2"
  unfolding leads_def by (meson add_mono relpowp_trans)

lemma leads_mono: "leads app n m w w' \<Longrightarrow> m \<le> m' \<Longrightarrow> leads app n m' w w'"
  unfolding leads_def by (meson le_trans)

section \<open>The loop follows the steps\<close>

lemma advance_fires: "m_timer_queue s \<noteq> [] \<Longrightarrow> 0 < fst (advance s)"
proof -
  assume "m_timer_queue s \<noteq> []"
  then obtain t q where q: "m_timer_queue s = t # q" by (cases "m_timer_queue s") auto
  let ?s = "fast_forward (expiry s t - now s) s"
  have "m_timer_queue ?s = t # q" "expiry ?s t \<le> now ?s"
    by (simp_all add: fast_forward_def now_def expiry_def q)
  then show ?thesis
    unfolding advance_def q by (simp add: fire_due.simps [of ?s] split_beta)
qed

text \<open>The rest of the loop after a round, as \<open>run_loop\<close> has it, and a round with its own fuel.\<close>

definition after_round ::
  "'u app \<Rightarrow> nat \<Rightarrow> nat \<Rightarrow> nat \<Rightarrow> int \<Rightarrow> nat \<Rightarrow> nat \<times> 'u world \<Rightarrow> fault + (run_result \<times> 'u world)" where
  "after_round app n k ret prev_time stalled = (\<lambda>(last_executed, w1).
    let time = now (w_sched w1); ret1 = ret + last_executed;
        stalled1 = (if last_executed = 0 then stalled else if time = prev_time then stalled + 1 else 0);
        prev1 = (if last_executed = 0 then prev_time else time)
    in if 0 < last_executed \<and> time = prev_time \<and> max_stalled_iterations < stalled1
       then Inr (Busy_loop, run_catch w1)
       else if 0 < last_executed \<and> \<not> m_stopped (w_sched w1)
       then run_loop app n k ret1 prev1 stalled1 w1
       else Inr (Returned ret1, w1))"

definition round_with :: "'u app \<Rightarrow> nat \<Rightarrow> nat \<Rightarrow> 'u world \<Rightarrow> fault + (nat \<times> 'u world)" where
  "round_with app n k w = bindE (poll app n k w) (\<lambda>(c, w1).
    let (f, s) = advance (w_sched w1) in Inr (c + f, w1\<lparr>w_sched := s\<rparr>))"

lemma run_loop_round:
  "run_loop app n (Suc k) ret prev st w = bindE (round_with app n n w) (after_round app n k ret prev st)"
  by (simp add: run_round_def round_with_def after_round_def)

lemma round_finished: "finished w \<Longrightarrow> round_with app n k w = Inr (0, w)"
  by (cases k) (simp_all add: finished_def round_with_def advance_def)

lemma run_loop_finished: "finished w \<Longrightarrow> run_loop app n (Suc k) ret prev st w = Inr (Returned ret, w)"
  by (simp only: run_loop_round round_finished) (simp add: after_round_def)

lemma after_round_continues:
  assumes "0 < c" and "running w" and "Suc st \<le> max_stalled_iterations"
  obtains prev' st' where "\<And>ret. after_round app n k ret prev st (c, w) = run_loop app n k (ret + c) prev' st' w"
    and "st' \<le> Suc st"
proof (rule that)
  let ?st = "if now (w_sched w) = prev then Suc st else 0"
  show "after_round app n k ret prev st (c, w) = run_loop app n k (ret + c) (now (w_sched w)) ?st w" for ret
    using assms by (auto simp: after_round_def running_def)
qed simp

lemma steps_loop:
  assumes "loop_steps app n m w w'" and "finished w'" and "m \<le> i" and "m \<le> n" and "Suc m \<le> k"
    and "st + m \<le> max_stalled_iterations"
  shows "\<exists>r. bindE (round_with app n i w) (after_round app n k ret prev st) = Inr (Returned r, w')"
  using assms(1,3-)
proof (induction m arbitrary: w i k ret prev st)
  case 0
  then show ?case
    using round_finished [OF assms(2), of app n i] by (auto simp: after_round_def)
next
  case (Suc m)
  from Suc.prems(1) obtain w1 where w1: "loop_step app n w w1" "loop_steps app n m w1 w'"
    by (meson relpowp_Suc_D2)
  obtain k' i' where k: "k = Suc k'" and i: "i = Suc i'" using Suc.prems(2,4) by (cases k; cases i) auto
  from w1(1) show ?case
  proof (cases rule: loop_step.cases)
    case Advance
    have pos: "0 < fst (advance (w_sched w))" using Advance(3) by (rule advance_fires)
    have "running w1"
      using Advance by (simp add: running_def advance_def fire_due_frame fast_forward_def split: list.splits)
    then obtain prev' st' where after: "after_round app n k ret prev st (fst (advance (w_sched w)), w1) =
        run_loop app n k (ret + fst (advance (w_sched w))) prev' st' w1" and "st' \<le> Suc st"
      using after_round_continues [OF pos, of w1 st app n k prev] Suc.prems(5) by (metis add_Suc_right add_leD1 add_Suc)
    moreover have "round_with app n i w = Inr (fst (advance (w_sched w)), w1)"
      using Advance by (simp add: round_with_def i split_beta)
    moreover have "\<exists>r. run_loop app n k (ret + fst (advance (w_sched w))) prev' st' w1 = Inr (Returned r, w')"
      unfolding k run_loop_round using Suc.prems k \<open>st' \<le> Suc st\<close> by (intro Suc.IH [OF w1(2)]) simp_all
    ultimately show ?thesis by simp
  next
    case (Job j js)
    obtain c w2 where r: "round_with app n i' w1 = Inr (c, w2)"
      using Suc.IH [OF w1(2), of i' k st ret prev] Suc.prems i by (auto simp: bindE_eq_Inr)
    have r': "round_with app n i w = Inr (Suc c, w2)"
      using r Job(1,2) by (auto simp: round_with_def i split_beta)
    show ?thesis
    proof (cases "c = 0")
      case True
      then have "w2 = w'"
        using Suc.IH [OF w1(2), of i' k st ret prev] Suc.prems i r by (simp add: after_round_def)
      moreover have "running w'" "Suc st \<le> max_stalled_iterations"
        using Suc.prems(5) assms(2) by (simp_all add: finished_def)
      from after_round_continues [OF zero_less_Suc this, of app n k prev 0] obtain prev' st' where
        "after_round app n k ret prev st (Suc 0, w') = run_loop app n k (ret + Suc 0) prev' st' w'"
        by metis
      ultimately show ?thesis
        using True k by (simp add: r' run_loop_finished assms(2) del: run_loop.simps)
    next
      case False
      have "after_round app n k ret prev st (Suc c, w2) = after_round app n k (Suc ret) prev st (c, w2)"
        using False by (simp add: after_round_def cong: if_cong)
      then show ?thesis
        using Suc.IH [OF w1(2), of i' k st "Suc ret" prev] Suc.prems r'
        by (simp add: r i)
    qed
  qed
qed

text \<open>
  Steps that lead, in at most a thousand, to a world with nothing left to do are what \<open>run\<close> does,
  given fuel for them: it returns, in that world, and does not take the activity for a busy loop.
\<close>

lemma run_steps:
  assumes "leads app n m w w'" and "finished w'" and "m \<le> n" and "Suc m < k" and "m \<le> 1000"
  shows "\<exists>r. run app n k w = Inr (Returned r, w')"
proof -
  obtain i where i: "i \<le> m" "loop_steps app n i w w'" using assms(1) by (auto simp: leads_def)
  obtain k' where k: "k = Suc k'" using assms(4) by (cases k) auto
  show ?thesis
    unfolding run_def k run_loop_round
    by (rule steps_loop [OF i(2) assms(2)]) (use i(1) assms k in \<open>simp_all add: max_stalled_iterations_def\<close>)
qed

end
