(* ===== verification/Delivery.thy ===== *)
theory Delivery
  imports Steps Tcp_Stream
begin

text \<open>
  One packet at a time through a quiet network: what the event loop does from the moment a packet
  gets into the first queue of a path to the moment it is handed to the sink behind the last one.
  Each queue holds the packet for its latency and the time it takes at the queue's bandwidth; nothing
  else changes on the way.
\<close>

section \<open>Schedulers with nothing to do\<close>

definition quiet_sched :: "('t, 'j) sched \<Rightarrow> bool" where
  "quiet_sched s \<longleftrightarrow> \<not> m_stopped s \<and> m_service s = [] \<and> m_timer_queue s = [] \<and>
    (\<forall>t. m_expired (timers s t) \<and> m_handler (timers s t) = None)"

definition quiet :: "'u world \<Rightarrow> bool" where
  "quiet w \<longleftrightarrow> quiet_sched (w_sched w)"

lemma quiet_cong: "w_sched w = w_sched w' \<Longrightarrow> quiet w = quiet w'"
  by (simp add: quiet_def)

lemma quiet_finished: "quiet w \<Longrightarrow> finished w"
  by (simp add: quiet_def quiet_sched_def finished_def running_def)

lemma quiet_running: "quiet w \<Longrightarrow> running w"
  by (simp add: quiet_def quiet_sched_def running_def)

lemma quiet_cancel [simp]: "quiet w \<Longrightarrow> cancel_timer t w = w"
  by (simp add: quiet_def quiet_sched_def cancel_timer_def cancel_def upd_sched_def)

text \<open>One timer armed, and what the clock's jump to it leaves.\<close>

definition armed_sched :: "'t \<Rightarrow> int \<Rightarrow> (error_code \<Rightarrow> 'j) \<Rightarrow> ('t, 'j) sched \<Rightarrow> ('t, 'j) sched" where
  "armed_sched t e h s = s\<lparr>timers := (timers s)(t := \<lparr>m_expiration_time = e, m_handler = Some h, m_expired = False\<rparr>),
    m_timer_queue := [t]\<rparr>"

definition sched_at :: "'t \<Rightarrow> int \<Rightarrow> ('t, 'j) sched \<Rightarrow> ('t, 'j) sched" where
  "sched_at t e s = s\<lparr>g_simulation_time := e,
    timers := (timers s)(t := \<lparr>m_expiration_time = e, m_handler = None, m_expired = True\<rparr>)\<rparr>"

lemma sched_at_quiet: "quiet_sched s \<Longrightarrow> quiet_sched (sched_at t e s)"
  by (simp add: quiet_sched_def sched_at_def)

lemma sched_at_now [simp]: "now (sched_at t e s) = e"
  by (simp add: sched_at_def now_def)

lemma armed_sched_now [simp]: "now (armed_sched t e h s) = now s"
  by (simp add: armed_sched_def now_def)

lemma arm_quiet:
  assumes "quiet w"
  shows "timer_expires_at t e w = Inr (w\<lparr>w_sched := (w_sched w)\<lparr>timers := (timers (w_sched w))(t :=
      \<lparr>m_expiration_time = e, m_handler = None, m_expired = False\<rparr>), m_timer_queue := [t]\<rparr>\<rparr>)"
    and "timer_expires_after t d w = timer_expires_at t (now (w_sched w) + d) w"
    and "bindE (timer_expires_at t e w) (timer_async_wait t h) = Inr (w\<lparr>w_sched := armed_sched t e h (w_sched w)\<rparr>)"
proof -
  let ?s = "w_sched w"
  have q: "m_expired (timers ?s t)" "m_handler (timers ?s t) = None" "\<not> m_stopped ?s" "m_timer_queue ?s = []"
    using assms by (simp_all add: quiet_def quiet_sched_def)
  have tm: "(timers ?s t)\<lparr>m_expiration_time := e, m_expired := False\<rparr> =
      \<lparr>m_expiration_time = e, m_handler = None, m_expired = False\<rparr>"
    using q(2) by (cases "timers ?s t") simp
  show at: "timer_expires_at t e w = Inr (w\<lparr>w_sched := ?s\<lparr>timers := (timers ?s)(t :=
      \<lparr>m_expiration_time = e, m_handler = None, m_expired = False\<rparr>), m_timer_queue := [t]\<rparr>\<rparr>)"
    using q by (simp add: timer_expires_at_def expires_at_def cancel_def add_timer_def set_timer_def tm
        before_upper_def from_upper_def)
  show "timer_expires_after t d w = timer_expires_at t (now ?s + d) w"
    by (simp add: timer_expires_after_def timer_expires_at_def expires_after_eq)
  show "bindE (timer_expires_at t e w) (timer_async_wait t h) = Inr (w\<lparr>w_sched := armed_sched t e h ?s\<rparr>)"
    by (simp add: at timer_async_wait_def async_wait_def set_timer_def armed_sched_def Let_def)
qed

lemma advance_armed:
  assumes "quiet_sched s"
  shows "snd (advance (armed_sched t e h s)) = post (h success) (sched_at t e s)"
proof -
  let ?a = "armed_sched t e h s"
  let ?f = "fast_forward (expiry ?a t - now ?a) ?a"
  have "m_timer_queue ?a = [t]" by (simp add: armed_sched_def)
  moreover have "fire_due ?f = (1, post (h success) (sched_at t e s))"
    using assms
    by (subst fire_due.simps, subst fire_due.simps)
      (simp add: armed_sched_def fast_forward_def expiry_def now_def fire_def sched_at_def set_timer_def post_def
        quiet_sched_def Let_def)
  ultimately show ?thesis by (simp add: advance_def)
qed

lemma armed_fires:
  assumes "quiet_sched s"
  shows "loop_step app n (w\<lparr>w_sched := armed_sched t e h s\<rparr>) (w\<lparr>w_sched := post (h success) (sched_at t e s)\<rparr>)"
proof -
  let ?w = "w\<lparr>w_sched := armed_sched t e h s\<rparr>"
  have "loop_step app n ?w (?w\<lparr>w_sched := snd (advance (w_sched ?w))\<rparr>)"
    using assms by (intro Advance) (simp_all add: armed_sched_def quiet_sched_def running_def)
  then show ?thesis by (simp add: advance_armed [OF assms])
qed

text \<open>A single posted job.\<close>

lemma job_runs:
  assumes "quiet_sched s" and "run_job app n j (w\<lparr>w_sched := s\<rparr>) = Inr w'" and "running w'"
  shows "loop_step app n (w\<lparr>w_sched := post j s\<rparr>) w'"
proof (rule Job)
  show "m_service (w_sched (w\<lparr>w_sched := post j s\<rparr>)) = [j]"
    using assms(1) by (simp add: quiet_sched_def post_def)
  have "(post j s)\<lparr>m_service := []\<rparr> = s"
    using assms(1) by (simp add: quiet_sched_def post_def)
  then show "run_job app n j (upd_sched (\<lambda>s. s\<lparr>m_service := []\<rparr>) (w\<lparr>w_sched := post j s\<rparr>)) = Inr w'"
    using assms(2) by (simp add: upd_sched_def)
qed (rule assms(3))

text \<open>A job of the application that reads the clock and writes memory, whatever the others do.\<close>

definition writes :: "'u app \<Rightarrow> 'u \<Rightarrow> (int \<Rightarrow> memory \<Rightarrow> memory) \<Rightarrow> bool" where
  "writes app u g \<longleftrightarrow> (\<forall>w. app u w = Inr (w\<lparr>w_mem := g (now (w_sched w)) (w_mem w)\<rparr>))"

lemma writes_memory_app [simp]: "writes (memory_app g) u (g u)"
  by (simp add: writes_def memory_app_def)

lemma memory_job_run:
  assumes "writes app u g" and "m_service (w_sched w) = [App u]" and "running w"
  shows "leads app n 1 w (w\<lparr>w_sched := (w_sched w)\<lparr>m_service := []\<rparr>, w_mem := g (now (w_sched w)) (w_mem w)\<rparr>)"
proof -
  have "loop_step app n w (w\<lparr>w_sched := (w_sched w)\<lparr>m_service := []\<rparr>, w_mem := g (now (w_sched w)) (w_mem w)\<rparr>)"
    using assms by (intro Job [where j = "App u" and js = "[]"])
      (simp_all add: run_job_def writes_def upd_sched_def running_def now_def)
  then show ?thesis unfolding One_nat_def by (rule leads_step [OF _ leads_refl])
qed

lemma memory_job_last:
  assumes "writes app u g" and "w_sched w = post (App u) s" and "quiet_sched s"
  shows "leads app n 1 w (w\<lparr>w_sched := s, w_mem := g (now s) (w_mem w)\<rparr>)"
    and "quiet (w\<lparr>w_sched := s, w_mem := g (now s) (w_mem w)\<rparr>)"
proof -
  have "m_service (w_sched w) = [App u]" "running w" "(w_sched w)\<lparr>m_service := []\<rparr> = s" "now (w_sched w) = now s"
    using assms by (simp_all add: quiet_sched_def post_def running_def now_def)
  with memory_job_run [OF assms(1), of w n] show "leads app n 1 w (w\<lparr>w_sched := s, w_mem := g (now s) (w_mem w)\<rparr>)"
    by simp
qed (simp add: quiet_def assms(3))

section \<open>Through a queue\<close>

text \<open>
  The time a packet spends in an empty queue, whether it is taken, and the world right after: the
  timer is armed for the end of the latency.
\<close>

definition hop_time :: "queue \<Rightarrow> packet \<Rightarrow> int" where
  "hop_time x p = q_forwarding_latency x +
    (if q_bandwidth x = 0 then 0 else send_time_ns (q_bandwidth x) (packet_size p))"

definition free_for :: "packet \<Rightarrow> queue \<Rightarrow> bool" where
  "free_for p x \<longleftrightarrow> q_queue x = [] \<and> q_queue_size x = 0 \<and> 0 < q_forwarding_latency x \<and>
    (q_max_queue_size x \<le> 0 \<or> packet_size p \<le> q_max_queue_size x)"

definition in_queue :: "nat \<Rightarrow> packet \<Rightarrow> 'u world \<Rightarrow> 'u world" where
  "in_queue q p w = (enqueue q p w)\<lparr>w_sched := armed_sched (Forward_timer q)
    (now (w_sched w) + q_forwarding_latency (w_queues w q)) (\<lambda>_. Begin_send q) (w_sched w)\<rparr>"

lemma in_queue_sel [simp]:
  "w_ports (in_queue q p w) = w_ports w" "w_config (in_queue q p w) = w_config w" "w_nodes (in_queue q p w) = w_nodes w"
  "w_forwarders (in_queue q p w) = w_forwarders w" "w_channels (in_queue q p w) = w_channels w"
  "w_tcp (in_queue q p w) = w_tcp w" "w_acceptors (in_queue q p w) = w_acceptors w" "w_udp (in_queue q p w) = w_udp w"
  "w_mem (in_queue q p w) = w_mem w" "w_eps (in_queue q p w) = w_eps w" "w_pcap (in_queue q p w) = w_pcap w"
  "w_next_id (in_queue q p w) = w_next_id w"
  by (simp_all add: in_queue_def enqueue_def)

lemma queue_takes:
  assumes "quiet w" and "free_for p (w_queues w q)"
  shows "queue_incoming_packet q p w = Inr (in_queue q p w)"
proof -
  have "\<not> queue_full (w_queues w q) p" and "q_queue (w_queues w q) = []" and lat: "0 < q_forwarding_latency (w_queues w q)"
    using assms(2) by (auto simp: free_for_def queue_full_def)
  then have "queue_incoming_packet q p w = begin_send_next_packet q (enqueue q p w)"
    by (simp add: queue_incoming_packet_def enqueue_def Let_def)
  moreover have "quiet (enqueue q p w)" using assms(1) by (simp add: quiet_def enqueue_def)
  note arm_quiet(3) [OF this, of "Forward_timer q" "now (w_sched w) + q_forwarding_latency (w_queues w q)" "\<lambda>_. Begin_send q"]
  ultimately show ?thesis
    using lat \<open>q_queue (w_queues w q) = []\<close>
    by (simp add: begin_send_next_packet_def in_queue_def Let_def) (simp add: enqueue_def)
qed

text \<open>The same world at another time, but for the times the queues last forwarded at.\<close>

definition later :: "int \<Rightarrow> 'u world \<Rightarrow> 'u world \<Rightarrow> bool" where
  "later t w w' \<longleftrightarrow> (\<exists>s qs. w' = w\<lparr>w_sched := s, w_queues := qs\<rparr> \<and> quiet_sched s \<and> now s = t \<and>
    (\<forall>q. (qs q)\<lparr>q_last_forward := 0\<rparr> = (w_queues w q)\<lparr>q_last_forward := 0\<rparr>))"

lemma later_sel:
  assumes "later t w w'"
  shows "quiet w'" and "now (w_sched w') = t" and "w_ports w' = w_ports w" and "w_config w' = w_config w"
    and "w_nodes w' = w_nodes w" and "w_forwarders w' = w_forwarders w" and "w_channels w' = w_channels w"
    and "w_tcp w' = w_tcp w" and "w_acceptors w' = w_acceptors w" and "w_udp w' = w_udp w" and "w_mem w' = w_mem w"
    and "w_eps w' = w_eps w" and "w_pcap w' = w_pcap w" and "w_next_id w' = w_next_id w"
    and "q_queue (w_queues w' q) = q_queue (w_queues w q)"
    and "free_for p (w_queues w' q) = free_for p (w_queues w q)"
    and "hop_time (w_queues w' q) p = hop_time (w_queues w q) p"
proof -
  from assms obtain s qs where w': "w' = w\<lparr>w_sched := s, w_queues := qs\<rparr>" and s: "quiet_sched s" "now s = t"
    and "(qs q)\<lparr>q_last_forward := 0\<rparr> = (w_queues w q)\<lparr>q_last_forward := 0\<rparr>"
    by (auto simp: later_def)
  from this(4) have "q_queue (qs q) = q_queue (w_queues w q)" "q_queue_size (qs q) = q_queue_size (w_queues w q)"
    "q_forwarding_latency (qs q) = q_forwarding_latency (w_queues w q)"
    "q_bandwidth (qs q) = q_bandwidth (w_queues w q)" "q_max_queue_size (qs q) = q_max_queue_size (w_queues w q)"
    by (cases "qs q"; cases "w_queues w q"; simp)+
  then show "q_queue (w_queues w' q) = q_queue (w_queues w q)"
    and "free_for p (w_queues w' q) = free_for p (w_queues w q)"
    and "hop_time (w_queues w' q) p = hop_time (w_queues w q) p"
    by (simp_all add: w' free_for_def hop_time_def)
qed (use assms in \<open>auto simp: later_def quiet_def\<close>)

lemma later_trans:
  assumes "later t w w1" and "later t' w1 w2"
  shows "later t' w w2"
proof -
  from assms(1) obtain s qs where 1: "w1 = w\<lparr>w_sched := s, w_queues := qs\<rparr>"
    "\<forall>q. (qs q)\<lparr>q_last_forward := 0\<rparr> = (w_queues w q)\<lparr>q_last_forward := 0\<rparr>"
    by (auto simp: later_def)
  from assms(2) obtain s' qs' where 2: "w2 = w1\<lparr>w_sched := s', w_queues := qs'\<rparr>" "quiet_sched s'" "now s' = t'"
    "\<forall>q. (qs' q)\<lparr>q_last_forward := 0\<rparr> = (w_queues w1 q)\<lparr>q_last_forward := 0\<rparr>"
    by (auto simp: later_def)
  show ?thesis
    unfolding later_def by (intro exI [of _ s'] exI [of _ qs']) (use 1 2 in simp)
qed

lemma upd_queue_sched: "upd_queue q f (w\<lparr>w_sched := s\<rparr>) = (upd_queue q f w)\<lparr>w_sched := s\<rparr>"
  by (cases w) (simp add: upd_queue_def)

lemma in_queue_leaves:
  fixes w :: "'u world"
  assumes "quiet w" and "free_for p (w_queues w q)"
    and deliver: "\<And>w3. later (now (w_sched w) + hop_time (w_queues w q) p) w w3 \<Longrightarrow>
      \<exists>w'. forward_packet n p w3 = Inr w' \<and> q_queue (w_queues w' q) = [] \<and> running w' \<and> P w'"
  shows "\<exists>w'. leads app n 4 (in_queue q p w) w' \<and> P w'"
proof -
  let ?s = "w_sched w" and ?x = "w_queues w q" and ?ft = "Forward_timer q"
  define ts where "ts = now ?s + q_forwarding_latency ?x"
  define s1 where "s1 = sched_at ?ft ts ?s"
  define e where "e = now ?s + hop_time ?x p"
  define s2 where "s2 = (if q_bandwidth ?x = 0 then s1 else sched_at ?ft e s1)"
  define w2 where "w2 = upd_queue q (\<lambda>x. x\<lparr>q_last_forward := e\<rparr>) (enqueue q p w)"
  define w3 where "w3 = (upd_queue q (\<lambda>x. x\<lparr>q_queue := [], q_queue_size := q_queue_size x - packet_size p\<rparr>) w2)\<lparr>w_sched := s2\<rparr>"
  have s: "quiet_sched ?s" using assms(1) by (simp add: quiet_def)
  then have s1: "quiet_sched s1" by (simp add: s1_def sched_at_quiet)
  then have s2: "quiet_sched s2" "now s2 = e"
    by (simp_all add: s2_def sched_at_quiet) (simp add: s1_def ts_def e_def hop_time_def)
  have x: "q_queue ?x = []" "q_queue_size ?x = 0" using assms(2) by (simp_all add: free_for_def)
  have head: "q_queue (w_queues (enqueue q p w) q) = [(ts, p)]"
      "q_bandwidth (w_queues (enqueue q p w) q) = q_bandwidth ?x"
    by (simp_all add: enqueue_def x ts_def)
  have "later e w w3"
    unfolding later_def
    by (intro exI [of _ s2] exI [of _ "w_queues w3"])
      (use s2 x in \<open>auto simp: w3_def w2_def enqueue_def upd_queue_def fun_eq_iff\<close>)
  then obtain w' where w': "forward_packet n p w3 = Inr w'" "q_queue (w_queues w' q) = []" "running w'" "P w'"
    using deliver by (auto simp: e_def)
  have 1: "loop_step app n (in_queue q p w) ((enqueue q p w)\<lparr>w_sched := post (Begin_send q) s1\<rparr>)"
    using armed_fires [OF s, where w = "enqueue q p w" and t = ?ft and e = ts and h = "\<lambda>_. Begin_send q"]
    by (simp add: in_queue_def ts_def s1_def)
  have 2: "leads app n 2 ((enqueue q p w)\<lparr>w_sched := post (Begin_send q) s1\<rparr>) (w2\<lparr>w_sched := post (Next_sent q) s2\<rparr>)"
  proof (cases "q_bandwidth ?x = 0")
    case True
    then have "e = ts" by (simp add: e_def ts_def hop_time_def)
    have "run_job app n (Begin_send q) ((enqueue q p w)\<lparr>w_sched := s1\<rparr>) = Inr (w2\<lparr>w_sched := post (Next_sent q) s2\<rparr>)"
      using True
      by (simp add: run_job_def begin_send_next_packet_def head w2_def s2_def s1_def \<open>e = ts\<close> Let_def
          post_job_def upd_sched_def upd_queue_sched)
    then show ?thesis
      using s2(1) by (intro leads_mono [OF leads_step [OF job_runs [OF s1] leads_refl [of _ _ 0]]])
        (simp_all add: running_def quiet_sched_def)
  next
    case False
    let ?w = "w2\<lparr>w_sched := armed_sched ?ft e (\<lambda>_. Next_sent q) s1\<rparr>"
    have e: "e = ts + send_time_ns (q_bandwidth ?x) (packet_size p)"
      using False by (simp add: e_def ts_def hop_time_def)
    have "run_job app n (Begin_send q) ((enqueue q p w)\<lparr>w_sched := s1\<rparr>) =
        bindE (timer_expires_at ?ft e (w2\<lparr>w_sched := s1\<rparr>)) (timer_async_wait ?ft (\<lambda>_. Next_sent q))"
      using False
      by (simp add: run_job_def begin_send_next_packet_def head s1_def e Let_def w2_def upd_queue_sched)
    also have "\<dots> = Inr ?w"
      using s1 by (subst arm_quiet(3)) (simp_all add: quiet_def)
    finally have "loop_step app n ((enqueue q p w)\<lparr>w_sched := post (Begin_send q) s1\<rparr>) ?w"
      using s1 by (intro job_runs) (simp_all add: running_def quiet_sched_def armed_sched_def)
    moreover have "loop_step app n ?w (w2\<lparr>w_sched := post (Next_sent q) s2\<rparr>)"
      using armed_fires [OF s1, where w = w2 and t = ?ft and e = e and h = "\<lambda>_. Next_sent q"] False
      by (simp add: s2_def)
    ultimately show ?thesis
      unfolding numeral_2_eq_2 by (blast intro: leads_step leads_refl)
  qed
  have 3: "loop_step app n (w2\<lparr>w_sched := post (Next_sent q) s2\<rparr>) w'"
  proof (rule job_runs [OF s2(1) _ w'(3)])
    have "q_queue (w_queues w2 q) = [(ts, p)]"
      by (simp add: w2_def head)
    then show "run_job app n (Next_sent q) (w2\<lparr>w_sched := s2\<rparr>) = Inr w'"
      using w'(1,2) by (simp add: run_job_def next_packet_sent_def w3_def upd_queue_sched)
  qed
  have "leads app n (Suc (2 + Suc 0)) (in_queue q p w) w'"
    by (rule leads_step [OF 1 leads_trans [OF 2 leads_step [OF 3 leads_refl]]])
  then show ?thesis using w'(4) by auto
qed

section \<open>Along a path of queues\<close>

definition path_time :: "(nat \<Rightarrow> queue) \<Rightarrow> packet \<Rightarrow> nat list \<Rightarrow> int" where
  "path_time x p qs = sum_list (map (\<lambda>q. hop_time (x q) p) qs)"

lemma path_time_simps [simp]:
  "path_time x p [] = 0" "path_time x p (q # qs) = hop_time (x q) p + path_time x p qs"
  by (simp_all add: path_time_def)

lemma size_hops [simp]: "packet_size (p\<lparr>p_hops := h\<rparr>) = packet_size p"
  by (simp add: packet_size_def)

lemma free_for_hops [simp]: "free_for (p\<lparr>p_hops := h\<rparr>) x = free_for p x"
  by (simp add: free_for_def)

lemma hop_time_hops [simp]: "hop_time x (p\<lparr>p_hops := h\<rparr>) = hop_time x p"
  by (simp add: hop_time_def)

lemma forward_queue:
  assumes "quiet w" and "free_for p (w_queues w q)" and "0 < n"
  shows "forward_packet n (p\<lparr>p_hops := sink.Queue q # r\<rparr>) w = Inr (in_queue q (p\<lparr>p_hops := r\<rparr>) w)"
  using assms by (cases n) (simp_all add: pop_front_def sink_incoming_packet_def queue_takes)

lemma in_queue_running: "quiet w \<Longrightarrow> running (in_queue q p w)"
  by (simp add: in_queue_def running_def armed_sched_def quiet_def quiet_sched_def)

lemma memory_job_in_transit:
  assumes "writes app u g" and "quiet w"
  shows "leads app n 1 (post_job (App u) (in_queue q p w)) (in_queue q p (w\<lparr>w_mem := g (now (w_sched w)) (w_mem w)\<rparr>))"
proof -
  let ?w = "post_job (App u) (in_queue q p w)"
  have s: "m_service (w_sched ?w) = [App u]" "running ?w" "now (w_sched ?w) = now (w_sched w)"
    using assms(2) by (simp_all add: in_queue_def armed_sched_def quiet_def quiet_sched_def running_def now_def)
  have "?w\<lparr>w_sched := (w_sched ?w)\<lparr>m_service := []\<rparr>, w_mem := m\<rparr> = in_queue q p (w\<lparr>w_mem := m\<rparr>)" for m
    using assms(2) by (cases w) (simp add: in_queue_def enqueue_def armed_sched_def quiet_def quiet_sched_def post_job_def
      upd_sched_def upd_queue_def post_def now_def)
  then show ?thesis using memory_job_run [OF assms(1) s(1,2), of n] unfolding s(3) by simp
qed

lemma free_for_size: "packet_size p = packet_size p' \<Longrightarrow> free_for p x = free_for p' x"
  by (simp add: free_for_def)

lemma path_time_size: "packet_size p = packet_size p' \<Longrightarrow> path_time x p qs = path_time x p' qs"
  by (simp add: path_time_def hop_time_def cong: if_cong)

lemma path_leads:
  assumes "quiet w" and "distinct (q # qs)" and "\<forall>x \<in> set (q # qs). free_for p (w_queues w x)" and "0 < n"
    and "\<And>w3. later (now (w_sched w) + path_time (w_queues w) p (q # qs)) w w3 \<Longrightarrow>
      \<exists>w'. forward_packet n (p\<lparr>p_hops := rest\<rparr>) w3 = Inr w' \<and> q_queue (w_queues w' (last (q # qs))) = [] \<and>
        running w' \<and> P w'"
  shows "\<exists>w'. leads app n (4 * length (q # qs)) (in_queue q (p\<lparr>p_hops := map sink.Queue qs @ rest\<rparr>) w) w' \<and> P w'"
  using assms
proof (induction qs arbitrary: q w)
  case Nil
  show ?case
    using in_queue_leaves [OF Nil.prems(1), of "p\<lparr>p_hops := rest\<rparr>" q n P app] Nil.prems(3,5) by simp
next
  case (Cons q' qs)
  let ?t = "now (w_sched w) + hop_time (w_queues w q) p"
  let ?p = "\<lambda>qs. p\<lparr>p_hops := map sink.Queue qs @ rest\<rparr>"
  let ?P = "\<lambda>w1. \<exists>w3. later ?t w w3 \<and> w1 = in_queue q' (?p qs) w3"
  have ne: "q \<noteq> q'" using Cons.prems(2) by simp
  have "\<exists>w'. forward_packet n (?p (q' # qs)) w3 = Inr w' \<and> q_queue (w_queues w' q) = [] \<and> running w' \<and> ?P w'"
    if l: "later ?t w w3" for w3
  proof (intro exI conjI)
    have "free_for p (w_queues w3 q')" using Cons.prems(3) by (simp add: later_sel(16) [OF l])
    from forward_queue [OF later_sel(1) [OF l] this Cons.prems(4)]
    show "forward_packet n (?p (q' # qs)) w3 = Inr (in_queue q' (?p qs) w3)" by simp
    show "q_queue (w_queues (in_queue q' (?p qs) w3) q) = []"
      using ne Cons.prems(3) later_sel(15) [OF l, of q] by (simp add: in_queue_def enqueue_def free_for_def)
    show "running (in_queue q' (?p qs) w3)" by (rule in_queue_running [OF later_sel(1) [OF l]])
  qed (rule l, rule refl)
  with in_queue_leaves [OF Cons.prems(1), of "?p (q' # qs)" q n ?P app] Cons.prems(3)
  obtain w3 where l: "later ?t w w3"
    and 1: "leads app n 4 (in_queue q (?p (q' # qs)) w) (in_queue q' (?p qs) w3)"
    by (auto simp del: list.map append_Cons)
  let ?t' = "now (w_sched w3) + path_time (w_queues w3) p (q' # qs)"
  have "path_time (w_queues w3) p (q' # qs) = path_time (w_queues w) p (q' # qs)"
    by (simp add: path_time_def later_sel(17) [OF l])
  then have t: "?t' = now (w_sched w) + path_time (w_queues w) p (q # q' # qs)"
    by (simp add: later_sel(2) [OF l])
  have "\<exists>w'. leads app n (4 * length (q' # qs)) (in_queue q' (?p qs) w3) w' \<and> P w'"
  proof (rule Cons.IH [OF later_sel(1) [OF l] _ _ Cons.prems(4)])
    show "distinct (q' # qs)" using Cons.prems(2) by simp
    show "\<forall>x \<in> set (q' # qs). free_for p (w_queues w3 x)"
      using Cons.prems(3) by (simp add: later_sel(16) [OF l])
    fix w4 assume "later ?t' w3 w4"
    then have "later (now (w_sched w) + path_time (w_queues w) p (q # q' # qs)) w w4"
      unfolding t by (rule later_trans [OF l])
    from Cons.prems(5) [OF this]
    show "\<exists>w'. forward_packet n (p\<lparr>p_hops := rest\<rparr>) w4 = Inr w' \<and> q_queue (w_queues w' (last (q' # qs))) = [] \<and>
        running w' \<and> P w'" by simp
  qed
  then show ?case
    using leads_trans [OF 1] by fastforce
qed

text \<open>
  The forms the deliveries below use: what the packet does at the end of its way relates the world just
  before, the same but later, to the world after, or is a function of it.
\<close>

lemma path_ends:
  assumes "quiet w" and "distinct (q # qs)" and free: "\<forall>x \<in> set (q # qs). free_for p (w_queues w x)" and "0 < n"
    and t: "t = now (w_sched w) + path_time (w_queues w) p (q # qs)"
    and ends: "\<And>w3. later t w w3 \<Longrightarrow> \<exists>w'. forward_packet n (p\<lparr>p_hops := rest\<rparr>) w3 = Inr w' \<and>
      w_queues w' (last (q # qs)) = w_queues w3 (last (q # qs)) \<and> running w' \<and> R w3 w'"
  shows "\<exists>w3 w'. later t w w3 \<and> R w3 w' \<and>
    leads app n (4 * length (q # qs)) (in_queue q (p\<lparr>p_hops := map sink.Queue qs @ rest\<rparr>) w) w'"
proof -
  have "q_queue (w_queues w (last (q # qs))) = []"
    using free by (metis free_for_def last_in_set list.distinct(1))
  then have "\<exists>w'. forward_packet n (p\<lparr>p_hops := rest\<rparr>) w3 = Inr w' \<and> q_queue (w_queues w' (last (q # qs))) = [] \<and>
      running w' \<and> (\<exists>w3. later t w w3 \<and> R w3 w')" if "later t w w3" for w3
    using ends [OF that] later_sel(15) [OF that, of "last (q # qs)"] that by (metis (no_types, lifting))
  then show ?thesis
    using path_leads [OF assms(1-4), of rest "\<lambda>w'. \<exists>w3. later t w w3 \<and> R w3 w'" app] unfolding t by blast
qed

lemma path_delivers:
  assumes "quiet w" and "distinct (q # qs)" and "\<forall>x \<in> set (q # qs). free_for p (w_queues w x)" and "0 < n"
    and "t = now (w_sched w) + path_time (w_queues w) p (q # qs)"
    and "\<And>w3. later t w w3 \<Longrightarrow> forward_packet n (p\<lparr>p_hops := rest\<rparr>) w3 = Inr (out w3)"
    and "\<And>w3. later t w w3 \<Longrightarrow> w_queues (out w3) (last (q # qs)) = w_queues w3 (last (q # qs))"
    and "\<And>w3. later t w w3 \<Longrightarrow> running (out w3)"
  shows "\<exists>w3. later t w w3 \<and> leads app n (4 * length (q # qs)) (in_queue q (p\<lparr>p_hops := map sink.Queue qs @ rest\<rparr>) w) (out w3)"
  using path_ends [OF assms(1-5), of rest "\<lambda>w3 w'. w' = out w3" app] assms(6-8) by blast

lemma in_queue_other: "x \<noteq> q \<Longrightarrow> w_queues (in_queue q p w) x = w_queues w x"
  by (simp add: in_queue_def enqueue_def)

lemma om_find_first [simp]: "om_find k ((k, v) # m) = Some v"
  by (simp add: om_find_def om_lower_bound_def)

text \<open>Two nodes with modems and a queue between them, for the witnesses.\<close>

definition two_nodes :: "'u world" where
  "two_nodes = new_world\<lparr>
    w_config := (w_config (new_world :: 'u world))\<lparr>channel_route := (\<lambda>_ _. [sink.Queue 5])\<rparr>,
    w_nodes := [1 \<mapsto> \<lparr>m_ips = [V4 10], m_outgoing_route = [(V4 10, [sink.Queue 1])],
        m_incoming_route = [(V4 10, [sink.Queue 2])], m_ios_stopped = False\<rparr>,
      2 \<mapsto> \<lparr>m_ips = [V4 20], m_outgoing_route = [(V4 20, [sink.Queue 3])],
        m_incoming_route = [(V4 20, [sink.Queue 4])], m_ios_stopped = False\<rparr>]\<rparr>"

lemma two_nodes_quiet: "quiet two_nodes"
  by (simp add: two_nodes_def new_world_def quiet_def quiet_sched_def new_timer_def)

end
