(* ===== verification/Udp_Delivery.thy ===== *)
theory Udp_Delivery
  imports Delivery
begin

text \<open>
  A UDP datagram from \<open>send_to\<close> to the handler of \<open>async_receive_from\<close>: the socket that sends, the
  routes, the queues, the event loop and the socket that receives put together.
\<close>

section \<open>The two ends\<close>

definition udp_ready :: "nat \<Rightarrow> endpoint \<Rightarrow> 'u world \<Rightarrow> bool" where
  "udp_ready k src w \<longleftrightarrow> (let s = w_udp w k in
    m_open s \<and> m_non_blocking s \<and> m_bound_to s = src \<and> src \<noteq> default_endpoint \<and>
    u_send_handler s = None \<and> u_wait_send_handler s = None \<and>
    u_next_send s - now (w_sched w) \<le> m_send_queue_time s * 1000 \<and> \<not> m_dont_fragment s)"

definition udp_receiving :: "nat \<Rightarrow> nat \<Rightarrow> buffer list \<Rightarrow> nat \<Rightarrow> 'u io_handler \<Rightarrow> nat \<Rightarrow> 'u world \<Rightarrow> bool" where
  "udp_receiving j fw bufs e h len w \<longleftrightarrow> (let s = w_udp w j in
    m_open s \<and> m_bound_to s \<noteq> default_endpoint \<and> m_forwarder s = Some fw \<and> w_forwarders w fw = Some (Udp j) \<and>
    u_incoming_queue s = [] \<and> u_queue_size s + int len + 28 \<le> 256 * 1024 \<and>
    u_recv_handler s = Some h \<and> u_recv_buffer s = bufs \<and> u_recv_sender s = Some e \<and> \<not> u_recv_null_buffers s)"

definition sent_bytes :: "buffer list \<Rightarrow> 'u world \<Rightarrow> byte list" where
  "sent_bytes b w = concat (map (\<lambda>(a, n). load (w_mem w) a n) b)"

definition datagram :: "endpoint \<Rightarrow> byte list \<Rightarrow> packet" where
  "datagram src bs = new_packet\<lparr>p_overhead := 28, p_type := Payload, p_from := src, p_buffer := bs\<rparr>"

lemma datagram_sel [simp]:
  "p_buffer (datagram src bs) = bs" "p_from (datagram src bs) = src"
  "packet_size (datagram src bs) = int (length bs) + 28"
  by (simp_all add: datagram_def packet_size_def)

lemma copy_datagram_writes:
  "copy_datagram bufs d m =
    (write_at m (take (length d) (addrs bufs)) (take (buffer_size bufs) d), min (length d) (buffer_size bufs))"
proof (induction bufs d m rule: copy_datagram.induct)
  case (1 d m)
  then show ?case by (simp add: buffer_size_def)
next
  case (2 a n bufs d m)
  have size: "buffer_size ((a, n) # bufs) = n + buffer_size bufs"
    by (simp add: buffer_size_def)
  show ?case
  proof (cases "length d \<le> n")
    case True
    then show ?thesis by (simp add: size store_write_at Let_def)
  next
    case False
    have "store m a (take n d) = write_at m [a..<a + n] (take n d)"
      using False by (simp add: store_write_at)
    then have "copy_datagram ((a, n) # bufs) d m =
        (write_at (write_at m [a..<a + n] (take n d)) (take (length d - n) (addrs bufs)) (take (buffer_size bufs) (drop n d)),
         n + min (length d - n) (buffer_size bufs))"
      using 2 [of n] False by simp
    also have "\<dots> = (write_at m ([a..<a + n] @ take (length d - n) (addrs bufs)) (take n d @ take (buffer_size bufs) (drop n d)),
         min (length d) (buffer_size ((a, n) # bufs)))"
      using False by (simp add: write_at_append size)
    finally show ?thesis
      using False by (simp add: size take_add)
  qed
qed

section \<open>Sending\<close>

lemma udp_no_abort: "quiet w \<Longrightarrow> udp_ready k src w \<Longrightarrow> udp_abort_send_handlers k w = w"
proof -
  assume q: "quiet w" and r: "udp_ready k src w"
  have same: "(w_udp w k)\<lparr>u_send_handler := None, u_wait_send_handler := None\<rparr> = w_udp w k"
    using r by (cases "w_udp w k") (simp add: udp_ready_def)
  show ?thesis
    using q r by (simp add: udp_abort_send_handlers_def udp_ready_def Let_def upd_udp_def same)
qed

lemma send_to_enqueues:
  assumes "quiet w" and "udp_ready k src w" and "w_pcap w = None"
    and "0 < buffer_size b" and "buffer_size b \<le> 65535"
    and "get_path_mtu (m_io_service (w_udp w k)) (ep_address src) (ep_address dst) w = Inr mtu"
    and "find_udp_socket (w_udp w k) dst w = Inr hops" and "hops \<noteq> []"
    and "get_outgoing_route (m_io_service (w_udp w k)) (ep_address src) w = Inr out"
  defines "p \<equiv> datagram src (sent_bytes b w)"
  shows "send_to fwd k b dst w =
    bindE (fwd (p\<lparr>p_hops := out @ hops\<rparr>) (upd_udp k (\<lambda>s. s\<lparr>u_next_send := max (now (w_sched w)) (u_next_send s)\<rparr>) w))
      (\<lambda>w1. Inr (buffer_size b, success, upd_udp k (\<lambda>s. s\<lparr>u_next_send :=
        u_next_send s + send_time_ns nic_bandwidth (packet_size p)\<rparr>) w1))"
  using assms udp_no_abort [OF assms(1,2)]
  by (simp add: send_to_def send_to_impl_def Let_def udp_ready_def write_log_def route_prepend_def datagram_def
      packet_size_def new_packet_def sent_bytes_def)

section \<open>Receiving\<close>

lemma datagram_received:
  assumes "udp_receiving j fw bufs e h (length d) w" and "d \<noteq> []" and "length d \<le> buffer_size bufs" and "0 < n"
  obtains w' where "forward_packet n ((datagram src d)\<lparr>p_hops := [Forwarder fw]\<rparr>) w = Inr w'"
    and "w_sched w' = post (h success (length d)) (w_sched w)" and "w_queues w' = w_queues w"
    and "w_mem w' = write_at (w_mem w) (take (length d) (addrs bufs)) d" and "w_eps w' e = src"
    and "u_incoming_queue (w_udp w' j) = []" and "u_recv_handler (w_udp w' j) = None"
proof -
  let ?p = "(datagram src d)\<lparr>p_hops := []\<rparr>"
  obtain n' where n: "n = Suc n'" using assms(4) by (cases n) auto
  have bufs: "bufs \<noteq> []" using assms(2,3) by (auto simp: buffer_size_def)
  note r = assms(1) [unfolded udp_receiving_def Let_def]
  have f: "forward_packet n ((datagram src d)\<lparr>p_hops := [Forwarder fw]\<rparr>) w = udp_incoming_packet j ?p w"
    using r by (simp add: n pop_front_def sink_incoming_packet_def forwarder_incoming_packet_def)
  have c: "copy_datagram bufs d m = (write_at m (take (length d) (addrs bufs)) d, length d)" for m
    using assms(3) by (simp add: copy_datagram_writes)
  have "\<exists>w'. udp_incoming_packet j ?p w = Inr w' \<and> w_sched w' = post (h success (length d)) (w_sched w) \<and>
      w_queues w' = w_queues w \<and> w_mem w' = write_at (w_mem w) (take (length d) (addrs bufs)) d \<and> w_eps w' e = src \<and>
      u_incoming_queue (w_udp w' j) = [] \<and> u_recv_handler (w_udp w' j) = None"
    using r bufs assms(2) by (simp add: udp_incoming_packet_def udp_maybe_wakeup_reader_def
        async_receive_from_impl_def receive_from_impl_def Let_def c)
  then show ?thesis
    unfolding f [symmetric] by (elim exE conjE) (rule that; assumption)
qed

section \<open>From one end to the other\<close>

lemma in_queue_upd_udp: "upd_udp k f (in_queue q p w) = in_queue q p (upd_udp k f w)"
  by (cases w) (simp add: in_queue_def enqueue_def upd_udp_def upd_queue_def)

lemma datagram_leaves:
  assumes "quiet w" and "udp_ready k src w" and "w_pcap w = None" and "0 < buffer_size b" and "buffer_size b \<le> 65535"
    and "get_path_mtu (m_io_service (w_udp w k)) (ep_address src) (ep_address dst) w = Inr mtu"
    and "find_udp_socket (w_udp w k) dst w = Inr (map sink.Queue way @ [Forwarder fw])"
    and "get_outgoing_route (m_io_service (w_udp w k)) (ep_address src) w = Inr (map sink.Queue out)"
    and path: "out @ way = q # qs" and "free_for (datagram src (sent_bytes b w)) (w_queues w q)" and "0 < n"
  shows "\<exists>f. send_to (forward_packet n) k b dst w = Inr (buffer_size b, success,
    in_queue q ((datagram src (sent_bytes b w))\<lparr>p_hops := map sink.Queue qs @ [Forwarder fw]\<rparr>)
      (upd_udp k (\<lambda>s. s\<lparr>u_next_send := f s\<rparr>) w))"
proof -
  let ?p = "datagram src (sent_bytes b w)" and ?hops = "map sink.Queue qs @ [Forwarder fw]"
  let ?w = "upd_udp k (\<lambda>s. s\<lparr>u_next_send := max (now (w_sched w)) (u_next_send s)\<rparr>) w"
  let ?f = "\<lambda>s. max (now (w_sched w)) (u_next_send s) + send_time_ns nic_bandwidth (packet_size ?p)"
  have hops: "map sink.Queue out @ map sink.Queue way @ [Forwarder fw] = sink.Queue q # ?hops"
    using arg_cong [OF path, of "map sink.Queue"] by simp
  have "quiet ?w" using assms(1) by (simp add: quiet_def)
  then have "forward_packet n (?p\<lparr>p_hops := sink.Queue q # ?hops\<rparr>) ?w = Inr (in_queue q (?p\<lparr>p_hops := ?hops\<rparr>) ?w)"
    using assms(10,11) by (intro forward_queue) simp_all
  then have "send_to (forward_packet n) k b dst w = Inr (buffer_size b, success,
      in_queue q (?p\<lparr>p_hops := ?hops\<rparr>) (upd_udp k (\<lambda>s. s\<lparr>u_next_send := ?f s\<rparr>) w))"
    using send_to_enqueues [OF assms(1-7) _ assms(8), of "forward_packet n"]
    by (simp add: hops in_queue_upd_udp sent_bytes_def) (simp add: upd_udp_def)
  then show ?thesis by (rule exI [where x = ?f])
qed

lemma datagram_travels:
  assumes "quiet w" and "udp_receiving j fw bufs e h (length d) w" and "d \<noteq> []" and "length d \<le> buffer_size bufs"
    and "distinct (q # qs)" and "\<forall>x \<in> set (q # qs). free_for (datagram src d) (w_queues w x)" and "0 < n"
    and "h success (length d) = App u" and "writes app u g"
    and "t = now (w_sched w) + path_time (w_queues w) (datagram src d) (q # qs)"
  shows "\<exists>w'. leads app n (4 * length (q # qs) + 1)
      (in_queue q ((datagram src d)\<lparr>p_hops := map sink.Queue qs @ [Forwarder fw]\<rparr>) w) w' \<and> quiet w' \<and>
    now (w_sched w') = t \<and> w_mem w' = g t (write_at (w_mem w) (take (length d) (addrs bufs)) d) \<and> w_eps w' e = src \<and>
    u_recv_handler (w_udp w' j) = None"
proof -
  let ?R = "\<lambda>w3 w'. w_sched w' = post (App u) (w_sched w3) \<and> w_eps w' e = src \<and>
    w_mem w' = write_at (w_mem w) (take (length d) (addrs bufs)) d \<and> u_recv_handler (w_udp w' j) = None"
  have "\<exists>w'. forward_packet n ((datagram src d)\<lparr>p_hops := [Forwarder fw]\<rparr>) w3 = Inr w' \<and>
      w_queues w' (last (q # qs)) = w_queues w3 (last (q # qs)) \<and> running w' \<and> ?R w3 w'" if l: "later t w w3" for w3
  proof -
    have "udp_receiving j fw bufs e h (length d) w3"
      using assms(2) by (simp add: udp_receiving_def Let_def later_sel(6,10) [OF l])
    from datagram_received [OF this assms(3,4,7), of src] obtain w' where
      "forward_packet n ((datagram src d)\<lparr>p_hops := [Forwarder fw]\<rparr>) w3 = Inr w'" "w_queues w' = w_queues w3" "?R w3 w'"
      using assms(8) later_sel(11) [OF l] by metis
    then show ?thesis
      using quiet_running [OF later_sel(1) [OF l]] by (auto simp: running_def)
  qed
  then obtain w3 w2 where l: "later t w w3" and w2: "?R w3 w2"
    and steps: "leads app n (4 * length (q # qs)) (in_queue q ((datagram src d)\<lparr>p_hops := map sink.Queue qs @ [Forwarder fw]\<rparr>) w) w2"
    using path_ends [OF assms(1,5-7,10), of "[Forwarder fw]" ?R app] by blast
  have s: "w_sched w2 = post (App u) (w_sched w3)" "quiet_sched (w_sched w3)" "now (w_sched w3) = t"
    using w2 later_sel(1,2) [OF l] by (simp_all add: quiet_def)
  from leads_trans [OF steps memory_job_last(1) [OF assms(9) s(1,2)]] memory_job_last(2) [OF assms(9) s(1,2)]
  show ?thesis using w2 s(3) by (intro exI conjI) (assumption, assumption, simp_all)
qed

text \<open>
  C8. A datagram that is sent through a quiet network arrives: \<open>send_to\<close> reports its size, and \<open>run\<close>
  comes to its end after the datagram has spent its time in each queue on the way; the handler
  of \<open>async_receive_from\<close> is called at that time with the size, the bytes sent are in the buffers and
  nothing else in memory has changed by then, and the sender's endpoint is where it was asked for.
\<close>

theorem udp_datagram_delivered:
  fixes w :: "'u world" and u :: 'u
  assumes "quiet w" and "udp_ready k src w" and "w_pcap w = None"
    and "0 < buffer_size b" and "buffer_size b \<le> 65535" and "buffer_size b \<le> buffer_size bufs" and "distinct (addrs bufs)"
    and "get_path_mtu (m_io_service (w_udp w k)) (ep_address src) (ep_address dst) w = Inr mtu"
    and "get_outgoing_route (m_io_service (w_udp w k)) (ep_address src) w = Inr (map sink.Queue out)"
    and "find_udp_socket (w_udp w k) dst w = Inr (map sink.Queue way @ [Forwarder fw])"
    and "out @ way \<noteq> []" and "distinct (out @ way)"
    and "\<forall>q \<in> set (out @ way). free_for (datagram src (sent_bytes b w)) (w_queues w q)"
    and "udp_receiving j fw bufs e h (buffer_size b) w" and "h success (buffer_size b) = App u"
    and "4 * length (out @ way) < n" and "n \<le> 1000" and "n + 1 < f"
    and "t = now (w_sched w) + path_time (w_queues w) (datagram src (sent_bytes b w)) (out @ way)"
  shows "\<exists>w1 c w' m. send_to (forward_packet n) k b dst w = Inr (buffer_size b, success, w1) \<and>
    run (memory_app g) n f w1 = Inr (Returned c, w') \<and> now (w_sched w') = t \<and>
    w_mem w' = g u t m \<and> map m (take (buffer_size b) (addrs bufs)) = sent_bytes b w \<and>
    (\<forall>x. x \<notin> set (take (buffer_size b) (addrs bufs)) \<longrightarrow> m x = w_mem w x) \<and>
    w_eps w' e = src \<and> u_recv_handler (w_udp w' j) = None"
proof -
  let ?d = "sent_bytes b w"
  obtain q qs where path: "out @ way = q # qs" using assms(11) unfolding neq_Nil_conv by blast
  have d: "length ?d = buffer_size b" "?d \<noteq> []" "length (take (buffer_size b) (addrs bufs)) = buffer_size b"
    using assms(4,6) by (auto simp: sent_bytes_def gather_addrs length_addrs simp flip: length_greater_0_conv)
  have n: "0 < n" using assms(16) by simp
  obtain late where sent: "send_to (forward_packet n) k b dst w = Inr (buffer_size b, success,
      in_queue q ((datagram src ?d)\<lparr>p_hops := map sink.Queue qs @ [Forwarder fw]\<rparr>) (upd_udp k (\<lambda>s. s\<lparr>u_next_send := late s\<rparr>) w))"
    using datagram_leaves [OF assms(1-5,8,10,9) path _ n] assms(13) path by auto
  define w0 where "w0 = upd_udp k (\<lambda>s. s\<lparr>u_next_send := late s\<rparr>) w"
  have w0: "quiet w0" "w_queues w0 = w_queues w" "w_sched w0 = w_sched w" "w_mem w0 = w_mem w"
    "udp_receiving j fw bufs e h (length ?d) w0"
    using assms(1,14) by (auto simp: w0_def quiet_def udp_receiving_def Let_def d(1))
  obtain w' where steps: "leads (memory_app g) n (4 * length (q # qs) + 1)
      (in_queue q ((datagram src ?d)\<lparr>p_hops := map sink.Queue qs @ [Forwarder fw]\<rparr>) w0) w'" "quiet w'"
    and w': "now (w_sched w') = t" "w_mem w' = g u t (write_at (w_mem w) (take (length ?d) (addrs bufs)) ?d)" "w_eps w' e = src"
      "u_recv_handler (w_udp w' j) = None"
    using datagram_travels [OF w0(1,5) d(2) _ _ _ n _ writes_memory_app, of q qs src u t g]
      assms(6,12,13,15,19) unfolding w0(2-4) path d(1) by blast
  obtain c where run: "run (memory_app g) n f (in_queue q ((datagram src ?d)\<lparr>p_hops := map sink.Queue qs @ [Forwarder fw]\<rparr>) w0) =
      Inr (Returned c, w')"
    using run_steps [OF steps(1) quiet_finished [OF steps(2)]] assms(16-18) path by fastforce
  let ?m = "write_at (w_mem w) (take (length ?d) (addrs bufs)) ?d"
  have "map ?m (take (buffer_size b) (addrs bufs)) = ?d"
    using assms(7) d by (simp add: map_write_at)
  moreover have "\<forall>x. x \<notin> set (take (buffer_size b) (addrs bufs)) \<longrightarrow> ?m x = w_mem w x"
    by (simp add: write_at_other d(1))
  ultimately show ?thesis
    using sent [folded w0_def] run w' by blast
qed

lemma udp_datagram_delivered_witness:
  "\<exists>w :: nat world. \<exists>w1 c w' m. send_to (forward_packet 20) 7 [(0, 3)] (Endpoint (V4 20) 53) w = Inr (3, success, w1) \<and>
    run (memory_app (\<lambda>u t. id)) 20 30 w1 = Inr (Returned c, w') \<and> now (w_sched w') = 90000000 \<and>
    w_mem w' = m \<and> map m [100, 101, 102] = [w_mem w 0, w_mem w 1, w_mem w 2] \<and> w_eps w' 4 = Endpoint (V4 10) 2000"
proof -
  let ?src = "Endpoint (V4 10) 2000" and ?dst = "Endpoint (V4 20) 53"
  define w :: "nat world" where "w = two_nodes\<lparr>
    w_udp := (w_udp two_nodes)(7 := (new_udp_socket 1 0)\<lparr>m_open := True, m_non_blocking := True, m_bound_to := ?src\<rparr>,
      8 := (new_udp_socket 2 0)\<lparr>m_open := True, m_bound_to := ?dst, m_forwarder := Some 9,
        u_recv_handler := Some (\<lambda>_ _. App 3), u_recv_buffer := [(100, 5)], u_recv_sender := Some 4\<rparr>),
    w_forwarders := [9 \<mapsto> Udp 8],
    w_ports := fresh_ports\<lparr>m_udp_sockets := [(?dst, 8)]\<rparr>\<rparr>"
  have "quiet w" using two_nodes_quiet by (simp add: w_def quiet_def)
  moreover have "udp_ready 7 ?src w"
    by (simp add: w_def udp_ready_def new_udp_socket_def two_nodes_def new_world_def default_endpoint_def now_def)
  moreover have "w_pcap w = None" by (simp add: w_def two_nodes_def new_world_def)
  moreover have "(0::nat) < buffer_size [(0, 3)]" "buffer_size [(0, 3)] \<le> 65535"
    "buffer_size [(0, 3)] \<le> buffer_size [(100, 5)]" "distinct (addrs [(100, 5)])"
    by (simp_all add: buffer_size_def)
  moreover have "get_path_mtu (m_io_service (w_udp w 7)) (ep_address ?src) (ep_address ?dst) w = Inr 1475"
    "get_outgoing_route (m_io_service (w_udp w 7)) (ep_address ?src) w = Inr (map sink.Queue [1])"
    "find_udp_socket (w_udp w 7) ?dst w = Inr (map sink.Queue [5, 4] @ [Forwarder 9])"
    by (simp_all add: w_def two_nodes_def new_world_def new_udp_socket_def get_path_mtu_def node_of_def
        get_outgoing_route_def find_udp_socket_def local_bound_to_def get_socket_incoming_route_def get_incoming_route_def
        fresh_ports_def route_append_def route_append_sink_def)
  moreover have "[1] @ [5, 4] \<noteq> ([] :: nat list)" "distinct ([1] @ [5, 4] :: nat list)"
    "\<forall>q \<in> set ([1] @ [5, 4]). free_for (datagram ?src (sent_bytes [(0, 3)] w)) (w_queues w q)"
    by (simp_all add: free_for_def w_def two_nodes_def new_world_def)
  moreover have "udp_receiving 8 9 [(100, 5)] 4 (\<lambda>_ _. App 3) (buffer_size [(0, 3)]) w"
    by (simp add: udp_receiving_def w_def new_udp_socket_def default_endpoint_def buffer_size_def)
  moreover have "(\<lambda>_ _. App 3) success (buffer_size [(0, 3)]) = App 3"
    "4 * length ([1] @ [5, 4] :: nat list) < 20" "(20 :: nat) \<le> 1000" "(20 :: nat) + 1 < 30" by simp_all
  moreover have "90000000 = now (w_sched w) + path_time (w_queues w) (datagram ?src (sent_bytes [(0, 3)] w)) ([1] @ [5, 4])"
    by (simp add: w_def two_nodes_def new_world_def hop_time_def now_def)
  ultimately have "\<exists>w1 c w' m. send_to (forward_packet 20) 7 [(0, 3)] ?dst w = Inr (buffer_size [(0, 3)], success, w1) \<and>
    run (memory_app (\<lambda>u t. id)) 20 30 w1 = Inr (Returned c, w') \<and> now (w_sched w') = 90000000 \<and>
    w_mem w' = (\<lambda>u t. id) 3 90000000 m \<and> map m (take (buffer_size [(0, 3)]) (addrs [(100, 5)])) = sent_bytes [(0, 3)] w \<and>
    (\<forall>x. x \<notin> set (take (buffer_size [(0, 3)]) (addrs [(100, 5)])) \<longrightarrow> m x = w_mem w x) \<and>
    w_eps w' 4 = ?src \<and> u_recv_handler (w_udp w' 8) = None"
    by (rule udp_datagram_delivered)
  then obtain w1 c w' m where "send_to (forward_packet 20) 7 [(0, 3)] ?dst w = Inr (3, success, w1)"
    "run (memory_app (\<lambda>u t. id)) 20 30 w1 = Inr (Returned c, w')" "now (w_sched w') = 90000000" "w_mem w' = m"
    "map m [100, 101, 102] = [w_mem w 0, w_mem w 1, w_mem w 2]" "w_eps w' 4 = ?src"
    by (auto simp: buffer_size_def sent_bytes_def load_def upt_rec numeral_2_eq_2)
  then show ?thesis by (intro exI conjI)
qed

end
