(* ===== verification/Tcp_Connect.thy ===== *)
theory Tcp_Connect
  imports Delivery
begin

text \<open>
  Establishing a TCP connection, end to end: \<open>async_connect\<close> on one side, an acceptor with a
  pending \<open>async_accept\<close> on the other, the SYN and the SYN+ACK packet on their ways through the
  queues between them, and the event loop that runs it all.
\<close>

section \<open>Opening a fresh socket\<close>

definition no_handlers :: "'u tcp_socket \<Rightarrow> bool" where
  "no_handlers s \<longleftrightarrow> m_connect_handler s = None \<and> m_send_handler s = None \<and> m_wait_send_handler s = None \<and>
    m_recv_handler s = None \<and> m_wait_recv_handler s = None"

definition tcp_fresh :: "nat \<Rightarrow> 'u world \<Rightarrow> bool" where
  "tcp_fresh k w \<longleftrightarrow> (let s = w_tcp w k in
    \<not> m_open s \<and> m_channel s = None \<and> m_bound_to s = default_endpoint \<and> m_forwarder s = None \<and> no_handlers s)"

text \<open>What \<open>close\<close> and \<open>open\<close> make of the socket itself.\<close>

definition reset_state :: "'u tcp_socket \<Rightarrow> 'u tcp_socket" where
  "reset_state s = s\<lparr>m_open := False, m_forwarder := None, m_queue_size := 0, m_mss := 1475, m_cwnd := 1475 * 2,
    m_bytes_in_flight := 0, m_outstanding_packet_sizes := Map.empty, m_recv_null_buffers := False,
    m_send_null_buffers := False, m_next_incoming_seq := 0, m_next_outgoing_seq := 0, m_last_drop_seq := 0,
    m_recv_handler := None, m_wait_recv_handler := None, m_recv_buffer := [], m_send_handler := None,
    m_wait_send_handler := None, m_send_buffer := []\<rparr>"

definition opened_state :: "bool \<Rightarrow> nat \<Rightarrow> 'u tcp_socket \<Rightarrow> 'u tcp_socket" where
  "opened_state v4 f s = (reset_state s)\<lparr>m_open := True, m_is_v4 := v4, m_forwarder := Some f\<rparr>"

lemma upd_tcp_comp: "upd_tcp k f (upd_tcp k g w) = upd_tcp k (\<lambda>s. f (g s)) w"
  by (simp add: upd_tcp_def)

lemma upd_tcp_cong: "f (w_tcp w k) = g (w_tcp w k) \<Longrightarrow> upd_tcp k f w = upd_tcp k g w"
  by (simp add: upd_tcp_def)

lemma quiet_upd_tcp [simp]: "quiet (upd_tcp k f w) = quiet w"
  by (simp add: quiet_def)

lemma abort_none:
  assumes "quiet w" and "no_handlers (w_tcp w k)"
  shows "tcp_cancel k w = upd_tcp k (\<lambda>s. s\<lparr>m_recv_handler := None, m_wait_recv_handler := None, m_recv_buffer := [],
      m_recv_null_buffers := False, m_send_handler := None, m_wait_send_handler := None, m_send_buffer := [],
      m_send_null_buffers := False\<rparr>) w"
  using assms by (simp add: tcp_cancel_def abort_recv_handlers_def abort_send_handlers_def no_handlers_def Let_def
      upd_tcp_comp)

lemma tcp_close_unconnected:
  assumes "quiet w" and "no_handlers (w_tcp w k)" and "m_channel (w_tcp w k) = None"
    and "m_bound_to (w_tcp w k) = default_endpoint" and "m_forwarder (w_tcp w k) = None"
  shows "tcp_close fwd k w = Inr (upd_tcp k reset_state w)"
proof -
  have "reset_socket k w = upd_tcp k reset_state w"
    using assms
    by (simp add: reset_socket_def tcp_unbind_def tcp_drop_forwarder_def set_forwarder_def Let_def upd_tcp_comp
        abort_none no_handlers_def) (rule upd_tcp_cong, cases "w_tcp w k", simp add: reset_state_def)
  then show ?thesis using assms(3) by (simp add: tcp_close_def close_channel_def)
qed

definition opened :: "nat \<Rightarrow> bool \<Rightarrow> 'u world \<Rightarrow> 'u world" where
  "opened k v4 w = upd_tcp k (opened_state v4 (w_next_id w))
    (w\<lparr>w_forwarders := (w_forwarders w)(w_next_id w \<mapsto> Tcp k), w_next_id := Suc (w_next_id w)\<rparr>)"

lemma tcp_open_fresh:
  assumes "quiet w" and "tcp_fresh k w"
  shows "tcp_open fwd k v4 w = Inr (opened k v4 w)"
proof -
  have c: "tcp_close fwd k w = Inr (upd_tcp k reset_state w)"
    using assms by (intro tcp_close_unconnected) (simp_all add: tcp_fresh_def Let_def)
  show ?thesis
    unfolding tcp_open_def c
    by (cases w) (simp add: opened_def opened_state_def set_forwarder_def upd_tcp_def)
qed

lemma opened_sel:
  "w_tcp (opened k v4 w) = (w_tcp w)(k := opened_state v4 (w_next_id w) (w_tcp w k))"
  "w_forwarders (opened k v4 w) = (w_forwarders w)(w_next_id w \<mapsto> Tcp k)" "w_next_id (opened k v4 w) = Suc (w_next_id w)"
  "w_sched (opened k v4 w) = w_sched w" "w_ports (opened k v4 w) = w_ports w" "w_config (opened k v4 w) = w_config w"
  "w_nodes (opened k v4 w) = w_nodes w" "w_queues (opened k v4 w) = w_queues w" "w_channels (opened k v4 w) = w_channels w"
  "w_acceptors (opened k v4 w) = w_acceptors w" "w_mem (opened k v4 w) = w_mem w"
  "quiet (opened k v4 w) = quiet w"
  by (simp_all add: opened_def quiet_def)

lemma opened_state_sel:
  "m_io_service (opened_state v4 f s) = m_io_service s" "m_bound_to (opened_state v4 f s) = m_bound_to s"
  "m_user_bound_to (opened_state v4 f s) = m_user_bound_to s"
  "m_open (opened_state v4 f s)" "m_is_v4 (opened_state v4 f s) = v4" "m_forwarder (opened_state v4 f s) = Some f"
  "m_connect_handler (opened_state v4 f s) = m_connect_handler s" "m_channel (opened_state v4 f s) = m_channel s"
  "m_send_handler (opened_state v4 f s) = None" "m_wait_send_handler (opened_state v4 f s) = None"
  "m_recv_handler (opened_state v4 f s) = None" "m_wait_recv_handler (opened_state v4 f s) = None"
  "m_next_outgoing_seq (opened_state v4 f s) = 0" "m_next_incoming_seq (opened_state v4 f s) = 0"
  "m_bytes_in_flight (opened_state v4 f s) = 0"
  by (simp_all add: opened_state_def reset_state_def)

section \<open>The client\<close>

definition syn_packet :: "endpoint \<Rightarrow> nat \<Rightarrow> packet" where
  "syn_packet here c = new_packet\<lparr>p_type := Syn, p_overhead := 28, p_from := here, p_channel := Some c\<rparr>"

definition syn_ack_packet :: "endpoint \<Rightarrow> nat \<Rightarrow> packet" where
  "syn_ack_packet there c = new_packet\<lparr>p_from := there, p_type := Syn_ack, p_channel := Some c, p_overhead := 28\<rparr>"

lemma packet_sel [simp]:
  "packet_size (syn_packet e c) = 28" "packet_size (syn_ack_packet e c) = 28"
  "p_type (syn_packet e c) = Syn" "p_type (syn_ack_packet e c) = Syn_ack" "p_channel (syn_packet e c) = Some c"
  by (simp_all add: syn_packet_def syn_ack_packet_def packet_size_def new_packet_def)

definition new_channel :: "endpoint \<Rightarrow> endpoint \<Rightarrow> route \<Rightarrow> route \<Rightarrow> 32 word \<Rightarrow> channel" where
  "new_channel here there back forth x = \<lparr>c_hops = (\<lambda>_. [])(0 := back, 1 := forth),
    c_ep = (\<lambda>_. default_endpoint)(0 := here, 1 := there),
    c_visible_ep = (\<lambda>_. default_endpoint)(0 := here, 1 := there), c_bytes_sent = (\<lambda>_. x)\<rparr>"

text \<open>
  The node of a socket has routes that are queues only, for an address of its own. \<open>routed\<close> says so
  of the ends of a connection and of the network between them.
\<close>

definition node_routes :: "nat \<Rightarrow> address \<Rightarrow> nat list \<Rightarrow> nat list \<Rightarrow> 'u world \<Rightarrow> bool" where
  "node_routes i a out inc w \<longleftrightarrow> (\<exists>nd. w_nodes w i = Some nd \<and> a \<in> set (m_ips nd) \<and>
    om_find a (m_outgoing_route nd) = Some (map sink.Queue out) \<and>
    om_find a (m_incoming_route nd) = Some (map sink.Queue inc))"

lemma node_routes_get:
  assumes "node_routes i a out inc w"
  shows "get_outgoing_route i a w = Inr (map sink.Queue out)" "get_incoming_route i a w = Inr (map sink.Queue inc)"
    and "get_path_mtu i a b w = Inr (path_mtu (w_config w) a b)"
  using assms by (auto simp: node_routes_def get_outgoing_route_def get_incoming_route_def get_path_mtu_def node_of_def)

lemma node_routes_cong: "w_nodes w = w_nodes w' \<Longrightarrow> node_routes i a out inc w = node_routes i a out inc w'"
  by (simp add: node_routes_def)

text \<open>The world the SYN is sent in: the socket is open and bound and the channel made, but not yet the socket's.\<close>

definition dialled :: "nat \<Rightarrow> endpoint \<Rightarrow> endpoint \<Rightarrow> ports \<Rightarrow> route \<Rightarrow> route \<Rightarrow> 'u world \<Rightarrow> 'u world" where
  "dialled k here there ps back forth w =
    (let c = Suc (w_next_id w) in
     upd_channel c (\<lambda>_. new_channel here there back forth (w_indeterminate w))
       ((upd_tcp k (\<lambda>s. s\<lparr>m_bound_to := here, m_user_bound_to := here\<rparr>)
         ((opened k (is_v4 (ep_address there)) w)\<lparr>w_ports := ps\<rparr>))\<lparr>w_next_id := Suc c\<rparr>))"

text \<open>The world with the client waiting for its SYN+ACK.\<close>

definition connecting ::
  "nat \<Rightarrow> endpoint \<Rightarrow> endpoint \<Rightarrow> ports \<Rightarrow> route \<Rightarrow> route \<Rightarrow> 'u handler \<Rightarrow> 'u world \<Rightarrow> 'u world" where
  "connecting k here there ps back forth h w =
    (let mtu = path_mtu (w_config w) (ep_address here) (ep_address there) in
     upd_tcp k (\<lambda>s. s\<lparr>m_channel := Some (Suc (w_next_id w)), m_mss := mtu, m_cwnd := mtu * 2, m_connect_handler := Some h\<rparr>)
       (dialled k here there ps back forth w))"

lemma dialled_sel:
  "w_sched (dialled k here there ps back forth w) = w_sched w" "w_queues (dialled k here there ps back forth w) = w_queues w"
  "w_nodes (dialled k here there ps back forth w) = w_nodes w" "w_config (dialled k here there ps back forth w) = w_config w"
  "w_mem (dialled k here there ps back forth w) = w_mem w" "w_acceptors (dialled k here there ps back forth w) = w_acceptors w"
  "w_next_id (dialled k here there ps back forth w) = Suc (Suc (w_next_id w))"
  "w_forwarders (dialled k here there ps back forth w) = (w_forwarders w)(w_next_id w \<mapsto> Tcp k)"
  "w_channels (dialled k here there ps back forth w) =
    (w_channels w)(Suc (w_next_id w) := new_channel here there back forth (w_indeterminate w))"
  "w_tcp (dialled k here there ps back forth w) = (w_tcp w)(k := (opened_state (is_v4 (ep_address there)) (w_next_id w) (w_tcp w k))
    \<lparr>m_bound_to := here, m_user_bound_to := here\<rparr>)"
  "quiet (dialled k here there ps back forth w) = quiet w"
  by (simp_all add: dialled_def Let_def opened_sel quiet_def)

lemma connecting_sel:
  "w_sched (connecting k here there ps back forth h w) = w_sched w"
  "w_queues (connecting k here there ps back forth h w) = w_queues w"
  "w_mem (connecting k here there ps back forth h w) = w_mem w"
  "w_acceptors (connecting k here there ps back forth h w) = w_acceptors w"
  "w_next_id (connecting k here there ps back forth h w) = Suc (Suc (w_next_id w))"
  "w_forwarders (connecting k here there ps back forth h w) = (w_forwarders w)(w_next_id w \<mapsto> Tcp k)"
  "w_channels (connecting k here there ps back forth h w) =
    (w_channels w)(Suc (w_next_id w) := new_channel here there back forth (w_indeterminate w))"
  "j \<noteq> k \<Longrightarrow> w_tcp (connecting k here there ps back forth h w) j = w_tcp w j"
  "w_tcp (connecting k here there ps back forth h w) k = (opened_state (is_v4 (ep_address there)) (w_next_id w) (w_tcp w k))
    \<lparr>m_bound_to := here, m_user_bound_to := here, m_channel := Some (Suc (w_next_id w)),
      m_mss := path_mtu (w_config w) (ep_address here) (ep_address there),
      m_cwnd := path_mtu (w_config w) (ep_address here) (ep_address there) * 2, m_connect_handler := Some h\<rparr>"
  by (simp_all add: connecting_def Let_def dialled_sel)

lemma in_queue_upd_tcp: "upd_tcp k f (in_queue q p w) = in_queue q p (upd_tcp k f w)"
  by (cases w) (simp add: in_queue_def enqueue_def upd_tcp_def upd_queue_def)

definition bind_any :: "nat \<Rightarrow> endpoint \<Rightarrow> 'u world \<Rightarrow> fault + (bind_result \<times> ports)" where
  "bind_any k target w = bindE (node_of (m_io_service (w_tcp w k)) w) (\<lambda>nd. node_bind_socket (m_ips nd) k
    (Endpoint (if is_v4 (ep_address target) then any_v4 else any_v6) 0) (w_ports w))"

lemma async_connect_dials:
  assumes "quiet w" and "tcp_fresh k w"
    and node: "node_routes (m_io_service (w_tcp w k)) (ep_address here) sout sin w"
    and bind: "bind_any k target w = Inr ((success, here), ps)"
    and "is_v4 (ep_address here) = is_v4 (ep_address target)"
    and "om_find target (m_listen_sockets ps) = Some r" and "internal_is_listening r w" and "r \<noteq> k"
    and "m_open (w_tcp w r)" and "m_bound_to (w_tcp w r) = target" and "m_forwarder (w_tcp w r) = Some fr"
    and rnode: "node_routes (m_io_service (w_tcp w r)) (ep_address target) rout rin w"
    and "channel_route (w_config w) (ep_address here) (ep_address target) = map sink.Queue net"
    and w3: "w3 = dialled k here target ps (map sink.Queue (rout @ net @ sin) @ [Forwarder (w_next_id w)])
        (map sink.Queue (sout @ net @ rin) @ [Forwarder fr]) w"
  shows "async_connect fwd k target (Some h) w =
    bindE (fwd ((syn_packet here (Suc (w_next_id w)))\<lparr>p_hops := map sink.Queue (sout @ net @ rin) @ [Forwarder fr]\<rparr>) w3) (\<lambda>w1.
    let w4 = upd_tcp k (\<lambda>s. s\<lparr>m_channel := Some (Suc (w_next_id w))\<rparr>) w1; s = w_tcp w4 k in
    bindE (get_path_mtu (m_io_service s) (ep_address (m_bound_to s)) (ep_address target) w4) (\<lambda>mtu.
    Inr (upd_tcp k (\<lambda>s. s\<lparr>m_connect_handler := Some h\<rparr>) (upd_tcp k (\<lambda>s. s\<lparr>m_mss := mtu, m_cwnd := mtu * 2\<rparr>) w4))))"
proof -
  let ?v4 = "is_v4 (ep_address target)" and ?f = "w_next_id w"
  let ?w1 = "opened k ?v4 w"
  define w2 where "w2 = upd_tcp k (\<lambda>s. s\<lparr>m_bound_to := here, m_user_bound_to := here\<rparr>) (?w1\<lparr>w_ports := ps\<rparr>)"
  have fr: "m_bound_to (w_tcp w k) = default_endpoint" "\<not> m_open (w_tcp w k)" "m_connect_handler (w_tcp w k) = None"
    using assms(2) by (simp_all add: tcp_fresh_def Let_def no_handlers_def)
  have op: "tcp_open fwd k ?v4 w = Inr ?w1" using assms(1,2) by (rule tcp_open_fresh)
  have bound: "bind_for_connect k target ?w1 = Inr (success, w2)"
    using bind fr(1)
    by (auto simp: bind_any_def bind_for_connect_def opened_sel opened_state_sel default_endpoint_def ios_bind_socket_def node_of_def
        w2_def Let_def split: prod.splits)
  have r: "w_tcp w2 r = w_tcp w r" using assms(8) by (simp add: w2_def opened_sel)
  have k: "m_forwarder (w_tcp w2 k) = Some ?f" "m_open (w_tcp w2 k)" "m_bound_to (w_tcp w2 k) = here"
    "m_io_service (w_tcp w2 k) = m_io_service (w_tcp w k)"
    by (simp_all add: w2_def opened_sel opened_state_sel)
  have w2: "w_ports w2 = ps" "w_acceptors w2 = w_acceptors w" "w_nodes w2 = w_nodes w" "w_config w2 = w_config w"
    "w_next_id w2 = Suc ?f" "w_indeterminate w2 = w_indeterminate w"
    by (simp_all add: w2_def opened_sel) (simp add: opened_def)
  have w3': "w3 = upd_channel (Suc ?f) (\<lambda>_. new_channel here target (map sink.Queue (rout @ net @ sin) @ [Forwarder ?f])
      (map sink.Queue (sout @ net @ rin) @ [Forwarder fr]) (w_indeterminate w)) (w2\<lparr>w_next_id := Suc (Suc ?f)\<rparr>)"
    by (simp add: w3 dialled_def w2_def Let_def)
  note n = node_routes_get [OF iffD1 [OF node_routes_cong node]] node_routes_get [OF iffD1 [OF node_routes_cong rnode]]
  have "sim_internal_connect fwd k target w2 =
      bindE (fwd ((syn_packet here (Suc ?f))\<lparr>p_hops := map sink.Queue (sout @ net @ rin) @ [Forwarder fr]\<rparr>) w3)
        (\<lambda>w1. Inr (Some (Suc ?f), success, w1))"
    using assms(6,7,9-11,13) k
    by (simp add: sim_internal_connect_def internal_is_listening_def w2 r local_bound_to_def get_socket_outgoing_route_def
        get_socket_incoming_route_def n [of w2, OF w2(3) [symmetric]] route_plus_def route_append_def route_append_sink_def
        new_channel_def w3' syn_packet_def new_packet_def Let_def)
  then show ?thesis
    using fr k assms(5)
    by (simp add: async_connect_def op opened_sel opened_state_sel bound Let_def bindE_assoc)
qed

lemma async_connect_sends_syn:
  assumes "quiet w" and "tcp_fresh k w"
    and node: "node_routes (m_io_service (w_tcp w k)) (ep_address here) sout sin w"
    and bind: "bind_any k target w = Inr ((success, here), ps)"
    and "is_v4 (ep_address here) = is_v4 (ep_address target)"
    and "om_find target (m_listen_sockets ps) = Some r" and "internal_is_listening r w" and "r \<noteq> k"
    and "m_open (w_tcp w r)" and "m_bound_to (w_tcp w r) = target" and "m_forwarder (w_tcp w r) = Some fr"
    and rnode: "node_routes (m_io_service (w_tcp w r)) (ep_address target) rout rin w"
    and "channel_route (w_config w) (ep_address here) (ep_address target) = map sink.Queue net"
    and "sout @ net @ rin = q # qs" and "free_for (syn_packet here (Suc (w_next_id w))) (w_queues w q)" and "0 < n"
  shows "async_connect (forward_packet n) k target (Some h) w =
    Inr (in_queue q ((syn_packet here (Suc (w_next_id w)))\<lparr>p_hops := map sink.Queue qs @ [Forwarder fr]\<rparr>)
      (connecting k here target ps (map sink.Queue (rout @ net @ sin) @ [Forwarder (w_next_id w)])
        (map sink.Queue (sout @ net @ rin) @ [Forwarder fr]) h w))"
proof -
  let ?f = "w_next_id w" and ?mtu = "path_mtu (w_config w) (ep_address here) (ep_address target)"
  let ?homeward = "map sink.Queue (rout @ net @ sin) @ [Forwarder ?f]" and ?forth = "map sink.Queue (sout @ net @ rin) @ [Forwarder fr]"
  define w3 where "w3 = dialled k here target ps ?homeward ?forth w"
  have hops: "map sink.Queue sout @ map sink.Queue net @ map sink.Queue rin = sink.Queue q # map sink.Queue qs"
    using arg_cong [OF assms(14), of "map sink.Queue"] by simp
  let ?p = "(syn_packet here (Suc ?f))\<lparr>p_hops := map sink.Queue qs @ [Forwarder fr]\<rparr>"
  have "quiet w3" using assms(1) by (simp add: w3_def dialled_sel)
  from forward_queue [OF this _ assms(16), of "syn_packet here (Suc ?f)" q "map sink.Queue qs @ [Forwarder fr]"]
  have fwd: "forward_packet n ((syn_packet here (Suc ?f))\<lparr>p_hops := ?forth\<rparr>) w3 = Inr (in_queue q ?p w3)"
    using assms(15) by (simp add: w3_def dialled_sel hops)
  have mtu: "get_path_mtu (m_io_service (w_tcp w k)) (ep_address here) (ep_address target) (upd_tcp k g (in_queue q ?p w3)) = Inr ?mtu" for g
    using node by (auto simp: get_path_mtu_def node_of_def node_routes_def w3_def dialled_sel)
  have sel: "m_io_service (w_tcp w3 k) = m_io_service (w_tcp w k)" "m_bound_to (w_tcp w3 k) = here"
    by (simp_all add: w3_def dialled_sel opened_state_sel)
  have "async_connect (forward_packet n) k target (Some h) w = Inr (upd_tcp k (\<lambda>s. s\<lparr>m_connect_handler := Some h\<rparr>)
      (upd_tcp k (\<lambda>s. s\<lparr>m_mss := ?mtu, m_cwnd := ?mtu * 2\<rparr>) (upd_tcp k (\<lambda>s. s\<lparr>m_channel := Some (Suc ?f)\<rparr>) (in_queue q ?p w3))))"
    unfolding async_connect_dials [OF assms(1-13) w3_def] fwd
    by (simp add: sel mtu Let_def)
  also have "\<dots> = Inr (in_queue q ?p (connecting k here target ps ?homeward ?forth h w))"
    unfolding in_queue_upd_tcp
    by (simp add: connecting_def Let_def w3_def upd_tcp_comp)
  finally show ?thesis .
qed

section \<open>The acceptor\<close>

definition accepting :: "nat \<Rightarrow> endpoint \<Rightarrow> nat \<Rightarrow> nat \<Rightarrow> 'u handler \<Rightarrow> 'u world \<Rightarrow> bool" where
  "accepting r there fr j ha w \<longleftrightarrow> (let s = w_tcp w r in
    m_open s \<and> m_bound_to s = there \<and> m_forwarder s = Some fr \<and> w_forwarders w fr = Some (Tcp r) \<and>
    (\<exists>a. w_acceptors w r = Some a \<and> 0 < m_queue_size_limit a \<and> m_accept_handler a = Some ha \<and>
      m_incoming_conns a = [] \<and> m_accept_into a = Some j \<and> m_new_socket a = None \<and> m_remote_endpoint a = None))"

lemma upd_acceptor_sel [simp]:
  "w_acceptors (upd_acceptor k f w) = (w_acceptors w)(k := map_option f (w_acceptors w k))"
  "w_sched (upd_acceptor k f w) = w_sched w" "w_nodes (upd_acceptor k f w) = w_nodes w"
  "w_queues (upd_acceptor k f w) = w_queues w" "w_forwarders (upd_acceptor k f w) = w_forwarders w"
  "w_channels (upd_acceptor k f w) = w_channels w" "w_tcp (upd_acceptor k f w) = w_tcp w"
  "w_mem (upd_acceptor k f w) = w_mem w" "w_next_id (upd_acceptor k f w) = w_next_id w"
  "quiet (upd_acceptor k f w) = quiet w" "tcp_fresh j (upd_acceptor k f w) = tcp_fresh j w"
  by (simp_all add: upd_acceptor_def quiet_def tcp_fresh_def)

lemma in_queue_upd_acceptor: "upd_acceptor k f (in_queue q p w) = in_queue q p (upd_acceptor k f w)"
  by (cases w) (simp add: in_queue_def enqueue_def upd_acceptor_def upd_queue_def)

lemma post_upd_acceptor: "upd_acceptor k f (post_job j w) = post_job j (upd_acceptor k f w)"
  by (cases w) (simp add: post_job_def upd_sched_def upd_acceptor_def)

lemma upd_acceptor_comp: "upd_acceptor k f (upd_acceptor k g w) = upd_acceptor k (\<lambda>a. f (g a)) w"
  by (simp add: upd_acceptor_def option.map_comp comp_def)

text \<open>The peer socket once the connection is attached to it.\<close>

definition attached :: "nat \<Rightarrow> endpoint \<Rightarrow> nat \<Rightarrow> 'u world \<Rightarrow> 'u world" where
  "attached j there c w =
    upd_channel c (\<lambda>ch. ch\<lparr>c_hops := (c_hops ch)(1 := butlast (c_hops ch 1) @ [Forwarder (w_next_id w)])\<rparr>)
      (upd_tcp j (\<lambda>s. s\<lparr>m_bound_to := there, m_user_bound_to := there, m_channel := Some c\<rparr>)
        (opened j (m_is_v4 (w_tcp w j)) w))"

lemma attached_sel:
  "w_sched (attached j there c w) = w_sched w" "w_queues (attached j there c w) = w_queues w"
  "w_mem (attached j there c w) = w_mem w" "w_acceptors (attached j there c w) = w_acceptors w"
  "w_forwarders (attached j there c w) = (w_forwarders w)(w_next_id w \<mapsto> Tcp j)"
  "w_tcp (attached j there c w) = (w_tcp w)(j := (opened_state (m_is_v4 (w_tcp w j)) (w_next_id w) (w_tcp w j))
    \<lparr>m_bound_to := there, m_user_bound_to := there, m_channel := Some c\<rparr>)"
  "w_channels (attached j there c w) = (w_channels w)(c := (w_channels w c)
    \<lparr>c_hops := (c_hops (w_channels w c))(1 := butlast (c_hops (w_channels w c) 1) @ [Forwarder (w_next_id w)])\<rparr>)"
  "quiet (attached j there c w) = quiet w"
  by (simp_all add: attached_def opened_sel quiet_def fun_upd_comp)

lemma internal_connect_attaches:
  assumes "quiet w" and "tcp_fresh j w" and "c_hops (w_channels w c) 1 \<noteq> []"
  shows "tcp_internal_connect fwd j there c w = Inr (attached j there c w)"
  using assms
  by (simp add: tcp_internal_connect_def tcp_open_fresh opened_sel opened_state_sel replace_last_def attached_def)

definition accepted :: "nat \<Rightarrow> endpoint \<Rightarrow> nat \<Rightarrow> nat \<Rightarrow> 'u world \<Rightarrow> 'u world" where
  "accepted r there j c w = upd_acceptor r (\<lambda>a. a\<lparr>m_accept_handler := None, m_accept_into := None\<rparr>)
    (attached j there c (upd_acceptor r (\<lambda>a. a\<lparr>m_incoming_conns := [], m_remote_endpoint := None\<rparr>) w))"

lemma syn_answered:
  assumes "quiet w" and "accepting r there fr j ha w" and "tcp_fresh j w" and "j \<noteq> r" and "c_hops (w_channels w c) 1 \<noteq> []"
    and "wa = attached j there c (upd_acceptor r (\<lambda>a. a\<lparr>m_incoming_conns := [], m_remote_endpoint := None\<rparr>) w)"
  shows "forward_packet (Suc n) ((syn_packet here c)\<lparr>p_hops := [Forwarder fr]\<rparr>) w =
    bindE (forward_packet n ((syn_ack_packet there c)\<lparr>p_hops := c_hops (w_channels wa c) 0\<rparr>) wa) (deliver_accepted r)"
proof -
  from assms(2) obtain a where s: "m_open (w_tcp w r)" "m_bound_to (w_tcp w r) = there" "w_forwarders w fr = Some (Tcp r)"
    and a: "w_acceptors w r = Some a" "m_accept_handler a = Some ha" "m_incoming_conns a = []" "m_accept_into a = Some j"
      "m_remote_endpoint a = None"
    by (auto simp: accepting_def Let_def)
  let ?w1 = "upd_acceptor r (\<lambda>a. a\<lparr>m_incoming_conns := m_incoming_conns a @ [c]\<rparr>) w"
  let ?w2 = "upd_acceptor r (\<lambda>a. a\<lparr>m_incoming_conns := [], m_remote_endpoint := None\<rparr>) w"
  have w2: "upd_acceptor r (\<lambda>a. a\<lparr>m_incoming_conns := [], m_remote_endpoint := None\<rparr>) ?w1 = ?w2"
    by (simp add: upd_acceptor_def a)
  have att: "tcp_internal_connect (forward_packet n) j there c ?w2 = Inr wa"
    unfolding assms(6) using assms(1,3,5) by (intro internal_connect_attaches) simp_all
  have "forward_packet (Suc n) ((syn_packet here c)\<lparr>p_hops := [Forwarder fr]\<rparr>) w = check_accept_queue (forward_packet n) r ?w1"
    using s(3) a(1) by (simp add: pop_front_def sink_incoming_packet_def forwarder_incoming_packet_def
        socket_incoming_packet_def acceptor_incoming_packet_def)
  also have "\<dots> = accept_first (forward_packet n) r (a\<lparr>m_incoming_conns := [c]\<rparr>) c [] ?w1"
    using s(1) a by (simp add: check_accept_queue_def acceptor_of_def)
  also have "\<dots> = bindE (forward_packet n ((syn_ack_packet there c)\<lparr>p_hops := c_hops (w_channels wa c) 0\<rparr>) wa) (deliver_accepted r)"
    using s(2) a assms(4) by (simp add: accept_first_def w2 att) (simp add: assms(6) attached_sel syn_ack_packet_def new_packet_def)
  finally show ?thesis .
qed

lemma syn_accepted:
  assumes "quiet w" and "accepting r there fr j ha w" and "tcp_fresh j w" and "j \<noteq> r"
    and "c_hops (w_channels w c) 1 \<noteq> []" and "c_hops (w_channels w c) 0 = sink.Queue q # hops"
    and "free_for (syn_ack_packet there c) (w_queues w q)" and "1 < n"
  shows "forward_packet n ((syn_packet here c)\<lparr>p_hops := [Forwarder fr]\<rparr>) w =
    Inr (post_job (ha success) (in_queue q ((syn_ack_packet there c)\<lparr>p_hops := hops\<rparr>) (accepted r there j c w)))"
proof -
  obtain n' where n: "n = Suc n'" "0 < n'" using assms(8) by (cases n) auto
  from assms(2) obtain a where a: "w_acceptors w r = Some a" "m_accept_handler a = Some ha" "m_new_socket a = None"
    by (auto simp: accepting_def Let_def)
  let ?p = "(syn_ack_packet there c)\<lparr>p_hops := hops\<rparr>"
  define wa where "wa = attached j there c (upd_acceptor r (\<lambda>a. a\<lparr>m_incoming_conns := [], m_remote_endpoint := None\<rparr>) w)"
  have "forward_packet n' ((syn_ack_packet there c)\<lparr>p_hops := sink.Queue q # hops\<rparr>) wa = Inr (in_queue q ?p wa)"
    using assms(1,7) n(2) by (intro forward_queue) (simp_all add: wa_def attached_sel)
  moreover have "deliver_accepted r (in_queue q ?p wa) = Inr (post_job (ha success) (in_queue q ?p (accepted r there j c w)))"
  proof -
    have acc: "w_acceptors wa r = Some (a\<lparr>m_incoming_conns := [], m_remote_endpoint := None\<rparr>)"
      using a(1) by (simp add: wa_def attached_sel)
    have "destroy_new_socket r (upd_acceptor r (\<lambda>a. a\<lparr>m_accept_handler := None\<rparr>) (post_job (ha success) (in_queue q ?p wa))) =
        upd_acceptor r (\<lambda>a. a\<lparr>m_accept_handler := None\<rparr>) (post_job (ha success) (in_queue q ?p wa))"
      by (simp add: destroy_new_socket_def acc a)
    then show ?thesis
      by (simp add: deliver_accepted_def acceptor_of_def acc a)
        (simp add: post_upd_acceptor in_queue_upd_acceptor accepted_def upd_acceptor_comp wa_def)
  qed
  ultimately show ?thesis
    unfolding n(1) syn_answered [OF assms(1-5) wa_def] using assms(6) by (simp add: wa_def attached_sel)
qed

lemma accepted_sel:
  "w_sched (accepted r there j c w) = w_sched w" "w_queues (accepted r there j c w) = w_queues w"
  "w_mem (accepted r there j c w) = w_mem w" "k \<noteq> r \<Longrightarrow> w_acceptors (accepted r there j c w) k = w_acceptors w k"
  "w_forwarders (accepted r there j c w) = (w_forwarders w)(w_next_id w \<mapsto> Tcp j)"
  "w_tcp (accepted r there j c w) = (w_tcp w)(j := (opened_state (m_is_v4 (w_tcp w j)) (w_next_id w) (w_tcp w j))
    \<lparr>m_bound_to := there, m_user_bound_to := there, m_channel := Some c\<rparr>)"
  "w_channels (accepted r there j c w) = (w_channels w)(c := (w_channels w c)
    \<lparr>c_hops := (c_hops (w_channels w c))(1 := butlast (c_hops (w_channels w c) 1) @ [Forwarder (w_next_id w)])\<rparr>)"
  "quiet (accepted r there j c w) = quiet w"
  by (simp_all add: accepted_def attached_sel)

text \<open>The SYN on its way: it is accepted at the end of it, and the handler of the acceptor runs.\<close>

lemma syn_arrives:
  assumes "quiet w" and "accepting r there fr j ha w" and "tcp_fresh j w" and "j \<noteq> r"
    and "c_hops (w_channels w c) 1 \<noteq> []" and "c_hops (w_channels w c) 0 = sink.Queue q2 # hops"
    and "distinct (q # qs)" and "\<forall>x \<in> set (q # qs). free_for (syn_packet here c) (w_queues w x)"
    and "free_for (syn_packet here c) (w_queues w q2)" and "q2 \<noteq> last (q # qs)" and "1 < n" and "ha success = App ua"
    and "writes app ua g"
    and "t = now (w_sched w) + path_time (w_queues w) (syn_packet here c) (q # qs)"
  shows "\<exists>w3. later t w w3 \<and> leads app n (4 * length (q # qs) + 1)
    (in_queue q ((syn_packet here c)\<lparr>p_hops := map sink.Queue qs @ [Forwarder fr]\<rparr>) w)
    (in_queue q2 ((syn_ack_packet there c)\<lparr>p_hops := hops\<rparr>)
      ((accepted r there j c w3)\<lparr>w_mem := g t (w_mem w)\<rparr>))"
proof -
  let ?out = "\<lambda>w3. post_job (ha success) (in_queue q2 ((syn_ack_packet there c)\<lparr>p_hops := hops\<rparr>) (accepted r there j c w3))"
  have "\<exists>w3. later t w w3 \<and> leads app n (4 * length (q # qs))
      (in_queue q ((syn_packet here c)\<lparr>p_hops := map sink.Queue qs @ [Forwarder fr]\<rparr>) w) (?out w3)"
  proof (rule path_delivers [OF assms(1,7,8) _ assms(14)])
    fix w3 assume l: "later t w w3"
    have f: "free_for (syn_ack_packet there c) (w_queues w3 q2)"
      using assms(9) later_sel(16) [OF l, of "syn_packet here c" q2]
      by (simp add: free_for_size [of "syn_ack_packet there c" "syn_packet here c"])
    show "forward_packet n ((syn_packet here c)\<lparr>p_hops := [Forwarder fr]\<rparr>) w3 = Inr (?out w3)"
      using assms(2,3,5,6) later_sel(6-9) [OF l]
      by (intro syn_accepted [OF later_sel(1) [OF l] _ _ assms(4) _ _ f assms(11)])
        (simp_all add: accepting_def tcp_fresh_def)
    show "w_queues (?out w3) (last (q # qs)) = w_queues w3 (last (q # qs))"
      using assms(10) [symmetric] by (simp add: in_queue_other accepted_sel del: last.simps)
    show "running (?out w3)"
      using in_queue_running [of "accepted r there j c w3" q2] later_sel(1) [OF l]
      by (simp add: running_def accepted_sel)
  qed (use assms(11) in simp)
  then obtain w3 where l: "later t w w3" and steps: "leads app n (4 * length (q # qs))
      (in_queue q ((syn_packet here c)\<lparr>p_hops := map sink.Queue qs @ [Forwarder fr]\<rparr>) w) (?out w3)"
    by blast
  have "leads app n 1 (?out w3) (in_queue q2 ((syn_ack_packet there c)\<lparr>p_hops := hops\<rparr>)
      ((accepted r there j c w3)\<lparr>w_mem := g t (w_mem w)\<rparr>))"
    using memory_job_in_transit [OF assms(13), of "accepted r there j c w3" n] later_sel(1,2,11) [OF l]
    by (simp add: accepted_sel assms(12))
  from leads_trans [OF steps this] l show ?thesis by blast
qed

lemma syn_ack_connects:
  assumes "w_forwarders w f = Some (Tcp k)" and "w_acceptors w k = None" and "m_connect_handler (w_tcp w k) = Some h"
    and "m_send_handler (w_tcp w k) = None" and "m_wait_send_handler (w_tcp w k) = None" and "0 < n"
  shows "forward_packet n ((syn_ack_packet there c)\<lparr>p_hops := [Forwarder f]\<rparr>) w =
    Inr (upd_tcp k (\<lambda>s. s\<lparr>m_connect_handler := None\<rparr>) (post_job (h success) w))"
  using assms by (cases n) (simp_all add: pop_front_def sink_incoming_packet_def forwarder_incoming_packet_def
    socket_incoming_packet_def tcp_incoming_packet_def incoming_syn_ack_def maybe_wakeup_writer_def Let_def)

text \<open>The SYN+ACK on its way: the client is connected at the end of it, and its handler runs.\<close>

lemma syn_ack_arrives:
  assumes "quiet w" and "w_forwarders w f = Some (Tcp k)" and "w_acceptors w k = None"
    and "m_connect_handler (w_tcp w k) = Some h" and "m_send_handler (w_tcp w k) = None"
    and "m_wait_send_handler (w_tcp w k) = None" and "distinct (q # qs)"
    and "\<forall>x \<in> set (q # qs). free_for (syn_ack_packet there c) (w_queues w x)" and "0 < n" and "h success = App uc" and "writes app uc g"
    and "t = now (w_sched w) + path_time (w_queues w) (syn_ack_packet there c) (q # qs)"
  shows "\<exists>w' w3. later t w w3 \<and> leads app n (4 * length (q # qs) + 1)
      (in_queue q ((syn_ack_packet there c)\<lparr>p_hops := map sink.Queue qs @ [Forwarder f]\<rparr>) w) w' \<and>
    quiet w' \<and> w' = (upd_tcp k (\<lambda>s. s\<lparr>m_connect_handler := None\<rparr>) w3)\<lparr>w_mem := g t (w_mem w)\<rparr>"
proof -
  let ?out = "\<lambda>w3. upd_tcp k (\<lambda>s. s\<lparr>m_connect_handler := None\<rparr>) (post_job (h success) w3)"
  have "\<exists>w3. later t w w3 \<and> leads app n (4 * length (q # qs))
      (in_queue q ((syn_ack_packet there c)\<lparr>p_hops := map sink.Queue qs @ [Forwarder f]\<rparr>) w) (?out w3)"
  proof (rule path_delivers [OF assms(1,7,8,9) assms(12)])
    fix w3 assume l: "later t w w3"
    show "forward_packet n ((syn_ack_packet there c)\<lparr>p_hops := [Forwarder f]\<rparr>) w3 = Inr (?out w3)"
      using assms(2-6) by (intro syn_ack_connects [OF _ _ _ _ _ assms(9)]) (simp_all add: later_sel [OF l])
    show "w_queues (?out w3) (last (q # qs)) = w_queues w3 (last (q # qs))" by simp
    show "running (?out w3)" using quiet_running [OF later_sel(1) [OF l]] by (simp add: running_def)
  qed
  then obtain w3 where l: "later t w w3" and steps: "leads app n (4 * length (q # qs))
      (in_queue q ((syn_ack_packet there c)\<lparr>p_hops := map sink.Queue qs @ [Forwarder f]\<rparr>) w) (?out w3)"
    by blast
  have s: "w_sched (?out w3) = post (App uc) (w_sched w3)" "quiet_sched (w_sched w3)"
    using later_sel(1) [OF l] by (simp_all add: assms(10) quiet_def)
  let ?w' = "(?out w3)\<lparr>w_sched := w_sched w3, w_mem := g (now (w_sched w3)) (w_mem (?out w3))\<rparr>"
  have "?w' = (upd_tcp k (\<lambda>s. s\<lparr>m_connect_handler := None\<rparr>) w3)\<lparr>w_mem := g t (w_mem w)\<rparr>"
    using later_sel(2,11) [OF l] by (cases w3) (simp add: upd_tcp_def post_job_def upd_sched_def)
  moreover have "leads app n (4 * length (q # qs) + 1)
      (in_queue q ((syn_ack_packet there c)\<lparr>p_hops := map sink.Queue qs @ [Forwarder f]\<rparr>) w) ?w'"
    by (rule leads_trans [OF steps memory_job_last(1) [OF assms(11) s]])
  moreover have "quiet ?w'" by (rule memory_job_last(2) [OF assms(11) s])
  ultimately show ?thesis using l by metis
qed

text \<open>
  Without a queue on either way the answer comes back before \<open>async_connect\<close> has set its handler, which
  it does last, and the assertion for the handler fails.
\<close>

lemma connect_without_queues_fails:
  assumes "quiet w" and "tcp_fresh k w" and "w_acceptors w k = None"
    and "node_routes (m_io_service (w_tcp w k)) (ep_address here) [] [] w" and "bind_any k target w = Inr ((success, here), ps)"
    and "is_v4 (ep_address here) = is_v4 (ep_address target)" and "om_find target (m_listen_sockets ps) = Some r"
    and "accepting r target fr j ha w" and "fr < w_next_id w" and "tcp_fresh j w" and "k \<noteq> r" and "j \<noteq> k" and "j \<noteq> r"
    and "node_routes (m_io_service (w_tcp w r)) (ep_address target) [] [] w"
    and "channel_route (w_config w) (ep_address here) (ep_address target) = []"
  shows "async_connect (forward_packet (n + 2)) k target (Some h) w = Inl Assertion_failed"
proof -
  let ?c = "Suc (w_next_id w)" and ?f = "w_next_id w"
  define w3 where "w3 = dialled k here target ps (map sink.Queue ([] @ [] @ []) @ [Forwarder ?f])
    (map sink.Queue ([] @ [] @ []) @ [Forwarder fr]) w"
  define wa where "wa = attached j target ?c (upd_acceptor r (\<lambda>a. a\<lparr>m_incoming_conns := [], m_remote_endpoint := None\<rparr>) w3)"
  have acc: "m_open (w_tcp w r)" "m_bound_to (w_tcp w r) = target" "m_forwarder (w_tcp w r) = Some fr" "internal_is_listening r w"
    using assms(8) by (auto simp: accepting_def Let_def internal_is_listening_def)
  have w3: "quiet w3" "accepting r target fr j ha w3" "tcp_fresh j w3" "c_hops (w_channels w3 ?c) 1 \<noteq> []"
    using assms(1,8-13) by (auto simp: w3_def dialled_sel accepting_def tcp_fresh_def new_channel_def Let_def)
  have "c_hops (w_channels wa ?c) 0 = [Forwarder ?f]" "w_forwarders wa ?f = Some (Tcp k)" "w_acceptors wa k = None"
    "m_connect_handler (w_tcp wa k) = None"
    using assms(2,3,11,12) by (simp_all add: wa_def attached_sel w3_def dialled_sel new_channel_def opened_state_sel
        tcp_fresh_def no_handlers_def Let_def)
  then have "forward_packet (Suc n) ((syn_ack_packet target ?c)\<lparr>p_hops := c_hops (w_channels wa ?c) 0\<rparr>) wa = Inl Assertion_failed"
    by (simp add: pop_front_def sink_incoming_packet_def forwarder_incoming_packet_def socket_incoming_packet_def
        tcp_incoming_packet_def incoming_syn_ack_def)
  then have "forward_packet (n + 2) ((syn_packet here ?c)\<lparr>p_hops := [Forwarder fr]\<rparr>) w3 = Inl Assertion_failed"
    using syn_answered [OF w3(1-3) assms(13) w3(4) wa_def, of "Suc n" here] by (simp add: numeral_2_eq_2)
  then show ?thesis
    using async_connect_dials [OF assms(1,2,4) assms(5) assms(6,7) acc(4) _ acc(1-3) assms(14) _ w3_def, of _ h]
      assms(11,15) by simp
qed

section \<open>Both\<close>

text \<open>
  The two ends and the network between them: the client's node has the address \<open>a\<close>, an acceptor
  with a handler waiting has the target, and every queue on the two ways is free.
\<close>

definition connectable :: "nat \<Rightarrow> address \<Rightarrow> endpoint \<Rightarrow> nat \<Rightarrow> nat \<Rightarrow> nat \<Rightarrow> 'u handler \<Rightarrow>
    nat list \<Rightarrow> nat list \<Rightarrow> nat list \<Rightarrow> nat list \<Rightarrow> nat list \<Rightarrow> 'u world \<Rightarrow> bool" where
  "connectable k a target r fr j ha sout sin rout rin net w \<longleftrightarrow>
    w_acceptors w k = None \<and> w_acceptors w j = None \<and> k \<noteq> r \<and> j \<noteq> k \<and> j \<noteq> r \<and> tcp_fresh j w \<and>
    accepting r target fr j ha w \<and> fr < w_next_id w \<and> is_v4 a = is_v4 (ep_address target) \<and>
    node_routes (m_io_service (w_tcp w k)) a sout sin w \<and>
    node_routes (m_io_service (w_tcp w r)) (ep_address target) rout rin w \<and>
    channel_route (w_config w) a (ep_address target) = map sink.Queue net \<and>
    distinct (sout @ net @ rin) \<and> distinct (rout @ net @ sin) \<and> sout @ net @ rin \<noteq> [] \<and> rout @ net @ sin \<noteq> [] \<and>
    hd (rout @ net @ sin) \<noteq> last (sout @ net @ rin) \<and>
    (\<forall>q \<in> set (sout @ rout @ net @ sin @ rin). free_for (syn_packet target 0) (w_queues w q))"

text \<open>One end of a connection.\<close>

definition end_of :: "nat \<Rightarrow> endpoint \<Rightarrow> nat \<Rightarrow> 'u world \<Rightarrow> bool" where
  "end_of k here c w \<longleftrightarrow> (let s = w_tcp w k in m_open s \<and> m_bound_to s = here \<and> m_channel s = Some c \<and>
    m_connect_handler s = None \<and> w_acceptors w k = None)"

text \<open>What is sent along the hops \<open>i\<close> of the channel passes these queues and then reaches the socket.\<close>

definition way :: "nat \<Rightarrow> nat \<Rightarrow> nat \<Rightarrow> nat list \<Rightarrow> 'u world \<Rightarrow> bool" where
  "way c i k qs w \<longleftrightarrow> (\<exists>f. c_hops (w_channels w c) i = map sink.Queue qs @ [Forwarder f] \<and> w_forwarders w f = Some (Tcp k))"

definition linked :: "nat \<Rightarrow> nat \<Rightarrow> nat \<Rightarrow> nat \<Rightarrow> endpoint \<Rightarrow> endpoint \<Rightarrow> nat list \<Rightarrow> nat list \<Rightarrow> 'u world \<Rightarrow> bool" where
  "linked c i k j here there forth homeward w \<longleftrightarrow> i < 2 \<and> k \<noteq> j \<and> here \<noteq> there \<and>
    end_of k here c w \<and> end_of j there c w \<and>
    c_ep (w_channels w c) i = here \<and> c_ep (w_channels w c) (1 - i) = there \<and>
    way c (1 - i) j forth w \<and> way c i k homeward w"

text \<open>
  The two sockets share a channel, each sees the other's address, and what one sends passes the
  queues between them to the forwarder of the other.
\<close>

definition connected :: "nat \<Rightarrow> nat \<Rightarrow> endpoint \<Rightarrow> endpoint \<Rightarrow> nat list \<Rightarrow> nat list \<Rightarrow> 'u world \<Rightarrow> bool" where
  "connected k j here there forth homeward w \<longleftrightarrow> (\<exists>c. linked c 0 k j here there forth homeward w) \<and>
    remote_endpoint k w = Inr (success, there) \<and> remote_endpoint j w = Inr (success, here)"

lemma linked_swap: "linked c 0 k j here there forth homeward w \<longleftrightarrow> linked c 1 j k there here homeward forth w"
  by (auto simp: linked_def)

text \<open>The world the SYN+ACK leaves, with both sockets on the channel, is one in which they are connected.\<close>

lemma connected_after:
  assumes "here \<noteq> target" and "j \<noteq> k" and "k \<noteq> r" and "j \<noteq> r" and "w_acceptors w k = None" and "w_acceptors w j = None"
    and "m_connect_handler (w_tcp w j) = None"
    and wc: "wc = connecting k here target ps (map sink.Queue back @ [Forwarder (w_next_id w)])
      (map sink.Queue forth @ [Forwarder fr]) h w"
    and l3: "later t1 wc w3" and wa: "wa = (accepted r target j (Suc (w_next_id w)) w3)\<lparr>w_mem := m1\<rparr>"
    and l5: "later t2 wa w5" and w': "w' = (upd_tcp k (\<lambda>s. s\<lparr>m_connect_handler := None\<rparr>) w5)\<lparr>w_mem := m2\<rparr>"
  shows "connected k j here target forth back w'"
proof -
  let ?c = "Suc (w_next_id w)" and ?f = "w_next_id w"
  let ?ch = "new_channel here target (map sink.Queue back @ [Forwarder ?f]) (map sink.Queue forth @ [Forwarder fr])
    (w_indeterminate w)"
  have sel: "w_tcp w' = (w_tcp wa)(k := (w_tcp wa k)\<lparr>m_connect_handler := None\<rparr>)" "w_channels w' = w_channels wa"
    "w_forwarders w' = w_forwarders wa" "w_acceptors w' = w_acceptors wa"
    using later_sel [OF l5] by (simp_all add: w')
  define wf where "wf = w_next_id w3"
  have wf: "wf \<noteq> ?f" using later_sel(14) [OF l3] by (simp add: wf_def wc connecting_sel)
  have tcp: "w_tcp w' k = (w_tcp wc k)\<lparr>m_connect_handler := None\<rparr>" "m_open (w_tcp w' j)" "m_bound_to (w_tcp w' j) = target"
      "m_channel (w_tcp w' j) = Some ?c" "m_connect_handler (w_tcp w' j) = None"
    using assms(2,7) later_sel(8) [OF l3] by (simp_all add: sel(1) wa accepted_sel opened_state_sel wc connecting_sel)
  have k: "m_open (w_tcp wc k)" "m_bound_to (w_tcp wc k) = here" "m_channel (w_tcp wc k) = Some ?c"
    by (simp_all add: wc connecting_sel opened_state_sel)
  have ch: "w_channels w' ?c = ?ch\<lparr>c_hops := (c_hops ?ch)(1 := map sink.Queue forth @ [Forwarder wf])\<rparr>"
    using later_sel(7) [OF l3] by (simp add: sel(2) wa accepted_sel wc connecting_sel new_channel_def wf_def butlast_append)
  have "w_forwarders w' wf = Some (Tcp j)" "w_forwarders w' ?f = Some (Tcp k)"
    using wf later_sel(6) [OF l3] by (simp_all add: sel(3) wa accepted_sel wf_def wc connecting_sel)
  moreover have "c_hops (w_channels w' ?c) 1 = map sink.Queue forth @ [Forwarder wf]"
    "c_hops (w_channels w' ?c) 0 = map sink.Queue back @ [Forwarder ?f]"
    by (simp_all add: ch new_channel_def)
  ultimately have "way ?c 1 j forth w'" "way ?c 0 k back w'" by (auto simp: way_def)
  moreover have "w_acceptors w' k = None" "w_acceptors w' j = None"
    using assms(3-6) later_sel(9) [OF l3] by (simp_all add: sel(4) wa accepted_sel wc connecting_sel)
  moreover have "c_ep (w_channels w' ?c) 0 = here" "c_ep (w_channels w' ?c) 1 = target"
    by (simp_all add: ch new_channel_def)
  ultimately have "linked ?c 0 k j here target forth back w'"
    using assms(1,2) tcp k by (simp add: linked_def end_of_def Let_def)
  moreover have "remote_endpoint k w' = Inr (success, target)" "remote_endpoint j w' = Inr (success, here)"
    using assms(1) by (simp_all add: remote_endpoint_def tcp k ch remote_idx_def new_channel_def Let_def)
  ultimately show ?thesis by (auto simp: connected_def)
qed

text \<open>
  What else the handshake leaves: two streams at their beginning, with the packets the sockets had
  before, the segment size of the path, and a network as it was.
\<close>

definition established :: "nat \<Rightarrow> nat \<Rightarrow> endpoint \<Rightarrow> endpoint \<Rightarrow> 'u world \<Rightarrow> 'u world \<Rightarrow> bool" where
  "established k j here there w w' \<longleftrightarrow>
    (\<forall>x \<in> {k, j}. let s = w_tcp w x; s' = w_tcp w' x in
      no_handlers s' \<and> m_next_incoming_seq s' = 0 \<and> m_next_outgoing_seq s' = 0 \<and> m_bytes_in_flight s' = 0 \<and>
      m_outstanding_packet_sizes s' = Map.empty \<and> m_incoming_queue s' = m_incoming_queue s \<and>
      m_reorder_buffer s' = m_reorder_buffer s \<and> m_outgoing_packets s' = m_outgoing_packets s) \<and>
    m_mss (w_tcp w' k) = path_mtu (w_config w) (ep_address here) (ep_address there) \<and>
    m_cwnd (w_tcp w' k) = path_mtu (w_config w) (ep_address here) (ep_address there) * 2 \<and>
    (\<forall>p q. free_for p (w_queues w' q) = free_for p (w_queues w q)) \<and>
    (\<forall>p q. hop_time (w_queues w' q) p = hop_time (w_queues w q) p) \<and> w_pcap w' = w_pcap w"

lemma established_after:
  assumes "j \<noteq> k" and "m_connect_handler (w_tcp w j) = None"
    and wc: "wc = connecting k here target ps (map sink.Queue back @ [Forwarder (w_next_id w)])
      (map sink.Queue forth @ [Forwarder fr]) h w"
    and l3: "later t1 wc w3" and wa: "wa = (accepted r target j (Suc (w_next_id w)) w3)\<lparr>w_mem := m1\<rparr>"
    and l5: "later t2 wa w5" and w': "w' = (upd_tcp k (\<lambda>s. s\<lparr>m_connect_handler := None\<rparr>) w5)\<lparr>w_mem := m2\<rparr>"
  shows "established k j here target w w'"
proof -
  have pcap: "w_pcap (connecting k here target ps b f h w) = w_pcap w" "w_pcap (accepted r target j c w3) = w_pcap w3" for b f c
    by (simp_all add: connecting_def dialled_def opened_def accepted_def attached_def Let_def upd_acceptor_def)
  have st: "m_outstanding_packet_sizes (opened_state v f s) = Map.empty" "m_incoming_queue (opened_state v f s) = m_incoming_queue s"
    "m_reorder_buffer (opened_state v f s) = m_reorder_buffer s" "m_outgoing_packets (opened_state v f s) = m_outgoing_packets s"
    for v f and s :: "'a tcp_socket"
    by (simp_all add: opened_state_def reset_state_def)
  have wcj: "w_tcp wc j = w_tcp w j" using assms(1) by (simp add: wc connecting_sel)
  have k: "w_tcp w' k = (w_tcp wc k)\<lparr>m_connect_handler := None\<rparr>"
    using assms(1) by (simp add: w' later_sel(8) [OF l5] later_sel(8) [OF l3] wa accepted_sel)
  have j: "w_tcp w' j = (opened_state (m_is_v4 (w_tcp w j)) (w_next_id w3) (w_tcp w j))
      \<lparr>m_bound_to := target, m_user_bound_to := target, m_channel := Some (Suc (w_next_id w))\<rparr>"
    using assms(1) by (simp add: w' later_sel(8) [OF l5] later_sel(8) [OF l3] wa accepted_sel wcj)
  have q: "free_for p (w_queues w' x) = free_for p (w_queues w x)" "hop_time (w_queues w' x) p = hop_time (w_queues w x) p" for p x
    by (simp_all add: w' later_sel(16,17) [OF l5] wa accepted_sel later_sel(16,17) [OF l3]) (simp_all add: wc connecting_sel)
  have "w_pcap w' = w_pcap w"
    by (simp add: w' later_sel(13) [OF l5] wa pcap later_sel(13) [OF l3] wc)
  then show ?thesis
    using assms(2) q unfolding established_def
    by (simp add: k j wc connecting_sel opened_state_sel st no_handlers_def Let_def)
qed

lemma handshake:
  assumes "quiet w" and "tcp_fresh k w" and con: "connectable k (ep_address here) target r fr j ha sout sin rout rin net w"
    and "bind_any k target w = Inr ((success, here), ps)" and "here \<noteq> target" and "om_find target (m_listen_sockets ps) = Some r"
    and "ha success = App ua" and "h success = App uc" and "writes app ua ga" and "writes app uc gc" and "1 < n"
    and t1: "t1 = now (w_sched w) + path_time (w_queues w) (syn_packet target 0) (sout @ net @ rin)"
    and t2: "t2 = t1 + path_time (w_queues w) (syn_packet target 0) (rout @ net @ sin)"
  shows "\<exists>w1 w'. async_connect (forward_packet n) k target (Some h) w = Inr w1 \<and> running w1 \<and>
    leads app n (4 * (length (sout @ net @ rin) + length (rout @ net @ sin)) + 2) w1 w' \<and> quiet w' \<and>
    now (w_sched w') = t2 \<and> w_mem w' = gc t2 (ga t1 (w_mem w)) \<and>
    connected k j here target (sout @ net @ rin) (rout @ net @ sin) w' \<and> established k j here target w w'"
proof -
  note con = con [unfolded connectable_def]
  obtain q qs where p1: "sout @ net @ rin = q # qs" using con by (meson neq_Nil_conv)
  obtain q2 qs2 where p2: "rout @ net @ sin = q2 # qs2" using con by (meson neq_Nil_conv)
  let ?c = "Suc (w_next_id w)" and ?f = "w_next_id w"
  let ?homeward = "map sink.Queue (q2 # qs2) @ [Forwarder ?f]" and ?forth = "map sink.Queue (q # qs) @ [Forwarder fr]"
  define wc where "wc = connecting k here target ps ?homeward ?forth h w"
  have free: "free_for p (w_queues w x)" if "x \<in> set (q # qs) \<union> set (q2 # qs2)" "packet_size p = 28" for p x
    using con that free_for_size [of p "syn_packet target 0"] unfolding p1 [symmetric] p2 [symmetric] by auto
  have acc: "m_open (w_tcp w r)" "m_bound_to (w_tcp w r) = target" "m_forwarder (w_tcp w r) = Some fr" "internal_is_listening r w"
    using con by (auto simp: accepting_def Let_def internal_is_listening_def)
  let ?syn = "in_queue q ((syn_packet here ?c)\<lparr>p_hops := map sink.Queue qs @ [Forwarder fr]\<rparr>) wc"
  have conn: "async_connect (forward_packet n) k target (Some h) w = Inr ?syn"
    using async_connect_sends_syn [OF assms(1,2) _ assms(4) _ assms(6) acc(4) _ acc(1-3) _ _ p1, of sin rout n h]
      con assms(11) free
    unfolding p1 p2 wc_def by simp
  have "quiet wc" using assms(1) by (simp add: wc_def quiet_def connecting_sel)
  have time: "path_time x (syn_packet here ?c) ps = path_time x (syn_packet target 0) ps"
    "path_time x (syn_ack_packet target ?c) ps = path_time x (syn_packet target 0) ps" for x ps
    by (rule path_time_size, simp)+
  obtain w3 where l3: "later t1 wc w3" and lead1: "leads app n (4 * length (q # qs) + 1) ?syn
      (in_queue q2 ((syn_ack_packet target ?c)\<lparr>p_hops := map sink.Queue qs2 @ [Forwarder ?f]\<rparr>)
        ((accepted r target j ?c w3)\<lparr>w_mem := ga t1 (w_mem wc)\<rparr>))"
  proof -
    have "w_tcp wc r = w_tcp w r" "w_tcp wc j = w_tcp w j"
      using con by (simp_all add: wc_def connecting_sel)
    then have a: "accepting r target fr j ha wc" "tcp_fresh j wc"
      using con by (auto simp: accepting_def tcp_fresh_def Let_def wc_def connecting_sel)
    have ch: "w_channels wc ?c = new_channel here target ?homeward ?forth (w_indeterminate w)"
      by (simp add: wc_def connecting_sel)
    have "\<exists>w3. later t1 wc w3 \<and> leads app n (4 * length (q # qs) + 1) ?syn
        (in_queue q2 ((syn_ack_packet target ?c)\<lparr>p_hops := map sink.Queue qs2 @ [Forwarder ?f]\<rparr>)
          ((accepted r target j ?c w3)\<lparr>w_mem := ga t1 (w_mem wc)\<rparr>))"
      using con p1 p2 free assms(11) t1
      by (intro syn_arrives [OF \<open>quiet wc\<close> a _ _ _ _ _ _ _ _ assms(7,9)])
        (simp_all add: ch new_channel_def wc_def connecting_sel time del: path_time_simps)
    then show ?thesis using that by blast
  qed
  define wa where "wa = (accepted r target j ?c w3)\<lparr>w_mem := ga t1 (w_mem wc)\<rparr>"
  obtain w' w5 where l5: "later t2 wa w5" and lead2: "leads app n (4 * length (q2 # qs2) + 1)
      (in_queue q2 ((syn_ack_packet target ?c)\<lparr>p_hops := map sink.Queue qs2 @ [Forwarder ?f]\<rparr>) wa) w'"
    and w': "quiet w'" "w' = (upd_tcp k (\<lambda>s. s\<lparr>m_connect_handler := None\<rparr>) w5)\<lparr>w_mem := gc t2 (w_mem wa)\<rparr>"
  proof -
    have wa: "w_queues wa = w_queues w3" "w_acceptors wa k = w_acceptors wc k" "w_tcp wa k = w_tcp wc k"
      "w_forwarders wa ?f = Some (Tcp k)" "now (w_sched wa) = t1" "quiet wa"
      using con later_sel [OF l3] by (simp_all add: wa_def accepted_sel wc_def connecting_sel quiet_def)
    have "path_time (w_queues wa) p ps = path_time (w_queues w) p ps" "free_for p (w_queues wa x) = free_for p (w_queues w x)"
      for p ps x
      by (simp_all add: wa(1) path_time_def later_sel(16,17) [OF l3]) (simp_all add: wc_def connecting_sel)
    then have "\<exists>w' w5. later t2 wa w5 \<and> leads app n (4 * length (q2 # qs2) + 1)
        (in_queue q2 ((syn_ack_packet target ?c)\<lparr>p_hops := map sink.Queue qs2 @ [Forwarder ?f]\<rparr>) wa) w' \<and>
      quiet w' \<and> w' = (upd_tcp k (\<lambda>s. s\<lparr>m_connect_handler := None\<rparr>) w5)\<lparr>w_mem := gc t2 (w_mem wa)\<rparr>"
      using con p2 free assms(11) t2
      by (intro syn_ack_arrives [where h = h, OF wa(6,4) _ _ _ _ _ _ _ assms(8,10)])
        (simp_all add: wa wc_def connecting_sel opened_state_sel time del: path_time_simps)
    then show ?thesis using that by blast
  qed
  have "now (w_sched w') = t2" "w_mem w' = gc t2 (ga t1 (w_mem w))"
    using later_sel [OF l5] by (simp_all add: w' wa_def wc_def connecting_sel)
  moreover have "connected k j here target (q # qs) (q2 # qs2) w'"
    using con by (intro connected_after [OF assms(5) _ _ _ _ _ _ wc_def l3 wa_def l5 w'(2)])
      (simp_all add: tcp_fresh_def no_handlers_def Let_def)
  moreover have "established k j here target w w'"
    using con by (intro established_after [OF _ _ wc_def l3 wa_def l5 w'(2)]) (simp_all add: tcp_fresh_def no_handlers_def Let_def)
  moreover have "leads app n (4 * (length (q # qs) + length (q2 # qs2)) + 2) ?syn w'"
    using leads_trans [OF lead1 lead2 [unfolded wa_def]] by (simp add: algebra_simps)
  ultimately show ?thesis
    unfolding p1 p2 using conn w'(1) in_queue_running [OF \<open>quiet wc\<close>] by blast
qed

text \<open>Two nodes with a fresh client and a waiting acceptor, for the witnesses.\<close>

definition listening_nodes :: "nat world" where
  "listening_nodes = two_nodes\<lparr>
    w_tcp := (w_tcp two_nodes)(7 := new_tcp_socket 1, 10 := new_tcp_socket 2,
      8 := (new_tcp_socket 2)\<lparr>m_open := True, m_bound_to := Endpoint (V4 20) 8080, m_forwarder := Some 9\<rparr>),
    w_forwarders := [9 \<mapsto> Tcp 8],
    w_acceptors := [8 \<mapsto> new_acceptor\<lparr>m_queue_size_limit := 20, m_accept_handler := Some (\<lambda>_. App 4), m_accept_into := Some 10\<rparr>],
    w_ports := fresh_ports\<lparr>m_listen_sockets := [(Endpoint (V4 20) 8080, 8)]\<rparr>\<rparr>"

definition dialled_ports :: ports where
  "dialled_ports = fresh_ports\<lparr>m_listen_sockets := [(Endpoint (V4 10) 2000, 7), (Endpoint (V4 20) 8080, 8)], m_next_bind_port := 2001\<rparr>"

lemma listening_nodes_connectable:
  "quiet listening_nodes" "tcp_fresh 7 listening_nodes"
  "connectable 7 (ep_address (Endpoint (V4 10) 2000)) (Endpoint (V4 20) 8080) 8 9 10 (\<lambda>_. App 4) [1] [2] [3] [4] [5] listening_nodes"
  "bind_any 7 (Endpoint (V4 20) 8080) listening_nodes = Inr ((success, Endpoint (V4 10) 2000), dialled_ports)"
  "Endpoint (V4 10) 2000 \<noteq> Endpoint (V4 20) 8080"
  "om_find (Endpoint (V4 20) 8080) (m_listen_sockets dialled_ports) = Some 8"
proof -
  let ?here = "Endpoint (V4 10) 2000" and ?target = "Endpoint (V4 20) 8080"
  note defs = listening_nodes_def two_nodes_def new_world_def new_tcp_socket_def
  have lt: "?here < ?target" "\<not> ?target < ?here"
    by (simp_all add: less_endpoint_def less_address_def)
  show "quiet listening_nodes" using two_nodes_quiet by (simp add: listening_nodes_def quiet_def)
  show "tcp_fresh 7 listening_nodes" by (simp add: defs tcp_fresh_def no_handlers_def)
  show "connectable 7 (ep_address ?here) ?target 8 9 10 (\<lambda>_. App 4) [1] [2] [3] [4] [5] listening_nodes"
    by (simp add: connectable_def defs node_routes_def tcp_fresh_def no_handlers_def accepting_def new_acceptor_def free_for_def)
  show "bind_any 7 ?target listening_nodes = Inr ((success, ?here), dialled_ports)"
    using lt by (simp add: bind_any_def defs node_of_def node_bind_socket_def resolve_bind_address_def any_v4_def bind_socket_def
        bind_in_def set_address_def default_address_def take_bind_port_def fresh_ports_def Let_def dialled_ports_def
        find_free_port.simps set_port_def om_insert_def om_before_def om_lower_bound_def om_find_def)
  show "om_find ?target (m_listen_sockets dialled_ports) = Some 8"
    using lt by (simp add: om_find_def om_lower_bound_def dialled_ports_def)
qed simp

text \<open>
  C3. A connection is established. When a fresh socket connects to an address where an acceptor has a
  handler waiting, over a quiet network, \<open>run\<close> returns after the SYN and the SYN+ACK have spent
  their times in the queues on their ways: the acceptor's handler is called at the first time, the
  client's at the second, and then both sockets share one channel, each sees the other's address, and
  what the client sends will reach the peer's forwarder and the other way round.
\<close>

theorem tcp_connection_established:
  fixes w :: "'u world" and g :: "'u \<Rightarrow> int \<Rightarrow> memory \<Rightarrow> memory"
  assumes "quiet w" and "tcp_fresh k w" and "connectable k (ep_address here) target r fr j ha sout sin rout rin net w"
    and "bind_any k target w = Inr ((success, here), ps)" and "here \<noteq> target" and "om_find target (m_listen_sockets ps) = Some r"
    and "ha success = App ua" and "h success = App uc"
    and "4 * (length (sout @ net @ rin) + length (rout @ net @ sin)) + 2 \<le> n" and "n \<le> 1000" and "n + 1 < fuel"
    and "t1 = now (w_sched w) + path_time (w_queues w) (syn_packet target 0) (sout @ net @ rin)"
    and "t2 = t1 + path_time (w_queues w) (syn_packet target 0) (rout @ net @ sin)"
  shows "\<exists>w1 count w'. async_connect (forward_packet n) k target (Some h) w = Inr w1 \<and>
    run (memory_app g) n fuel w1 = Inr (Returned count, w') \<and> now (w_sched w') = t2 \<and>
    w_mem w' = g uc t2 (g ua t1 (w_mem w)) \<and>
    connected k j here target (sout @ net @ rin) (rout @ net @ sin) w'"
proof -
  have n: "1 < n" using assms(9) by simp
  obtain w1 w' where w: "async_connect (forward_packet n) k target (Some h) w = Inr w1"
    "leads (memory_app g) n (4 * (length (sout @ net @ rin) + length (rout @ net @ sin)) + 2) w1 w'" "quiet w'"
    "now (w_sched w') = t2" "w_mem w' = g uc t2 (g ua t1 (w_mem w))"
    "connected k j here target (sout @ net @ rin) (rout @ net @ sin) w'"
    using handshake [where h = h and ha = ha, OF assms(1-8) writes_memory_app writes_memory_app n assms(12,13)] by blast
  moreover obtain count where "run (memory_app g) n fuel w1 = Inr (Returned count, w')"
    using run_steps [OF w(2) quiet_finished [OF w(3)]] assms(9-11) by fastforce
  ultimately show ?thesis by blast
qed

lemma tcp_connection_established_witness:
  "\<exists>w1 count w'. async_connect (forward_packet 30) 7 (Endpoint (V4 20) 8080) (Some (\<lambda>_. App 3)) listening_nodes = Inr w1 \<and>
    run (memory_app (\<lambda>u t m. m(u := word_of_int t))) 30 40 w1 = Inr (Returned count, w') \<and>
    now (w_sched w') = 180000000 \<and>
    connected 7 10 (Endpoint (V4 10) 2000) (Endpoint (V4 20) 8080) [1, 5, 4] [3, 5, 2] w'"
proof -
  let ?g = "\<lambda>u t m. m(u := word_of_int t) :: memory"
  let ?target = "Endpoint (V4 20) 8080" and ?w = "listening_nodes"
  have "(\<lambda>_. App 4) success = App (4 :: nat)" "(\<lambda>_. App 3) success = App (3 :: nat)"
    "4 * (length ([1] @ [5] @ [4] :: nat list) + length ([3] @ [5] @ [2] :: nat list)) + 2 \<le> 30" "(30 :: nat) \<le> 1000" "(30 :: nat) + 1 < 40"
    by simp_all
  moreover have "90000000 = now (w_sched ?w) + path_time (w_queues ?w) (syn_packet ?target 0) ([1] @ [5] @ [4])"
    "180000000 = 90000000 + path_time (w_queues ?w) (syn_packet ?target 0) ([3] @ [5] @ [2])"
    by (simp_all add: listening_nodes_def two_nodes_def new_world_def hop_time_def now_def)
  ultimately have "\<exists>w1 count w'. async_connect (forward_packet 30) 7 ?target (Some (\<lambda>_. App 3)) ?w = Inr w1 \<and>
    run (memory_app ?g) 30 40 w1 = Inr (Returned count, w') \<and> now (w_sched w') = 180000000 \<and>
    w_mem w' = ?g 3 180000000 (?g 4 90000000 (w_mem ?w)) \<and>
    connected 7 10 (Endpoint (V4 10) 2000) ?target ([1] @ [5] @ [4]) ([3] @ [5] @ [2]) w'"
    by (rule tcp_connection_established [OF listening_nodes_connectable])
  then show ?thesis by auto
qed

end
