(* ===== verification/Connect_Range.thy ===== *)
theory Connect_Range
  imports Tcp_Connect
begin

text \<open>
  What \<open>simulator.hpp\<close> offers above a TCP socket: \<open>async_connect\<close> over a range of endpoints, which
  tries one after the other until one accepts, and the customization points of Boost.Beast that close
  a socket. The object the callbacks of a range share is the record \<open>connect_op\<close>; its iterators \<open>iter\<close>
  and \<open>end\<close> are the list of the endpoints between them. A callback of an attempt is the job
  \<open>App (ev op ec)\<close>, which runs \<open>on_connect\<close>.
\<close>

section \<open>Closing\<close>

definition beast_close_socket :: "'u net \<Rightarrow> nat \<Rightarrow> 'u world \<Rightarrow> fault + 'u world" where
  "beast_close_socket fwd k w = tcp_close fwd k w"

definition teardown :: "'u net \<Rightarrow> nat \<Rightarrow> 'u world \<Rightarrow> fault + (error_code \<times> 'u world)" where
  "teardown fwd k w = bindE (tcp_close fwd k w) (\<lambda>w1. Inr (success, w1))"

definition async_teardown :: "'u net \<Rightarrow> nat \<Rightarrow> 'u handler \<Rightarrow> 'u world \<Rightarrow> fault + 'u world" where
  "async_teardown fwd k h w = bindE (tcp_close fwd k w) (\<lambda>w1. Inr (post_job (h success) w1))"

section \<open>Connecting to a range\<close>

record connect_op =
  op_socket :: nat
  op_iter :: "endpoint list"

type_synonym 'u range_handler = "error_code \<Rightarrow> endpoint list \<Rightarrow> 'u world \<Rightarrow> fault + 'u world"

definition attempt :: "(connect_op \<Rightarrow> error_code \<Rightarrow> 'u) \<Rightarrow> 'u net \<Rightarrow> connect_op \<Rightarrow> 'u world \<Rightarrow> fault + 'u world" where
  "attempt ev fwd op w =
    (case op_iter op of
       [] \<Rightarrow> Inl Undefined_behaviour
     | ep # _ \<Rightarrow> async_connect fwd (op_socket op) ep (Some (\<lambda>ec. App (ev op ec))) w)"

definition on_connect ::
  "(connect_op \<Rightarrow> error_code \<Rightarrow> 'u) \<Rightarrow> 'u net \<Rightarrow> 'u range_handler \<Rightarrow> connect_op \<Rightarrow> error_code \<Rightarrow> 'u world \<Rightarrow> fault + 'u world" where
  "on_connect ev fwd h op ec w =
    (if ec \<noteq> success \<and> tl (op_iter op) \<noteq> [] then
       bindE (tcp_close fwd (op_socket op) w) (attempt ev fwd (op\<lparr>op_iter := tl (op_iter op)\<rparr>))
     else h ec (op_iter op) w)"

definition async_connect_range ::
  "(connect_op \<Rightarrow> error_code \<Rightarrow> 'u) \<Rightarrow> 'u net \<Rightarrow> 'u range_handler \<Rightarrow> nat \<Rightarrow> endpoint list \<Rightarrow> 'u world \<Rightarrow> fault + 'u world" where
  "async_connect_range ev fwd h k eps w =
    (if eps = [] then h not_found [] w else attempt ev fwd \<lparr>op_socket = k, op_iter = eps\<rparr> w)"

section \<open>An attempt that fails\<close>

text \<open>
  The first address of the wanted family on the socket's node; what an attempt without an acceptor
  fails with, and after how long.
\<close>

definition node_address :: "nat \<Rightarrow> bool \<Rightarrow> 'u world \<Rightarrow> address option" where
  "node_address k v4 w =
    (case w_nodes w (m_io_service (w_tcp w k)) of
       None \<Rightarrow> None
     | Some nd \<Rightarrow> find (if v4 then is_v4 else is_v6) (m_ips nd))"

definition address_for :: "nat \<Rightarrow> endpoint \<Rightarrow> 'u world \<Rightarrow> address option" where
  "address_for k ep w = node_address k (is_v4 (ep_address ep)) w"

definition attempt_error :: "address option \<Rightarrow> error_code" where
  "attempt_error a = (case a of None \<Rightarrow> address_not_available | Some _ \<Rightarrow> connection_refused)"

definition attempt_time :: "address option \<Rightarrow> int" where
  "attempt_time a = (case a of None \<Rightarrow> 0 | Some _ \<Rightarrow> 50000000)"

text \<open>The ephemeral ports of the socket's node are free, and nobody accepts at an endpoint.\<close>

definition can_bind :: "nat \<Rightarrow> 'u world \<Rightarrow> bool" where
  "can_bind k w \<longleftrightarrow> wf_ports (w_ports w) \<and> (\<exists>nd. w_nodes w (m_io_service (w_tcp w k)) = Some nd \<and> m_ips nd \<noteq> [] \<and>
    (\<forall>a \<in> set (m_ips nd). a \<noteq> default_address \<and> (\<forall>p. 2000 \<le> p \<longrightarrow> tcp_lookup (w_ports w) (Endpoint a p) = None)))"

definition refused :: "endpoint \<Rightarrow> 'u world \<Rightarrow> bool" where
  "refused ep w \<longleftrightarrow> (\<forall>r. tcp_lookup (w_ports w) ep = Some r \<longrightarrow> \<not> internal_is_listening r w)"

lemma bind_any_address:
  assumes "can_bind k w" and "address_for k ep w = Some a"
  obtains p ps where "bind_any k ep w = Inr ((success, Endpoint a p), ps)" and "wf_ports ps"
    and "tcp_lookup ps = (tcp_lookup (w_ports w))(Endpoint a p \<mapsto> k)" and "tcp_lookup (w_ports w) (Endpoint a p) = None"
    and "tcp_lookup (unbind_socket k (Endpoint a p) ps) = tcp_lookup (w_ports w)"
    and "is_v4 a = is_v4 (ep_address ep)" and "a \<noteq> default_address"
    and "get_path_mtu (m_io_service (w_tcp w k)) a b w = Inr (path_mtu (w_config w) a b)"
proof -
  let ?ps = "w_ports w" and ?v4 = "is_v4 (ep_address ep)"
  obtain nd where nd: "w_nodes w (m_io_service (w_tcp w k)) = Some nd" and wf: "wf_ports ?ps" and "m_ips nd \<noteq> []"
    and free: "\<forall>a \<in> set (m_ips nd). a \<noteq> default_address \<and> (\<forall>p. 2000 \<le> p \<longrightarrow> tcp_lookup ?ps (Endpoint a p) = None)"
    using assms(1) by (auto simp: can_bind_def)
  have f: "find (if ?v4 then is_v4 else is_v6) (m_ips nd) = Some a"
    using assms(2) by (simp add: address_for_def node_address_def nd)
  moreover have v6: "is_v6 x \<longleftrightarrow> \<not> is_v4 x" for x by (cases x) simp_all
  ultimately have a: "a \<in> set (m_ips nd)" "is_v4 a = ?v4"
    using v6 by (auto simp: find_Some_iff split: if_splits)
  let ?p = "m_next_bind_port ?ps"
  have p: "2000 \<le> ?p" using wf by (simp add: wf_ports_def)
  have none: "tcp_lookup ?ps (Endpoint a ?p) = None" using free a(1) p by simp
  then have "find_free_port (m_listen_sockets ?ps) (Endpoint a ?p) = Inr (Endpoint a ?p)"
    by (simp add: find_free_port.simps tcp_lookup_def)
  then obtain ps where b: "bind_socket k (Endpoint a 0) ?ps = Inr ((success, Endpoint a ?p), ps)"
    using none free a(1)
    by (simp add: bind_socket_def bind_in_def take_bind_port_def set_port_def tcp_lookup_def Let_def)
  moreover have "bind_any k ep w = bind_socket k (Endpoint a 0) ?ps"
    using f a(1) \<open>m_ips nd \<noteq> []\<close> by (auto simp: bind_any_def node_of_def nd node_bind_socket_def resolve_bind_address_def set_address_def
        any_v4_def any_v6_def)
  moreover have "get_path_mtu (m_io_service (w_tcp w k)) a b w = Inr (path_mtu (w_config w) a b)"
    by (simp add: get_path_mtu_def node_of_def nd a)
  ultimately show ?thesis
    using that [of ?p ps] tcp_table.bind_ok [OF wf b] tcp_table.bind_wf [OF wf b] tcp_table.bind_unbind [OF wf b] a free
    by simp
qed

lemma bind_any_none:
  assumes "can_bind k w" and "address_for k ep w = None"
  shows "bind_any k ep w = Inr ((address_not_available, default_endpoint), w_ports w)"
  using assms by (auto simp: can_bind_def address_for_def node_address_def bind_any_def node_of_def node_bind_socket_def
      resolve_bind_address_def any_v4_def any_v6_def split: if_splits)

lemma bind_any_opened [simp]: "bind_any k ep (opened k v4 w) = bind_any k ep w"
  by (simp add: bind_any_def opened_sel opened_state_sel node_of_def)

lemma bind_for_connect_any:
  assumes "m_bound_to (w_tcp w k) = default_endpoint" and "bind_any k ep w = Inr ((ec, r), ps)"
  shows "bind_for_connect k ep w = Inr (if ec \<noteq> success then (ec, w\<lparr>w_ports := ps\<rparr>)
    else (success, upd_tcp k (\<lambda>s. s\<lparr>m_bound_to := r, m_user_bound_to := r\<rparr>) (w\<lparr>w_ports := ps\<rparr>)))"
  using assms by (auto simp: bind_for_connect_def bind_any_def default_endpoint_def ios_bind_socket_def Let_def)

text \<open>
  The world between two attempts: the socket is not connected, and once it is unbound every address
  belongs to whom it belonged before.
\<close>

definition unconnected_at :: "nat \<Rightarrow> int \<Rightarrow> 'u world \<Rightarrow> 'u world \<Rightarrow> bool" where
  "unconnected_at k t w w' \<longleftrightarrow> quiet w' \<and> now (w_sched w') = t \<and> w_config w' = w_config w \<and> w_nodes w' = w_nodes w \<and>
    w_queues w' = w_queues w \<and> w_acceptors w' = w_acceptors w \<and> w_mem w' = w_mem w \<and>
    (\<forall>j. j \<noteq> k \<longrightarrow> w_tcp w' j = w_tcp w j) \<and> m_io_service (w_tcp w' k) = m_io_service (w_tcp w k) \<and>
    m_channel (w_tcp w' k) = None \<and> no_handlers (w_tcp w' k) \<and> wf_ports (w_ports w') \<and>
    tcp_lookup (w_ports (tcp_unbind k w')) = tcp_lookup (w_ports w) \<and> w_next_id w \<le> w_next_id w' \<and>
    (\<forall>i < w_next_id w. w_forwarders w' i = w_forwarders w i) \<and>
    (\<forall>f. m_forwarder (w_tcp w' k) = Some f \<longrightarrow> w_next_id w \<le> f)"

lemma unconnected_fresh:
  assumes "tcp_fresh k w'" and "unconnected_at k t w w'"
  shows "tcp_lookup (w_ports w') = tcp_lookup (w_ports w)"
  using assms by (simp add: unconnected_at_def tcp_fresh_def tcp_unbind_def Let_def)

lemma unconnected_trans:
  assumes "unconnected_at k t w w1" and "tcp_fresh k w1" and "unconnected_at k t' w1 w2"
  shows "unconnected_at k t' w w2"
  using assms unconnected_fresh [OF assms(2,1)] unfolding unconnected_at_def by (auto intro: order_trans)

lemma unconnected_keeps:
  assumes "unconnected_at k t w w'" and "tcp_fresh k w'"
  shows "can_bind k w \<Longrightarrow> can_bind k w'" and "refused ep w' = refused ep w" and "address_for k ep w' = address_for k ep w"
  using assms(1) by (auto simp: unconnected_fresh [OF assms(2,1)] unconnected_at_def can_bind_def refused_def
      address_for_def node_address_def internal_is_listening_def)

lemma close_unconnected:
  assumes "unconnected_at k t w w'"
  obtains w1 where "tcp_close fwd k w' = Inr w1" and "tcp_fresh k w1" and "unconnected_at k t w w1"
proof -
  note u = assms [unfolded unconnected_at_def]
  let ?W = "upd_tcp k (\<lambda>s. s\<lparr>m_queue_size := 0, m_mss := 1475, m_cwnd := 1475 * 2, m_bytes_in_flight := 0,
      m_outstanding_packet_sizes := Map.empty, m_recv_null_buffers := False, m_send_null_buffers := False,
      m_next_incoming_seq := 0, m_next_outgoing_seq := 0, m_last_drop_seq := 0\<rparr>)
    (tcp_drop_forwarder k (upd_tcp k (\<lambda>s. s\<lparr>m_open := False\<rparr>) (tcp_unbind k w')))"
  let ?f = "\<lambda>s :: 'a tcp_socket. s\<lparr>m_recv_handler := None, m_wait_recv_handler := None, m_recv_buffer := [],
      m_recv_null_buffers := False, m_send_handler := None, m_wait_send_handler := None, m_send_buffer := [],
      m_send_null_buffers := False\<rparr>"
  let ?w1 = "upd_tcp k ?f ?W"
  note defs = tcp_drop_forwarder_def set_forwarder_def tcp_unbind_def Let_def
  have "quiet ?W" "no_handlers (w_tcp ?W k)"
    using u by (auto simp: defs no_handlers_def quiet_def split: option.split)
  then have "reset_socket k w' = ?w1" by (simp add: reset_socket_def Let_def abort_none)
  then have "tcp_close fwd k w' = Inr ?w1" using u by (simp add: tcp_close_def close_channel_def)
  moreover have "tcp_fresh k ?w1" using u by (auto simp: tcp_fresh_def defs no_handlers_def split: option.split)
  moreover have "unconnected_at k t w ?w1"
    using u by (auto simp: unconnected_at_def defs no_handlers_def tcp_table.unbind_wf quiet_def split: option.split if_splits)
  ultimately show ?thesis by (rule that)
qed

lemma attempt_fails:
  assumes "quiet w" and "tcp_fresh k w" and "w_acceptors w k = None" and "can_bind k w" and "refused ep w"
  obtains w1 w2 where "async_connect fwd k ep (Some h) w = Inr w1" and "running w1"
    and "leads app n 1 w1 (post_job (h (attempt_error (address_for k ep w))) w2)"
    and "unconnected_at k (now (w_sched w) + attempt_time (address_for k ep w)) w w2"
proof -
  let ?v4 = "is_v4 (ep_address ep)" and ?f = "w_next_id w"
  let ?w0 = "opened k ?v4 w"
  have fresh: "\<not> m_open (w_tcp w k)" "m_connect_handler (w_tcp w k) = None" "m_bound_to (w_tcp w k) = default_endpoint"
    "m_channel (w_tcp w k) = None"
    using assms(2) by (simp_all add: tcp_fresh_def no_handlers_def Let_def)
  note op = tcp_open_fresh [OF assms(1,2), of fwd ?v4]
  have wf: "wf_ports (w_ports w)" using assms(4) by (simp add: can_bind_def)
  note conn = async_connect_def op opened_sel opened_state_sel fresh bind_for_connect_any
  show ?thesis
  proof (cases "address_for k ep w")
    case None
    let ?w1 = "post_job (h address_not_available) ?w0"
    have "async_connect fwd k ep (Some h) w = Inr ?w1"
      using bind_any_none [OF assms(4) None] by (simp add: conn)
    moreover have "running ?w1" using quiet_running [OF assms(1)] by (simp add: running_def opened_sel)
    moreover have "unconnected_at k (now (w_sched w) + attempt_time None) w ?w0"
      using assms(1) wf fresh by (auto simp: unconnected_at_def opened_sel opened_state_sel no_handlers_def tcp_unbind_def
          attempt_time_def quiet_def)
    ultimately show ?thesis using that [of ?w1 ?w0] by (simp add: None attempt_error_def leads_refl)
  next
    case (Some a)
    from bind_any_address [OF assms(4) Some] obtain p ps
      where b: "bind_any k ep w = Inr ((success, Endpoint a p), ps)" and ps: "wf_ports ps"
        "tcp_lookup ps = (tcp_lookup (w_ports w))(Endpoint a p \<mapsto> k)"
        "tcp_lookup (unbind_socket k (Endpoint a p) ps) = tcp_lookup (w_ports w)"
        and a: "is_v4 a = ?v4" "a \<noteq> default_address"
        and mtu: "get_path_mtu (m_io_service (w_tcp w k)) a (ep_address ep) w = Inr (path_mtu (w_config w) a (ep_address ep))"
      by blast
    let ?w2 = "upd_tcp k (\<lambda>s. s\<lparr>m_bound_to := Endpoint a p, m_user_bound_to := Endpoint a p\<rparr>) (?w0\<lparr>w_ports := ps\<rparr>)"
    have sim: "sim_internal_connect fwd k ep ?w2 = Inr (None, connection_refused, ?w2)"
      using assms(3,5) ps(2) by (auto simp: sim_internal_connect_def refused_def tcp_lookup_def fun_eq_iff
          internal_is_listening_def opened_sel split: option.splits if_splits)
    let ?mtu = "path_mtu (w_config w) a (ep_address ep)" and ?ct = "Connect_timer k" and ?e = "now (w_sched w) + 50000000"
    let ?w3 = "upd_tcp k (\<lambda>s. s\<lparr>m_channel := None\<rparr>) (upd_tcp k (\<lambda>s. s\<lparr>m_mss := ?mtu, m_cwnd := ?mtu * 2\<rparr>)
      (upd_tcp k (\<lambda>s. s\<lparr>m_channel := None\<rparr>) ?w2))"
    let ?w1 = "?w3\<lparr>w_sched := armed_sched ?ct ?e (\<lambda>_. h connection_refused) (w_sched w)\<rparr>"
    let ?w4 = "?w3\<lparr>w_sched := sched_at ?ct ?e (w_sched w)\<rparr>"
    have q: "quiet_sched (w_sched w)" using assms(1) by (simp add: quiet_def)
    have mtu': "get_path_mtu (m_io_service (w_tcp w k)) a (ep_address ep) v = Inr ?mtu"
      if "w_nodes v = w_nodes w" "w_config v = w_config w" for v
      using mtu that by (simp add: get_path_mtu_def node_of_def)
    have "quiet ?w3" using assms(1) by (simp add: quiet_def opened_sel)
    note arm = arm_quiet(2,3) [OF this]
    have "async_connect fwd k ep (Some h) w = Inr ?w1"
      using a arm(2) [of ?ct ?e "\<lambda>_. h connection_refused"]
      by (simp add: conn b sim mtu' arm(1) Let_def)
    moreover have "running ?w1" using q by (simp add: running_def armed_sched_def quiet_sched_def)
    moreover have "loop_step app n ?w1 (post_job (h connection_refused) ?w4)"
      using armed_fires [OF q, where app = app and n = n and w = ?w3 and t = ?ct and e = ?e and h = "\<lambda>_. h connection_refused"] by (simp add: post_job_def upd_sched_def)
    then have "leads app n 1 ?w1 (post_job (h connection_refused) ?w4)"
      unfolding One_nat_def by (rule leads_step [OF _ leads_refl])
    moreover have "unconnected_at k (now (w_sched w) + attempt_time (Some a)) w ?w4"
      using sched_at_quiet [OF q] ps(1,3) fresh a(2)
      by (simp add: unconnected_at_def opened_sel opened_state_sel no_handlers_def tcp_unbind_def attempt_time_def quiet_def
          default_endpoint_def default_address_def)
    ultimately show ?thesis using that [of ?w1 ?w4] by (simp add: Some attempt_error_def)
  qed
qed

section \<open>One after the other\<close>

definition attempts_time :: "nat \<Rightarrow> endpoint list \<Rightarrow> 'u world \<Rightarrow> int" where
  "attempts_time k eps w = sum_list (map (\<lambda>ep. attempt_time (address_for k ep w)) eps)"

text \<open>
  The callback of an attempt runs once the attempt has failed, and what follows it leads on.
\<close>

lemma attempt_leads:
  assumes "quiet w" and "tcp_fresh k w" and "w_acceptors w k = None" and "can_bind k w" and "refused ep w"
    and app: "\<And>op ec v. app (ev op ec) v = on_connect ev fwd h op ec v"
    and callback: "\<And>w2. unconnected_at k (now (w_sched w) + attempt_time (address_for k ep w)) w w2 \<Longrightarrow>
      \<exists>w3 w'. on_connect ev fwd h \<lparr>op_socket = k, op_iter = ep # eps\<rparr> (attempt_error (address_for k ep w)) w2 = Inr w3 \<and>
        running w3 \<and> leads app n m w3 w' \<and> P w'"
  shows "\<exists>w1 w'. attempt ev fwd \<lparr>op_socket = k, op_iter = ep # eps\<rparr> w = Inr w1 \<and> running w1 \<and>
    leads app n (m + 2) w1 w' \<and> P w'"
proof -
  let ?op = "\<lparr>op_socket = k, op_iter = ep # eps\<rparr>" and ?a = "address_for k ep w"
  from attempt_fails [OF assms(1-5), of fwd "\<lambda>ec. App (ev ?op ec)" app n] obtain w1 w2
    where w1: "async_connect fwd k ep (Some (\<lambda>ec. App (ev ?op ec))) w = Inr w1" "running w1"
      "leads app n 1 w1 (post_job (App (ev ?op (attempt_error ?a))) w2)"
      and w2: "unconnected_at k (now (w_sched w) + attempt_time ?a) w w2"
    by blast
  from callback [OF w2] obtain w3 w' where w3: "on_connect ev fwd h ?op (attempt_error ?a) w2 = Inr w3" "running w3"
    "leads app n m w3 w'" "P w'" by blast
  have s: "post_job j w2 = w2\<lparr>w_sched := post j (w_sched w2)\<rparr>" for j
    by (simp add: post_job_def upd_sched_def)
  have "quiet_sched (w_sched w2)" using w2 by (simp add: unconnected_at_def quiet_def)
  then have "loop_step app n (post_job (App (ev ?op (attempt_error ?a))) w2) w3"
    unfolding s by (rule job_runs) (simp_all add: run_job_def app w3)
  from leads_trans [OF w1(3) leads_step [OF this w3(3)]]
  have "leads app n (m + 2) w1 w'" by (simp add: numeral_2_eq_2)
  then show ?thesis using w1(1,2) w3(4) by (auto simp: attempt_def)
qed

text \<open>
  A range of endpoints nobody accepts at, in front of the rest of the range: after the times of
  their attempts the rest is tried, from a world in which the socket is as it was.
\<close>

lemma refused_then:
  assumes "quiet w" and "tcp_fresh k w" and "w_acceptors w k = None" and "can_bind k w" and "\<forall>ep \<in> set eps. refused ep w"
    and app: "\<And>op ec v. app (ev op ec) v = on_connect ev fwd h op ec v" and "rest \<noteq> []"
    and "\<And>w2. unconnected_at k (now (w_sched w) + attempts_time k eps w) w w2 \<Longrightarrow> tcp_fresh k w2 \<Longrightarrow>
      \<exists>w3 w'. attempt ev fwd \<lparr>op_socket = k, op_iter = rest\<rparr> w2 = Inr w3 \<and> running w3 \<and> leads app n m w3 w' \<and> P w'"
  shows "\<exists>w1 w'. attempt ev fwd \<lparr>op_socket = k, op_iter = eps @ rest\<rparr> w = Inr w1 \<and> running w1 \<and>
    leads app n (m + 2 * length eps) w1 w' \<and> P w'"
  using assms(1-5,8)
proof (induction eps arbitrary: w)
  case Nil
  have "unconnected_at k (now (w_sched w)) w w"
    using Nil.prems(1,2,4) by (auto simp: unconnected_at_def tcp_fresh_def tcp_unbind_def can_bind_def Let_def)
  then show ?case using Nil.prems(6) [of w] Nil.prems(2) by (simp add: attempts_time_def)
next
  case (Cons ep eps)
  let ?a = "address_for k ep w"
  have "\<exists>w3 w'. on_connect ev fwd h \<lparr>op_socket = k, op_iter = ep # eps @ rest\<rparr> (attempt_error ?a) w2 = Inr w3 \<and>
      running w3 \<and> leads app n (m + 2 * length eps) w3 w' \<and> P w'"
    if w2: "unconnected_at k (now (w_sched w) + attempt_time ?a) w w2" for w2
  proof -
    obtain w1 where w1: "tcp_close fwd k w2 = Inr w1" and f: "tcp_fresh k w1"
      and u: "unconnected_at k (now (w_sched w) + attempt_time ?a) w w1"
      using w2 by (rule close_unconnected)
    note keeps = unconnected_keeps [OF u f]
    have t: "now (w_sched w1) + attempts_time k eps w1 = now (w_sched w) + attempts_time k (ep # eps) w"
      using u by (simp add: attempts_time_def keeps(3) unconnected_at_def)
    have "\<exists>w3 w'. attempt ev fwd \<lparr>op_socket = k, op_iter = eps @ rest\<rparr> w1 = Inr w3 \<and> running w3 \<and>
        leads app n (m + 2 * length eps) w3 w' \<and> P w'"
    proof (rule Cons.IH [OF _ f])
      show "quiet w1" "w_acceptors w1 k = None" using u Cons.prems(3) by (simp_all add: unconnected_at_def)
      show "can_bind k w1" by (rule keeps(1) [OF Cons.prems(4)])
      show "\<forall>ep \<in> set eps. refused ep w1" using Cons.prems(5) by (simp add: keeps(2))
      show "\<exists>w4 w'. attempt ev fwd \<lparr>op_socket = k, op_iter = rest\<rparr> w3 = Inr w4 \<and> running w4 \<and> leads app n m w4 w' \<and> P w'"
        if "unconnected_at k (now (w_sched w1) + attempts_time k eps w1) w1 w3" "tcp_fresh k w3" for w3
        using Cons.prems(6) [OF unconnected_trans [OF u f that(1) [unfolded t]] that(2)] .
    qed
    moreover have "attempt_error ?a \<noteq> success" by (simp add: attempt_error_def split: option.split)
    ultimately show ?thesis using assms(7) w1 by (simp add: on_connect_def)
  qed
  from attempt_leads [OF Cons.prems(1-4) _ app this] Cons.prems(5) show ?case
    by (simp add: algebra_simps)
qed

section \<open>The range\<close>

definition dispatches :: "'u app \<Rightarrow> (connect_op \<Rightarrow> error_code \<Rightarrow> 'u) \<Rightarrow> 'u net \<Rightarrow> 'u range_handler \<Rightarrow> bool" where
  "dispatches app ev fwd h \<longleftrightarrow> (\<forall>op ec v. app (ev op ec) v = on_connect ev fwd h op ec v)"

text \<open>The last attempt, at an endpoint that refuses as well.\<close>

lemma last_attempt:
  assumes u: "unconnected_at k t0 w w2" and f: "tcp_fresh k w2" and "w_acceptors w k = None" and "can_bind k w"
    and "refused ep w" and app: "\<And>op ec v. app (ev op ec) v = on_connect ev (forward_packet n) h op ec v"
    and "\<forall>ec its v. h ec its v = Inr (v\<lparr>w_mem := g ec its (now (w_sched v)) (w_mem v)\<rparr>)"
    and t: "t = t0 + attempt_time (address_for k ep w)"
  shows "\<exists>w3 w'. attempt ev (forward_packet n) \<lparr>op_socket = k, op_iter = [ep]\<rparr> w2 = Inr w3 \<and> running w3 \<and>
    leads app n (0 + 2) w3 w' \<and> quiet w' \<and> now (w_sched w') = t \<and>
    w_mem w' = g (attempt_error (address_for k ep w)) [ep] t (w_mem w) \<and>
    m_channel (w_tcp w' k) = None \<and> no_handlers (w_tcp w' k) \<and> (\<forall>j. j \<noteq> k \<longrightarrow> w_tcp w' j = w_tcp w j)"
    (is "\<exists>w3 w'. _ \<and> _ \<and> _ \<and> ?P w'")
proof (rule attempt_leads [OF _ f _ _ _ app])
  let ?op = "\<lparr>op_socket = k, op_iter = [ep]\<rparr>"
  note keeps = unconnected_keeps [OF u f]
  show "quiet w2" "w_acceptors w2 k = None" using u assms(3) by (simp_all add: unconnected_at_def)
  show "can_bind k w2" by (rule keeps(1) [OF assms(4)])
  show "refused ep w2" using assms(5) by (simp add: keeps(2))
  have t': "now (w_sched w2) + attempt_time (address_for k ep w2) = t"
    using u by (simp add: keeps(3) t unconnected_at_def)
  fix w3
  assume "unconnected_at k (now (w_sched w2) + attempt_time (address_for k ep w2)) w2 w3"
  then have u3: "unconnected_at k t w w3" unfolding t' by (rule unconnected_trans [OF u f])
  let ?w4 = "w3\<lparr>w_mem := g (attempt_error (address_for k ep w)) [ep] (now (w_sched w3)) (w_mem w3)\<rparr>"
  have "on_connect ev (forward_packet n) h ?op (attempt_error (address_for k ep w2)) w3 = Inr ?w4"
    by (simp add: on_connect_def assms(7) keeps(3))
  moreover have "quiet ?w4" using u3 by (simp add: unconnected_at_def quiet_def)
  moreover have "?P ?w4" using u3 \<open>quiet ?w4\<close> by (simp add: unconnected_at_def)
  ultimately show "\<exists>w4 w'. on_connect ev (forward_packet n) h ?op (attempt_error (address_for k ep w2)) w3 = Inr w4 \<and>
      running w4 \<and> leads app n 0 w4 w' \<and> ?P w'"
    using quiet_running leads_refl by blast
qed

text \<open>
  C26. Connecting to a range nobody accepts at: every endpoint is tried, in their order, and takes 50
  milliseconds, or no time when the node has no address of its family; \<open>run\<close> returns after them all; the
  handler is called once, with the error of the last attempt and the iterator at the last endpoint;
  the socket is left unconnected and no other socket is touched.
\<close>

theorem connect_range_refused:
  fixes w :: "'u world"
  assumes "quiet w" and "tcp_fresh k w" and "w_acceptors w k = None" and "can_bind k w"
    and "\<forall>ep \<in> set eps. refused ep w" and "eps \<noteq> []"
    and "dispatches app ev (forward_packet n) h"
    and "\<forall>ec its v. h ec its v = Inr (v\<lparr>w_mem := g ec its (now (w_sched v)) (w_mem v)\<rparr>)"
    and "2 * length eps \<le> n" and "n \<le> 1000" and "n + 1 < fuel"
    and "t = now (w_sched w) + attempts_time k eps w"
  shows "\<exists>w1 count w'. async_connect_range ev (forward_packet n) h k eps w = Inr w1 \<and>
    run app n fuel w1 = Inr (Returned count, w') \<and> now (w_sched w') = t \<and>
    w_mem w' = g (attempt_error (address_for k (last eps) w)) [last eps] t (w_mem w) \<and>
    m_channel (w_tcp w' k) = None \<and> no_handlers (w_tcp w' k) \<and> (\<forall>j. j \<noteq> k \<longrightarrow> w_tcp w' j = w_tcp w j)"
proof -
  let ?fwd = "forward_packet n" and ?ep = "last eps" and ?eps = "butlast eps"
  have eps: "?eps @ [?ep] = eps" using assms(6) by simp
  let ?P = "\<lambda>w'. quiet w' \<and> now (w_sched w') = t \<and>
    w_mem w' = g (attempt_error (address_for k ?ep w)) [?ep] t (w_mem w) \<and>
    m_channel (w_tcp w' k) = None \<and> no_handlers (w_tcp w' k) \<and> (\<forall>j. j \<noteq> k \<longrightarrow> w_tcp w' j = w_tcp w j)"
  note app = assms(7) [unfolded dispatches_def, rule_format]
  have "attempts_time k eps w = attempts_time k (?eps @ [?ep]) w" by (simp only: eps)
  then have time: "attempts_time k eps w = attempts_time k ?eps w + attempt_time (address_for k ?ep w)"
    by (simp add: attempts_time_def del: append_butlast_last_id)
  have last: "\<exists>w3 w'. attempt ev ?fwd \<lparr>op_socket = k, op_iter = [?ep]\<rparr> w2 = Inr w3 \<and> running w3 \<and> leads app n (0 + 2) w3 w' \<and> ?P w'"
    if "unconnected_at k (now (w_sched w) + attempts_time k ?eps w) w w2" and "tcp_fresh k w2" for w2
    by (rule last_attempt [OF that assms(3,4) _ app assms(8)]) (use assms(5,6,12) time in simp_all)
  have "\<forall>ep \<in> set ?eps. refused ep w" using assms(5) by (auto dest: in_set_butlastD)
  from refused_then [OF assms(1-4) this app _ last, unfolded eps] obtain w1 w'
    where w1: "attempt ev ?fwd \<lparr>op_socket = k, op_iter = eps\<rparr> w = Inr w1" "leads app n (0 + 2 + 2 * length ?eps) w1 w'" "?P w'"
    by blast
  have "0 + 2 + 2 * length ?eps \<le> n" using assms(6,9) by (cases eps rule: rev_cases) simp_all
  then have "\<exists>count. run app n fuel w1 = Inr (Returned count, w')"
    using w1(3) assms(10,11) by (intro run_steps [OF w1(2) quiet_finished]) linarith+
  moreover have "async_connect_range ev ?fwd h k eps w = Inr w1" using w1(1) assms(6) by (simp add: async_connect_range_def)
  ultimately show ?thesis using w1(3) by blast
qed

lemma connect_range_refused_witness:
  "\<exists>w :: (connect_op \<times> error_code) world. \<exists>w1 count w'.
    async_connect_range Pair (forward_packet 9) (\<lambda>ec its v. Inr (v\<lparr>w_mem := (w_mem v)(length its := w_mem v 0 + 1)\<rparr>)) 7
      [Endpoint (V4 20) 80, Endpoint (V6 5) 80, Endpoint (V4 20) 81] w = Inr w1 \<and>
    run (\<lambda>(op, ec). on_connect Pair (forward_packet 9) (\<lambda>ec its v. Inr (v\<lparr>w_mem := (w_mem v)(length its := w_mem v 0 + 1)\<rparr>))
      op ec) 9 11 w1 = Inr (Returned count, w') \<and> now (w_sched w') = 100000000 \<and> w_mem w' = (w_mem w)(1 := w_mem w 0 + 1)"
proof -
  let ?eps = "[Endpoint (V4 20) 80, Endpoint (V6 5) 80, Endpoint (V4 20) 81]"
  let ?g = "\<lambda>ec its t m. m(length its := m 0 + 1) :: memory"
  let ?h = "\<lambda>ec its (v :: (connect_op \<times> error_code) world). Inr (v\<lparr>w_mem := ?g ec its (now (w_sched v)) (w_mem v)\<rparr>) :: fault + _"
  let ?app = "\<lambda>(op, ec). on_connect Pair (forward_packet 9) ?h op ec"
  define w :: "(connect_op \<times> error_code) world" where
    "w = two_nodes\<lparr>w_tcp := (w_tcp two_nodes)(7 := new_tcp_socket 1), w_ports := fresh_ports\<rparr>"
  note defs = w_def two_nodes_def new_world_def new_tcp_socket_def
  have "quiet w" using two_nodes_quiet by (simp add: w_def quiet_def)
  moreover have "tcp_fresh 7 w" by (simp add: defs tcp_fresh_def no_handlers_def)
  moreover have "w_acceptors w 7 = None" by (simp add: defs)
  moreover have "can_bind 7 w" by (simp add: defs can_bind_def default_address_def tcp_lookup_def fresh_ports_def om_find_def
        om_lower_bound_def wf_ports_def)
  moreover have "\<forall>ep \<in> set ?eps. refused ep w"
    by (simp add: defs refused_def tcp_lookup_def fresh_ports_def om_find_def om_lower_bound_def)
  moreover have "?eps \<noteq> []" "dispatches ?app Pair (forward_packet 9) ?h" by (simp_all add: dispatches_def)
  moreover have "\<forall>ec its v. ?h ec its v = Inr (v\<lparr>w_mem := ?g ec its (now (w_sched v)) (w_mem v)\<rparr>)" by simp
  moreover have "2 * length ?eps \<le> 9" "(9 :: nat) \<le> 1000" "(9 :: nat) + 1 < 11" by simp_all
  moreover have "100000000 = now (w_sched w) + attempts_time 7 ?eps w"
    by (simp add: defs attempts_time_def attempt_time_def address_for_def node_address_def now_def)
  ultimately have "\<exists>w1 count w'. async_connect_range Pair (forward_packet 9) ?h 7 ?eps w = Inr w1 \<and>
    run ?app 9 11 w1 = Inr (Returned count, w') \<and> now (w_sched w') = 100000000 \<and>
    w_mem w' = ?g (attempt_error (address_for 7 (last ?eps) w)) [last ?eps] 100000000 (w_mem w) \<and>
    m_channel (w_tcp w' 7) = None \<and> no_handlers (w_tcp w' 7) \<and> (\<forall>j. j \<noteq> 7 \<longrightarrow> w_tcp w' j = w_tcp w j)"
    by (rule connect_range_refused)
  then obtain w1 count w' where "async_connect_range Pair (forward_packet 9) ?h 7 ?eps w = Inr w1"
    "run ?app 9 11 w1 = Inr (Returned count, w')" "now (w_sched w') = 100000000" "w_mem w' = (w_mem w)(1 := w_mem w 0 + 1)"
    by auto
  then show ?thesis by blast
qed

text \<open>The attempt at an endpoint where an acceptor is waiting.\<close>

lemma attempt_connects:
  assumes u: "unconnected_at k t0 w w2" and f: "tcp_fresh k w2" and "can_bind k w"
    and "connectable k a target r fr j ha sout sin rout rin net w" and "address_for k target w = Some a"
    and "tcp_lookup (w_ports w) target = Some r" and "ha success = App ua" and "writes app ua ga"
    and wr: "writes app (ev \<lparr>op_socket = k, op_iter = target # others\<rparr> success) gc" and n: "1 < n"
    and "t1 = t0 + path_time (w_queues w) (syn_packet target 0) (sout @ net @ rin)"
    and "t2 = t1 + path_time (w_queues w) (syn_packet target 0) (rout @ net @ sin)"
  shows "\<exists>w3 w'. attempt ev (forward_packet n) \<lparr>op_socket = k, op_iter = target # others\<rparr> w2 = Inr w3 \<and> running w3 \<and>
    leads app n (4 * (length (sout @ net @ rin) + length (rout @ net @ sin)) + 2) w3 w' \<and>
    quiet w' \<and> now (w_sched w') = t2 \<and> w_mem w' = gc t2 (ga t1 (w_mem w)) \<and>
    (\<exists>p. connected k j (Endpoint a p) target (sout @ net @ rin) (rout @ net @ sin) w')"
proof -
  let ?op = "\<lparr>op_socket = k, op_iter = target # others\<rparr>" and ?fwd = "forward_packet n"
  note keeps = unconnected_keeps [OF u f] unconnected_fresh [OF f u]
  have a: "address_for k target w2 = Some a" using assms(5) by (simp add: keeps)
  from bind_any_address [OF keeps(1) [OF assms(3)] a] obtain p ps
    where b: "bind_any k target w2 = Inr ((success, Endpoint a p), ps)"
      and ps: "tcp_lookup ps = (tcp_lookup (w_ports w2))(Endpoint a p \<mapsto> k)" "tcp_lookup (w_ports w2) (Endpoint a p) = None"
    by blast
  have ne: "Endpoint a p \<noteq> target" using ps(2) assms(6) by (auto simp: keeps)
  have found: "om_find target (m_listen_sockets ps) = Some r"
    using ps(1) ne assms(6) by (auto simp: keeps tcp_lookup_def fun_eq_iff)
  note hs = handshake [where h = "\<lambda>ec. App (ev ?op ec)" and ha = ha and here = "Endpoint a p",
      OF _ f _ b ne found assms(7) refl assms(8) wr]
  have con: "connectable k (ep_address (Endpoint a p)) target r fr j ha sout sin rout rin net w2"
    using assms(4) u unfolding connectable_def unconnected_at_def
    by (auto simp: tcp_fresh_def accepting_def node_routes_def)
  have time: "now (w_sched w2) = t0" "w_queues w2 = w_queues w" "w_mem w2 = w_mem w" "quiet w2"
    using u by (simp_all add: unconnected_at_def)
  obtain w3 w' where w3: "async_connect ?fwd k target (Some (\<lambda>ec. App (ev ?op ec))) w2 = Inr w3" "running w3"
    "leads app n (4 * (length (sout @ net @ rin) + length (rout @ net @ sin)) + 2) w3 w'" "quiet w'"
    "now (w_sched w') = t2" "w_mem w' = gc t2 (ga t1 (w_mem w2))"
    "connected k j (Endpoint a p) target (sout @ net @ rin) (rout @ net @ sin) w'"
    using hs [OF time(4) con n, of t1 t2] assms(11,12) unfolding time by blast
  have "attempt ev ?fwd ?op w2 = Inr w3" using w3(1) by (simp add: attempt_def)
  then show ?thesis using w3(2-) time(3) by metis
qed

text \<open>
  C9. Connecting to a range in which somebody accepts: the endpoints in front, where nobody does, are
  tried first and take their times; then the connection to the first that accepts is established
  like a single one; the handler is called once, with success and the iterator at that endpoint, and
  the endpoints behind it are not tried.
\<close>

theorem connect_range_reaches:
  fixes w :: "'u world"
  assumes "quiet w" and "tcp_fresh k w" and "can_bind k w" and "\<forall>ep \<in> set eps. refused ep w"
    and "connectable k a target r fr j ha sout sin rout rin net w" and "address_for k target w = Some a"
    and "tcp_lookup (w_ports w) target = Some r"
    and "dispatches app ev (forward_packet n) h"
    and "\<forall>v. h success (target # others) v = Inr (v\<lparr>w_mem := gc (now (w_sched v)) (w_mem v)\<rparr>)"
    and "ha success = App ua" and "writes app ua ga"
    and "2 * length eps + 4 * (length (sout @ net @ rin) + length (rout @ net @ sin)) + 2 \<le> n" and "n \<le> 1000" and "n + 1 < fuel"
    and "t1 = now (w_sched w) + attempts_time k eps w + path_time (w_queues w) (syn_packet target 0) (sout @ net @ rin)"
    and "t2 = t1 + path_time (w_queues w) (syn_packet target 0) (rout @ net @ sin)"
  shows "\<exists>w1 count w' p. async_connect_range ev (forward_packet n) h k (eps @ target # others) w = Inr w1 \<and>
    run app n fuel w1 = Inr (Returned count, w') \<and> now (w_sched w') = t2 \<and>
    w_mem w' = gc t2 (ga t1 (w_mem w)) \<and>
    connected k j (Endpoint a p) target (sout @ net @ rin) (rout @ net @ sin) w'"
proof -
  let ?fwd = "forward_packet n" and ?op = "\<lparr>op_socket = k, op_iter = target # others\<rparr>"
  let ?m = "4 * (length (sout @ net @ rin) + length (rout @ net @ sin)) + 2"
  let ?P = "\<lambda>w'. quiet w' \<and> now (w_sched w') = t2 \<and> w_mem w' = gc t2 (ga t1 (w_mem w)) \<and>
    (\<exists>p. connected k j (Endpoint a p) target (sout @ net @ rin) (rout @ net @ sin) w')"
  note app = assms(8) [unfolded dispatches_def, rule_format]
  have wr: "writes app (ev ?op success) gc" using assms(9) by (simp add: writes_def app on_connect_def)
  have acc: "w_acceptors w k = None" using assms(5) by (simp add: connectable_def)
  have n: "1 < n" using assms(12) by simp
  have conn: "\<exists>w3 w'. attempt ev ?fwd ?op w2 = Inr w3 \<and> running w3 \<and> leads app n ?m w3 w' \<and> ?P w'"
    if "unconnected_at k (now (w_sched w) + attempts_time k eps w) w w2" and "tcp_fresh k w2" for w2
    by (rule attempt_connects [where ha = ha and ev = ev, OF that assms(3,5-7,10,11) wr n assms(15,16)])
  from refused_then [OF assms(1,2) acc assms(3,4) app _ conn] obtain w1 w'
    where w1: "attempt ev ?fwd \<lparr>op_socket = k, op_iter = eps @ target # others\<rparr> w = Inr w1"
      "leads app n (?m + 2 * length eps) w1 w'" "?P w'"
    by blast
  have "\<exists>count. run app n fuel w1 = Inr (Returned count, w')"
    using w1(3) assms(12-14) by (intro run_steps [OF w1(2) quiet_finished]) linarith+
  moreover have "async_connect_range ev ?fwd h k (eps @ target # others) w = Inr w1"
    using w1(1) by (simp add: async_connect_range_def)
  ultimately show ?thesis using w1(3) by blast
qed

text \<open>An application with a handler for the range and one for the acceptor, which count.\<close>

definition count_call :: "nat \<Rightarrow> int \<Rightarrow> memory \<Rightarrow> memory" where
  "count_call i t m = m(i := m i + 1)"

definition count_range :: "(connect_op \<times> error_code) option range_handler" where
  "count_range ec its w = Inr (w\<lparr>w_mem := count_call (length its) (now (w_sched w)) (w_mem w)\<rparr>)"

definition range_app :: "(connect_op \<times> error_code) option app" where
  "range_app u w = (case u of
       None \<Rightarrow> Inr (w\<lparr>w_mem := count_call 0 (now (w_sched w)) (w_mem w)\<rparr>)
     | Some (op, ec) \<Rightarrow> on_connect (\<lambda>op ec. Some (op, ec)) (forward_packet 40) count_range op ec w)"

lemma connect_range_reaches_witness:
  "\<exists>w w1 count w' p. async_connect_range (\<lambda>op ec. Some (op, ec)) (forward_packet 40) count_range 7
      [Endpoint (V4 20) 80, Endpoint (V4 20) 8080, Endpoint (V4 20) 81] w = Inr w1 \<and>
    run range_app 40 50 w1 = Inr (Returned count, w') \<and> now (w_sched w') = 230000000 \<and>
    w_mem w' = (w_mem w)(0 := w_mem w 0 + 1, 2 := w_mem w 2 + 1) \<and>
    connected 7 10 (Endpoint (V4 10) p) (Endpoint (V4 20) 8080) [1, 5, 4] [3, 5, 2] w'"
proof -
  let ?target = "Endpoint (V4 20) 8080" and ?eps = "[Endpoint (V4 20) 80]" and ?others = "[Endpoint (V4 20) 81]"
  let ?ev = "\<lambda>op ec. Some (op, ec)"
  define w :: "(connect_op \<times> error_code) option world" where "w = two_nodes\<lparr>
    w_tcp := (w_tcp two_nodes)(7 := new_tcp_socket 1, 10 := new_tcp_socket 2,
      8 := (new_tcp_socket 2)\<lparr>m_open := True, m_bound_to := ?target, m_forwarder := Some 9\<rparr>),
    w_forwarders := [9 \<mapsto> Tcp 8],
    w_acceptors := [8 \<mapsto> new_acceptor\<lparr>m_queue_size_limit := 20, m_accept_handler := Some (\<lambda>_. App None), m_accept_into := Some 10\<rparr>],
    w_ports := fresh_ports\<lparr>m_listen_sockets := [(?target, 8)]\<rparr>\<rparr>"
  note defs = w_def two_nodes_def new_world_def new_tcp_socket_def
  have "quiet w" using two_nodes_quiet by (simp add: w_def quiet_def)
  moreover have "tcp_fresh 7 w" by (simp add: defs tcp_fresh_def no_handlers_def)
  moreover have "can_bind 7 w" by (auto simp: defs can_bind_def default_address_def tcp_lookup_def fresh_ports_def om_find_def
        om_lower_bound_def wf_ports_def om_invar_def)
  moreover have "\<forall>ep \<in> set ?eps. refused ep w"
    by (simp add: defs refused_def tcp_lookup_def fresh_ports_def om_find_def om_lower_bound_def)
  moreover have "connectable 7 (V4 10) ?target 8 9 10 (\<lambda>_. App None) [1] [2] [3] [4] [5] w"
    by (simp add: connectable_def defs node_routes_def tcp_fresh_def no_handlers_def accepting_def new_acceptor_def free_for_def)
  moreover have "address_for 7 ?target w = Some (V4 10)" by (simp add: address_for_def node_address_def defs)
  moreover have "tcp_lookup (w_ports w) ?target = Some 8" by (simp add: defs tcp_lookup_def)
  moreover have "dispatches range_app ?ev (forward_packet 40) count_range" by (simp add: dispatches_def range_app_def)
  moreover have "\<forall>v. count_range success (?target # ?others) v = Inr (v\<lparr>w_mem := count_call 2 (now (w_sched v)) (w_mem v)\<rparr>)"
    by (simp add: count_range_def numeral_2_eq_2)
  moreover have "(\<lambda>_. App None) success = App None" by simp
  moreover have "writes range_app None (count_call 0)" by (simp add: writes_def range_app_def)
  moreover have "2 * length ?eps + 4 * (length ([1] @ [5] @ [4] :: nat list) + length ([3] @ [5] @ [2] :: nat list)) + 2 \<le> 40"
    "(40 :: nat) \<le> 1000" "(40 :: nat) + 1 < 50"
    by simp_all
  moreover have "140000000 = now (w_sched w) + attempts_time 7 ?eps w + path_time (w_queues w) (syn_packet ?target 0) ([1] @ [5] @ [4])"
    "230000000 = 140000000 + path_time (w_queues w) (syn_packet ?target 0) ([3] @ [5] @ [2])"
    by (simp_all add: defs hop_time_def now_def attempts_time_def attempt_time_def address_for_def node_address_def)
  ultimately have "\<exists>w1 count w' p. async_connect_range ?ev (forward_packet 40) count_range 7 (?eps @ ?target # ?others) w = Inr w1 \<and>
    run range_app 40 50 w1 = Inr (Returned count, w') \<and> now (w_sched w') = 230000000 \<and>
    w_mem w' = count_call 2 230000000 (count_call 0 140000000 (w_mem w)) \<and>
    connected 7 10 (Endpoint (V4 10) p) ?target ([1] @ [5] @ [4]) ([3] @ [5] @ [2]) w'"
    by (rule connect_range_reaches)
  then obtain w1 count w' p where "async_connect_range ?ev (forward_packet 40) count_range 7 (?eps @ ?target # ?others) w = Inr w1"
    "run range_app 40 50 w1 = Inr (Returned count, w')" "now (w_sched w') = 230000000"
    "w_mem w' = (w_mem w)(0 := w_mem w 0 + 1, 2 := w_mem w 2 + 1)"
    "connected 7 10 (Endpoint (V4 10) p) ?target [1, 5, 4] [3, 5, 2] w'"
    by (auto simp: count_call_def)
  then show ?thesis unfolding append_Cons append_Nil by blast
qed

end
