(* ===== verification/Tcp_Transfer.thy ===== *)
theory Tcp_Transfer
  imports Tcp_Connect
begin

text \<open>
  One segment over an established connection, end to end: \<open>async_write_some\<close> on one side, an
  \<open>async_read_some\<close> waiting on the other, the packet and its acknowledgement on their ways through
  the queues, and the event loop that runs it all.
\<close>

section \<open>An idle connection\<close>

text \<open>
  Nothing under way from \<open>k\<close> to \<open>j\<close>: everything sent has been acknowledged and read, nothing waits to
  be sent again, and the congestion window has room for a segment.
\<close>

definition idle_stream :: "nat \<Rightarrow> nat \<Rightarrow> 'u world \<Rightarrow> bool" where
  "idle_stream k j w \<longleftrightarrow> (let s = w_tcp w k; r = w_tcp w j in
    m_next_incoming_seq r = m_next_outgoing_seq s \<and> m_reorder_buffer r = Map.empty \<and> m_incoming_queue r = [] \<and>
    m_outgoing_packets s = [] \<and> m_outstanding_packet_sizes s = Map.empty \<and> m_bytes_in_flight s = 0 \<and>
    0 < m_mss s \<and> m_mss s \<le> m_cwnd s \<and> m_send_handler s = None \<and> m_wait_send_handler s = None)"

lemma linked_idx:
  assumes "linked c i k j here there forth homeward w"
  shows "self_idx (w_channels w c) here = Inr i" "remote_idx (w_channels w c) here = Inr (1 - i)"
    "remote_idx (w_channels w c) there = Inr i"
proof -
  have "i = 0 \<or> i = 1" using assms by (auto simp: linked_def)
  then show "self_idx (w_channels w c) here = Inr i" "remote_idx (w_channels w c) here = Inr (1 - i)"
    "remote_idx (w_channels w c) there = Inr i"
    using assms by (auto simp: linked_def self_idx_def remote_idx_def)
qed

lemma linked_cong:
  assumes "linked c i k j here there forth homeward w"
    and "\<And>x. x = k \<or> x = j \<Longrightarrow> m_open (w_tcp w' x) = m_open (w_tcp w x) \<and> m_bound_to (w_tcp w' x) = m_bound_to (w_tcp w x) \<and>
      m_channel (w_tcp w' x) = m_channel (w_tcp w x) \<and> m_connect_handler (w_tcp w' x) = m_connect_handler (w_tcp w x)"
    and "w_acceptors w' = w_acceptors w" and "w_forwarders w' = w_forwarders w"
    and "c_ep (w_channels w' c) = c_ep (w_channels w c)" and "c_hops (w_channels w' c) = c_hops (w_channels w c)"
  shows "linked c i k j here there forth homeward w'"
  using assms by (simp add: linked_def end_of_def way_def Let_def)

section \<open>The segment leaves\<close>

lemma mem_upd:
  "(upd_tcp k f w)\<lparr>w_mem := m\<rparr> = upd_tcp k f (w\<lparr>w_mem := m\<rparr>)" "(in_queue q p w)\<lparr>w_mem := m\<rparr> = in_queue q p (w\<lparr>w_mem := m\<rparr>)"
  by (cases w, simp add: upd_tcp_def) (cases w, simp add: in_queue_def enqueue_def upd_queue_def)

definition segment :: "nat \<Rightarrow> nat \<Rightarrow> nat \<Rightarrow> byte list \<Rightarrow> 'u world \<Rightarrow> packet" where
  "segment c i k bs w = (payload_packet k [] bs (w_tcp w k))\<lparr>p_byte_counter := c_bytes_sent (w_channels w c) i\<rparr>"

lemma segment_sel [simp]:
  "p_type (segment c i k bs w) = Payload" "p_buffer (segment c i k bs w) = bs"
  "p_seq_nr (segment c i k bs w) = m_next_outgoing_seq (w_tcp w k)"
  "packet_size (segment c i k bs w) = int (length bs) + 40"
  by (simp_all add: segment_def payload_packet_def packet_size_def)

definition sent_one :: "nat \<Rightarrow> nat \<Rightarrow> nat \<Rightarrow> nat \<Rightarrow> 'u world \<Rightarrow> 'u world" where
  "sent_one c i k len w =
    upd_channel c (\<lambda>ch. ch\<lparr>c_bytes_sent := (c_bytes_sent ch)(i := c_bytes_sent ch i + word_of_nat len)\<rparr>)
      (upd_tcp k (\<lambda>s. s\<lparr>m_next_outgoing_seq := m_next_outgoing_seq s + 1, m_bytes_in_flight := int len,
        m_outstanding_packet_sizes := [m_next_outgoing_seq s \<mapsto> int len], m_send_buffer := [],
        m_send_null_buffers := False\<rparr>) w)"

lemma sent_one_sel [simp]:
  "w_sched (sent_one c i k len w) = w_sched w" "w_queues (sent_one c i k len w) = w_queues w"
  "w_forwarders (sent_one c i k len w) = w_forwarders w" "w_acceptors (sent_one c i k len w) = w_acceptors w"
  "w_mem (sent_one c i k len w) = w_mem w" "w_pcap (sent_one c i k len w) = w_pcap w"
  "w_tcp (sent_one c i k len w) = (w_tcp w)(k := (w_tcp w k)\<lparr>m_next_outgoing_seq := m_next_outgoing_seq (w_tcp w k) + 1,
    m_bytes_in_flight := int len, m_outstanding_packet_sizes := [m_next_outgoing_seq (w_tcp w k) \<mapsto> int len],
    m_send_buffer := [], m_send_null_buffers := False\<rparr>)"
  "c_ep (w_channels (sent_one c i k len w) c) = c_ep (w_channels w c)"
  "c_hops (w_channels (sent_one c i k len w) c) = c_hops (w_channels w c)"
  "quiet (sent_one c i k len w) = quiet w"
  by (simp_all add: sent_one_def quiet_def)

lemma post_upd_tcp: "upd_tcp k f (post_job j w) = post_job j (upd_tcp k f w)"
  by (cases w) (simp add: post_job_def upd_sched_def upd_tcp_def)

lemma segment_leaves:
  assumes "quiet w" and l: "linked c i k j here there (q # qs) homeward w" and "idle_stream k j w" and "w_pcap w = None"
    and "0 < len" and "int len \<le> m_mss (w_tcp w k)" and "0 < n"
    and "free_for (segment c i k (load (w_mem w) a len) w) (w_queues w q)"
    and "c_hops (w_channels w c) (1 - i) = map sink.Queue (q # qs) @ [Forwarder f]"
  shows "async_write_some (forward_packet n) k [(a, len)] (Some h) w =
    Inr (post_job (h success len) (in_queue q ((segment c i k (load (w_mem w) a len) w)
      \<lparr>p_hops := map sink.Queue qs @ [Forwarder f]\<rparr>) (sent_one c i k len w)))"
proof -
  let ?hops = "map sink.Queue (q # qs) @ [Forwarder f]"
  define s where "s = w_tcp w k"
  define w0 where "w0 = upd_tcp k (\<lambda>s. s\<lparr>m_send_handler := None, m_wait_send_handler := None, m_send_buffer := [],
    m_send_null_buffers := False\<rparr>) w"
  define w1 where "w1 = sent_one c i k len w"
  let ?p = "segment c i k (load (w_mem w) a len) w"
  have s: "m_open s" "m_bound_to s = here" "m_channel s = Some c" "m_connect_handler s = None" "m_send_handler s = None"
    "m_wait_send_handler s = None" "m_bytes_in_flight s = 0" "0 < m_mss s" "m_mss s \<le> m_cwnd s"
    "m_outstanding_packet_sizes s = Map.empty"
    using l assms(3) by (simp_all add: linked_def end_of_def idle_stream_def s_def Let_def)
  note idx = linked_idx [OF l]
  have ab: "abort_send_handlers k w = w0"
    using s by (simp add: abort_send_handlers_def s_def w0_def Let_def)
  have fwd: "forward_packet n (?p\<lparr>p_hops := ?hops\<rparr>) w1 = Inr (in_queue q (?p\<lparr>p_hops := map sink.Queue qs @ [Forwarder f]\<rparr>) w1)"
    using forward_queue [of w1 ?p q n "map sink.Queue qs @ [Forwarder f]"] assms(1,7,8) by (simp add: w1_def)
  have send: "send_packet (forward_packet n) k (payload_packet k ?hops (load (w_mem w0) a len) (w_tcp w0 k))
      (upd_tcp k (\<lambda>s. s\<lparr>m_next_outgoing_seq := m_next_outgoing_seq s + 1\<rparr>) w0) =
      forward_packet n (?p\<lparr>p_hops := ?hops\<rparr>) w1"
  proof -
    have "s\<lparr>m_send_handler := None, m_wait_send_handler := None, m_send_buffer := [], m_send_null_buffers := False,
        m_next_outgoing_seq := m_next_outgoing_seq s + 1, m_bytes_in_flight := m_bytes_in_flight s + int len,
        m_outstanding_packet_sizes := (m_outstanding_packet_sizes s)(m_next_outgoing_seq s \<mapsto> int len)\<rparr> =
      s\<lparr>m_next_outgoing_seq := m_next_outgoing_seq s + 1, m_bytes_in_flight := int len,
        m_outstanding_packet_sizes := [m_next_outgoing_seq s \<mapsto> int len], m_send_buffer := [], m_send_null_buffers := False\<rparr>"
      using s(5-7,10) by (cases s) simp
    then have "upd_channel c (\<lambda>_. (w_channels w c)\<lparr>c_bytes_sent := (c_bytes_sent (w_channels w c))
        (i := c_bytes_sent (w_channels w c) i + word_of_nat len)\<rparr>) (upd_tcp k (\<lambda>x. x\<lparr>m_send_handler := None,
          m_wait_send_handler := None, m_send_buffer := [], m_send_null_buffers := False,
          m_next_outgoing_seq := m_next_outgoing_seq x + 1, m_bytes_in_flight := m_bytes_in_flight x + int len,
          m_outstanding_packet_sizes := (m_outstanding_packet_sizes x)(m_next_outgoing_seq s \<mapsto> int len)\<rparr>) w) = w1"
      unfolding w1_def sent_one_def s_def by (simp add: upd_channel_def upd_tcp_def)
    then show ?thesis
      using s(2,3) assms(4) idx(1)
      by (simp add: send_packet_def w0_def write_log_def upd_tcp_comp Let_def segment_def payload_packet_def
          s_def [symmetric] new_packet_def)
  qed
  let ?w2 = "in_queue q (?p\<lparr>p_hops := map sink.Queue qs @ [Forwarder f]\<rparr>) w1"
  have w0: "w_tcp w0 k = s\<lparr>m_send_handler := None, m_wait_send_handler := None, m_send_buffer := [], m_send_null_buffers := False\<rparr>"
    "w_channels w0 = w_channels w"
    by (simp_all add: w0_def s_def)
  have "min len (nat (m_mss s)) = len" using assms(6) by (simp add: s_def)
  with send have "write_buffers (forward_packet n) k ?hops [(a, len)] 0 w0 = Inr (len, ?w2)"
    using assms(5) s(8) by (simp add: write_buffer.simps [of _ _ _ a len] write_buffer.simps [of _ _ _ _ 0] w0(1) fwd [simplified] Let_def)
  then have some: "write_some_impl (forward_packet n) k [(a, len)] success w0 = Inr (len, success, ?w2)"
    using s assms(9) idx(2) by (simp add: write_some_impl_def w0 window_full_def Let_def)
  have "upd_tcp k (\<lambda>s. s\<lparr>m_send_handler := None, m_send_buffer := []\<rparr>) w1 = w1"
    using s(5) unfolding w1_def by (cases w, cases "w_tcp w k") (simp add: sent_one_def upd_tcp_def upd_channel_def s_def fun_upd_idem_iff)
  then show ?thesis
    unfolding async_write_some_def async_write_some_impl_def ab some
    by (simp add: post_upd_tcp in_queue_upd_tcp w1_def)
qed

section \<open>The segment arrives\<close>

definition received :: "nat \<Rightarrow> buffer list \<Rightarrow> byte list \<Rightarrow> 'u world \<Rightarrow> 'u world" where
  "received j bufs bs w = (upd_tcp j (\<lambda>s. s\<lparr>m_next_incoming_seq := m_next_incoming_seq s + 1, m_recv_handler := None,
      m_recv_buffer := [], m_queue_size := m_queue_size s - int (length bs)\<rparr>) w)
    \<lparr>w_mem := write_at (w_mem w) (take (length bs) (addrs bufs)) bs\<rparr>"

lemma received_sel [simp]:
  "w_sched (received j bufs bs w) = w_sched w" "w_queues (received j bufs bs w) = w_queues w"
  "w_forwarders (received j bufs bs w) = w_forwarders w" "w_acceptors (received j bufs bs w) = w_acceptors w"
  "w_channels (received j bufs bs w) = w_channels w" "w_pcap (received j bufs bs w) = w_pcap w"
  "w_mem (received j bufs bs w) = write_at (w_mem w) (take (length bs) (addrs bufs)) bs"
  "w_tcp (received j bufs bs w) = (w_tcp w)(j := (w_tcp w j)\<lparr>m_next_incoming_seq := m_next_incoming_seq (w_tcp w j) + 1,
    m_recv_handler := None, m_recv_buffer := [], m_queue_size := m_queue_size (w_tcp w j) - int (length bs)\<rparr>)"
  "quiet (received j bufs bs w) = quiet w"
  by (simp_all add: received_def quiet_def)

text \<open>The reader waits with the buffers \<open>bufs\<close>.\<close>

definition reading :: "nat \<Rightarrow> buffer list \<Rightarrow> 'u io_handler \<Rightarrow> 'u world \<Rightarrow> bool" where
  "reading j bufs h w \<longleftrightarrow> (let r = w_tcp w j in
    m_recv_handler r = Some h \<and> \<not> m_recv_null_buffers r \<and> m_recv_buffer r = bufs)"

lemma drain_empty: "drain_reorder n Map.empty = ([], n, Map.empty)"
  by (subst drain_reorder.simps) simp

lemma segment_read:
  assumes "m_open (w_tcp w j)" and "m_channel (w_tcp w j) = Some c" and "m_connect_handler (w_tcp w j) = None"
    and "m_incoming_queue (w_tcp w j) = [p]" and "p_type p = Payload" and "p_buffer p \<noteq> []"
    and "length (p_buffer p) \<le> buffer_size bufs"
  shows "read_some_impl j bufs w = Inr (length (p_buffer p), success, (upd_tcp j (\<lambda>s. s\<lparr>m_recv_buffer := bufs,
      m_incoming_queue := [], m_queue_size := m_queue_size s - int (length (p_buffer p))\<rparr>) w)
    \<lparr>w_mem := write_at (w_mem w) (take (length (p_buffer p)) (addrs bufs)) (p_buffer p)\<rparr>)"
proof -
  let ?d = "p_buffer p"
  have pos: "0 < buffer_size bufs" using assms(6,7) by (metis length_greater_0_conv less_le_trans)
  then have bufs: "bufs \<noteq> []" "0 < buffer_size bufs" by (auto simp: buffer_size_def)
  obtain bufs' off' d' m' n where cp: "copy_packet bufs 0 ?d (w_mem w) = (bufs', off', d', m', n)"
    by (metis prod_cases5)
  have "in_first bufs 0" by (auto simp: in_first_def split: list.split)
  from copy_packet_writes [OF cp this] have "n = length ?d" "d' = []" "m' = write_at (w_mem w) (take n (addrs bufs)) ?d"
    using assms(7) by (simp_all add: length_addrs min_absorb1)
  then have "read_loop bufs 0 [p] (w_mem w) 0 = Inr ([], write_at (w_mem w) (take (length ?d) (addrs bufs)) ?d, length ?d, None)"
    using assms(5) bufs(1) by (simp add: cp)
  then show ?thesis
    using assms bufs(2) by (simp add: read_some_impl_def Let_def)
qed

text \<open>The packet at the end of its way: the reader's handler is posted and the packet acknowledged.\<close>

lemma segment_arrives:
  assumes "quiet w" and l: "linked c i k j here there forth (q # qs) w"
    and "reading j bufs h w" and "m_incoming_queue (w_tcp w j) = []" and "m_reorder_buffer (w_tcp w j) = Map.empty"
    and "p_type p = Payload" and "p_buffer p \<noteq> []" and "length (p_buffer p) \<le> buffer_size bufs"
    and "p_seq_nr p = m_next_incoming_seq (w_tcp w j)" and "w_forwarders w fj = Some (Tcp j)"
    and "c_hops (w_channels w c) i = map sink.Queue (q # qs) @ [Forwarder fk]"
    and "free_for (ack_packet p []) (w_queues w q)" and "1 < n"
  shows "forward_packet n (p\<lparr>p_hops := [Forwarder fj]\<rparr>) w =
    Inr (post_job (h success (length (p_buffer p))) (in_queue q (ack_packet p (map sink.Queue qs @ [Forwarder fk]))
      (received j bufs (p_buffer p) w)))"
proof -
  obtain n' where n: "n = Suc n'" "0 < n'" using assms(13) by (cases n) auto
  let ?p = "p\<lparr>p_hops := []\<rparr>" and ?ack = "ack_packet p (map sink.Queue qs @ [Forwarder fk])"
  have r: "m_open (w_tcp w j)" "m_bound_to (w_tcp w j) = there" "m_channel (w_tcp w j) = Some c"
    "m_connect_handler (w_tcp w j) = None" "w_acceptors w j = None"
    using l by (simp_all add: linked_def end_of_def Let_def)
  have ack: "forward_packet n' (ack_packet ?p (c_hops (w_channels w c) i)) w = Inr (in_queue q ?ack w)"
    using forward_queue [OF assms(1,12) n(2), of "map sink.Queue qs @ [Forwarder fk]"] assms(11)
    by (simp add: ack_packet_def)
  define w1 where "w1 = upd_tcp j (\<lambda>s. s\<lparr>m_next_incoming_seq := m_next_incoming_seq s + 1, m_recv_handler := None,
    m_incoming_queue := [?p]\<rparr>) (in_queue q ?ack w)"
  have "incoming_data (forward_packet n') j ?p w = async_read_some_impl j bufs (Some h) w1"
    using assms(3-5,9) r linked_idx(3) [OF l] ack
    by (simp add: incoming_data_def channel_of_def drain_empty maybe_wakeup_reader_def reading_def Let_def upd_tcp_comp w1_def)
      (intro arg_cong [where f = "async_read_some_impl j bufs (Some h)"] upd_tcp_cong, cases "w_tcp w j", simp)
  have w1: "m_open (w_tcp w1 j)" "m_channel (w_tcp w1 j) = Some c" "m_connect_handler (w_tcp w1 j) = None"
    "m_incoming_queue (w_tcp w1 j) = [?p]"
    using r by (simp_all add: w1_def)
  have "0 < buffer_size bufs" using assms(7,8) by (metis length_greater_0_conv less_le_trans)
  then have "async_read_some_impl j bufs (Some h) w1 = Inr (upd_tcp j (\<lambda>s. s\<lparr>m_recv_handler := None, m_recv_buffer := []\<rparr>)
      (post_job (h success (length (p_buffer p))) ((upd_tcp j (\<lambda>s. s\<lparr>m_recv_buffer := bufs, m_incoming_queue := [],
        m_queue_size := m_queue_size s - int (length (p_buffer p))\<rparr>) w1)
        \<lparr>w_mem := write_at (w_mem w1) (take (length (p_buffer p)) (addrs bufs)) (p_buffer p)\<rparr>)))"
    using segment_read [OF w1] assms(6-8) by (simp add: async_read_some_impl_def)
  also have "\<dots> = Inr (post_job (h success (length (p_buffer p))) (in_queue q ?ack (received j bufs (p_buffer p) w)))"
    unfolding w1_def received_def mem_upd upd_tcp_comp in_queue_upd_tcp [symmetric] post_upd_tcp [symmetric]
    using assms(4) by (intro arg_cong [where f = Inr] upd_tcp_cong) (cases "w_tcp w j", simp)
  finally have read: "incoming_data (forward_packet n') j ?p w =
      Inr (post_job (h success (length (p_buffer p))) (in_queue q ?ack (received j bufs (p_buffer p) w)))"
    using \<open>incoming_data (forward_packet n') j ?p w = async_read_some_impl j bufs (Some h) w1\<close> by simp
  show ?thesis
    using assms(6,10) r(5) read unfolding n(1)
    by (simp add: pop_front_def sink_incoming_packet_def forwarder_incoming_packet_def socket_incoming_packet_def
        tcp_incoming_packet_def)
qed

section \<open>The acknowledgement\<close>

definition acked :: "nat \<Rightarrow> 64 word \<Rightarrow> int \<Rightarrow> 'u world \<Rightarrow> 'u world" where
  "acked k seq len w = upd_tcp k (\<lambda>s. s\<lparr>m_outstanding_packet_sizes := (m_outstanding_packet_sizes s)(seq := None),
    m_bytes_in_flight := m_bytes_in_flight s - len, m_cwnd := m_cwnd s + cdiv (m_mss s * len) (m_cwnd s)\<rparr>) w"

lemma ack_arrives:
  assumes "w_forwarders w f = Some (Tcp k)" and "w_acceptors w k = None"
    and "m_outstanding_packet_sizes (w_tcp w k) (p_seq_nr p) = Some len" and "len \<le> m_bytes_in_flight (w_tcp w k)"
    and "m_outgoing_packets (w_tcp w k) = []" and "0 < m_cwnd (w_tcp w k)" and "m_send_handler (w_tcp w k) = None"
    and "m_wait_send_handler (w_tcp w k) = None" and "1 < n"
  shows "forward_packet n (ack_packet p [Forwarder f]) w = Inr (acked k (p_seq_nr p) len w)"
proof -
  obtain n' where n: "n = Suc (Suc n')" using assms(9) by (metis One_nat_def less_imp_Suc_add add_Suc)
  let ?p = "(ack_packet p [Forwarder f])\<lparr>p_hops := []\<rparr>"
  have p: "p_type ?p = Ack" "p_seq_nr ?p = p_seq_nr p" by (simp_all add: ack_packet_def)
  have "incoming_ack (forward_packet (Suc n')) (Suc n') k ?p w = Inr (acked k (p_seq_nr p) len w)"
    using assms(3-8) p(2)
    by (simp add: incoming_ack_def maybe_wakeup_writer_def upd_tcp_comp acked_def Let_def)
  then show ?thesis
    using assms(1,2) unfolding n
    by (simp add: pop_front_def sink_incoming_packet_def forwarder_incoming_packet_def socket_incoming_packet_def
        tcp_incoming_packet_def ack_packet_def)
qed

section \<open>On their ways\<close>

lemma ack_size [simp]: "packet_size (ack_packet p h) = 20" "p_seq_nr (ack_packet p h) = p_seq_nr p"
  by (simp_all add: packet_size_def ack_packet_def new_packet_def)

lemma ack_hops: "ack_packet p h = (ack_packet p [])\<lparr>p_hops := h\<rparr>"
  by (simp add: ack_packet_def)

lemma segment_travels:
  assumes "quiet w" and l: "linked c i k j here there forth (q2 # qs2) w"
    and "reading j bufs h w" and "m_incoming_queue (w_tcp w j) = []" and "m_reorder_buffer (w_tcp w j) = Map.empty"
    and "p_type p = Payload" and "p_buffer p \<noteq> []" and "length (p_buffer p) \<le> buffer_size bufs"
    and "p_seq_nr p = m_next_incoming_seq (w_tcp w j)" and "w_forwarders w fj = Some (Tcp j)"
    and "c_hops (w_channels w c) i = map sink.Queue (q2 # qs2) @ [Forwarder fk]"
    and "distinct (q # qs)" and "\<forall>x \<in> set (q # qs). free_for p (w_queues w x)"
    and "free_for (ack_packet p []) (w_queues w q2)" and "q2 \<noteq> last (q # qs)" and "1 < n"
    and "h success (length (p_buffer p)) = App u" and "writes app u g"
    and "t = now (w_sched w) + path_time (w_queues w) p (q # qs)"
  shows "\<exists>w3. later t w w3 \<and> leads app n (4 * length (q # qs) + 1)
    (in_queue q (p\<lparr>p_hops := map sink.Queue qs @ [Forwarder fj]\<rparr>) w)
    (in_queue q2 (ack_packet p (map sink.Queue qs2 @ [Forwarder fk])) ((received j bufs (p_buffer p) w3)
      \<lparr>w_mem := g t (write_at (w_mem w) (take (length (p_buffer p)) (addrs bufs)) (p_buffer p))\<rparr>))"
proof -
  let ?ack = "ack_packet p (map sink.Queue qs2 @ [Forwarder fk])"
  let ?out = "\<lambda>w3. post_job (App u) (in_queue q2 ?ack (received j bufs (p_buffer p) w3))"
  have "\<exists>w3. later t w w3 \<and> leads app n (4 * length (q # qs))
      (in_queue q (p\<lparr>p_hops := map sink.Queue qs @ [Forwarder fj]\<rparr>) w) (?out w3)"
  proof (rule path_delivers [OF assms(1,12,13) _ assms(19)])
    fix w3 assume l3: "later t w w3"
    have "linked c i k j here there forth (q2 # qs2) w3"
      by (rule linked_cong [OF l]) (simp_all add: later_sel [OF l3])
    then show "forward_packet n (p\<lparr>p_hops := [Forwarder fj]\<rparr>) w3 = Inr (?out w3)"
      using segment_arrives [OF later_sel(1) [OF l3], of c i k j here there forth q2 qs2 bufs h p fj fk n] assms(3-11,14,16,17)
      by (simp add: reading_def later_sel(6-8) [OF l3] later_sel(16) [OF l3])
    show "w_queues (?out w3) (last (q # qs)) = w_queues w3 (last (q # qs))"
      using assms(15) [symmetric] by (simp add: in_queue_other del: last.simps)
    show "running (?out w3)"
      using in_queue_running [of "received j bufs (p_buffer p) w3" q2] later_sel(1) [OF l3] by (simp add: running_def)
  qed (use assms(16) in simp)
  then obtain w3 where l3: "later t w w3" and steps: "leads app n (4 * length (q # qs))
      (in_queue q (p\<lparr>p_hops := map sink.Queue qs @ [Forwarder fj]\<rparr>) w) (?out w3)"
    by blast
  have "leads app n 1 (?out w3) (in_queue q2 ?ack ((received j bufs (p_buffer p) w3)
      \<lparr>w_mem := g t (write_at (w_mem w) (take (length (p_buffer p)) (addrs bufs)) (p_buffer p))\<rparr>))"
    using memory_job_in_transit [OF assms(18), of "received j bufs (p_buffer p) w3" n] later_sel(1,2,11) [OF l3] by simp
  from leads_trans [OF steps this] l3 show ?thesis by blast
qed

lemma ack_travels:
  assumes "quiet w" and "w_forwarders w f = Some (Tcp k)" and "w_acceptors w k = None"
    and "m_outstanding_packet_sizes (w_tcp w k) (p_seq_nr p) = Some len" and "len \<le> m_bytes_in_flight (w_tcp w k)"
    and "m_outgoing_packets (w_tcp w k) = []" and "0 < m_cwnd (w_tcp w k)" and "m_send_handler (w_tcp w k) = None"
    and "m_wait_send_handler (w_tcp w k) = None" and "1 < n"
    and "distinct (q # qs)" and "\<forall>x \<in> set (q # qs). free_for (ack_packet p []) (w_queues w x)"
    and "t = now (w_sched w) + path_time (w_queues w) (ack_packet p []) (q # qs)"
  shows "\<exists>w3. later t w w3 \<and> leads app n (4 * length (q # qs))
    (in_queue q (ack_packet p (map sink.Queue qs @ [Forwarder f])) w) (acked k (p_seq_nr p) len w3)"
  unfolding ack_hops [of p "map sink.Queue qs @ [Forwarder f]"]
proof (rule path_delivers [OF assms(1,11,12) _ assms(13)])
  fix w3 assume l3: "later t w w3"
  show "forward_packet n ((ack_packet p [])\<lparr>p_hops := [Forwarder f]\<rparr>) w3 = Inr (acked k (p_seq_nr p) len w3)"
    using assms(2-10) unfolding ack_hops [symmetric] by (intro ack_arrives) (simp_all add: later_sel [OF l3])
  show "w_queues (acked k (p_seq_nr p) len w3) (last (q # qs)) = w_queues w3 (last (q # qs))"
    by (simp add: acked_def del: last.simps)
  show "running (acked k (p_seq_nr p) len w3)"
    using quiet_running [OF later_sel(1) [OF l3]] by (simp add: running_def acked_def)
qed (use assms(10) in simp)

section \<open>There and back\<close>

text \<open>Two ways of different queues, each of which takes a segment of \<open>len\<close> bytes.\<close>

definition clear_ways :: "nat \<Rightarrow> nat list \<Rightarrow> nat list \<Rightarrow> 'u world \<Rightarrow> bool" where
  "clear_ways len forth homeward w \<longleftrightarrow> forth \<noteq> [] \<and> homeward \<noteq> [] \<and> distinct forth \<and> distinct homeward \<and>
    hd homeward \<noteq> last forth \<and>
    (\<forall>q \<in> set (forth @ homeward). free_for (new_packet\<lparr>p_overhead := 40 + int len\<rparr>) (w_queues w q))"

lemma clear_ways_free:
  assumes "clear_ways len forth homeward w" and "x \<in> set (forth @ homeward)" and "packet_size p \<le> int len + 40"
  shows "free_for p (w_queues w x)"
proof -
  let ?p = "new_packet\<lparr>p_overhead := 40 + int len\<rparr>"
  have "free_for ?p (w_queues w x)" using assms(1,2) by (simp add: clear_ways_def)
  moreover have "packet_size ?p = 40 + int len" by (simp add: packet_size_def new_packet_def)
  ultimately show ?thesis using assms(3) by (auto simp: free_for_def)
qed

text \<open>One segment under way, received but not yet acknowledged.\<close>

definition awaiting_ack :: "nat \<Rightarrow> nat \<Rightarrow> 64 word \<Rightarrow> nat \<Rightarrow> 'u world \<Rightarrow> bool" where
  "awaiting_ack k j seq len w \<longleftrightarrow> (let s = w_tcp w k; r = w_tcp w j in
    m_next_outgoing_seq s = seq + 1 \<and> m_bytes_in_flight s = int len \<and> m_outstanding_packet_sizes s = [seq \<mapsto> int len] \<and>
    m_outgoing_packets s = [] \<and> m_send_handler s = None \<and> m_wait_send_handler s = None \<and>
    0 < m_mss s \<and> m_mss s \<le> m_cwnd s \<and>
    m_next_incoming_seq r = seq + 1 \<and> m_reorder_buffer r = Map.empty \<and> m_incoming_queue r = [])"

lemma ack_time: "path_time x (ack_packet p h) qs = path_time x (ack_packet new_packet []) qs"
  by (rule path_time_size) simp

lemma ack_completes:
  assumes "quiet w" and l: "linked c i k j here there forth (q # qs) w" and st: "awaiting_ack k j (p_seq_nr p) len w"
    and "w_forwarders w f = Some (Tcp k)" and "distinct (q # qs)" and "\<forall>x \<in> set (q # qs). free_for (ack_packet p []) (w_queues w x)"
    and "1 < n" and "t = now (w_sched w) + path_time (w_queues w) (ack_packet new_packet []) (q # qs)"
  shows "\<exists>w'. leads app n (4 * length (q # qs)) (in_queue q (ack_packet p (map sink.Queue qs @ [Forwarder f])) w) w' \<and>
    quiet w' \<and> now (w_sched w') = t \<and> w_mem w' = w_mem w \<and> linked c i k j here there forth (q # qs) w' \<and> idle_stream k j w'"
proof -
  note st = st [unfolded awaiting_ack_def Let_def]
  have jk: "j \<noteq> k" "w_acceptors w k = None" using l by (simp_all add: linked_def end_of_def Let_def)
  have "t = now (w_sched w) + path_time (w_queues w) (ack_packet p []) (q # qs)"
    using assms(8) ack_time [of "w_queues w" p "[]" "q # qs"] by simp
  moreover have "0 < m_cwnd (w_tcp w k)" using st by simp
  ultimately obtain w5 where l5: "later t w w5" and lead: "leads app n (4 * length (q # qs))
      (in_queue q (ack_packet p (map sink.Queue qs @ [Forwarder f])) w) (acked k (p_seq_nr p) (int len) w5)"
    using ack_travels [OF assms(1,4) jk(2) _ _ _ _ _ _ assms(7,5,6), of "int len" t app] st by auto
  let ?w' = "acked k (p_seq_nr p) (int len) w5"
  have "0 \<le> cdiv (m_mss (w_tcp w k) * int len) (m_cwnd (w_tcp w k))"
    using st by (intro cdiv_mult_nonneg) simp_all
  then have "idle_stream k j ?w'"
    using st jk by (simp add: acked_def idle_stream_def later_sel(8) [OF l5] Let_def)
  moreover have "linked c i k j here there forth (q # qs) ?w'"
    by (rule linked_cong [OF l]) (simp_all add: acked_def later_sel [OF l5])
  moreover have "quiet ?w'" "now (w_sched ?w') = t" "w_mem ?w' = w_mem w"
    using later_sel(1,2,11) [OF l5] by (simp_all add: acked_def)
  ultimately show ?thesis using lead by blast
qed

lemma transfer:
  assumes "quiet w" and l: "linked c i k j here there forth homeward w" and idle: "idle_stream k j w"
    and "reading j bufs hr w" and "w_pcap w = None" and "0 < len" and "int len \<le> m_mss (w_tcp w k)"
    and "len \<le> buffer_size bufs" and "clear_ways len forth homeward w"
    and "hs success len = App us" and "hr success len = App ur" and "writes app us gs" and "writes app ur gr" and "1 < n"
    and t1: "t1 = now (w_sched w) + path_time (w_queues w) (segment c i k (load (w_mem w) a len) w) forth"
    and t2: "t2 = t1 + path_time (w_queues w) (ack_packet new_packet []) homeward"
  shows "\<exists>w1 w'. async_write_some (forward_packet n) k [(a, len)] (Some hs) w = Inr w1 \<and>
    leads app n (4 * (length forth + length homeward) + 2) w1 w' \<and> quiet w' \<and> now (w_sched w') = t2 \<and>
    w_mem w' = gr t1 (write_at (gs (now (w_sched w)) (w_mem w)) (take len (addrs bufs)) (load (w_mem w) a len)) \<and>
    linked c i k j here there forth homeward w' \<and> idle_stream k j w'"
proof -
  note cl = assms(9) [unfolded clear_ways_def]
  obtain q qs where p1: "forth = q # qs" using cl by (cases forth) auto
  obtain q2 qs2 where p2: "homeward = q2 # qs2" using cl by (cases homeward) auto
  let ?bs = "load (w_mem w) a len"
  define p where "p = segment c i k ?bs w"
  have p: "p_type p = Payload" "p_buffer p = ?bs" "p_seq_nr p = m_next_outgoing_seq (w_tcp w k)" "packet_size p = int len + 40"
    "length ?bs = len" "?bs \<noteq> []"
    using assms(6) by (simp_all add: p_def load_def)
  note free = clear_ways_free [OF assms(9)]
  obtain fj where fj: "c_hops (w_channels w c) (1 - i) = map sink.Queue (q # qs) @ [Forwarder fj]" "w_forwarders w fj = Some (Tcp j)"
    using l by (auto simp: linked_def way_def p1)
  obtain fk where fk: "c_hops (w_channels w c) i = map sink.Queue (q2 # qs2) @ [Forwarder fk]" "w_forwarders w fk = Some (Tcp k)"
    using l by (auto simp: linked_def way_def p2)
  have jk: "j \<noteq> k" using l by (simp add: linked_def)
  define ws where "ws = sent_one c i k len w"
  define wa where "wa = ws\<lparr>w_mem := gs (now (w_sched w)) (w_mem w)\<rparr>"
  have wr: "async_write_some (forward_packet n) k [(a, len)] (Some hs) w =
      Inr (post_job (App us) (in_queue q (p\<lparr>p_hops := map sink.Queue qs @ [Forwarder fj]\<rparr>) ws))"
    using segment_leaves [OF assms(1) l [unfolded p1] idle assms(5-7) _ _ fj(1), of n a hs] free [of q p] assms(10,14) p(4) p1
    by (simp add: p_def ws_def)
  have lead0: "leads app n 1 (post_job (App us) (in_queue q (p\<lparr>p_hops := map sink.Queue qs @ [Forwarder fj]\<rparr>) ws))
      (in_queue q (p\<lparr>p_hops := map sink.Queue qs @ [Forwarder fj]\<rparr>) wa)"
    using memory_job_in_transit [OF assms(12), of ws n] assms(1) by (simp add: wa_def ws_def)
  have wa: "quiet wa" "w_queues wa = w_queues w" "now (w_sched wa) = now (w_sched w)" "w_tcp wa j = w_tcp w j"
    "w_forwarders wa = w_forwarders w" "c_hops (w_channels wa c) = c_hops (w_channels w c)" "w_acceptors wa = w_acceptors w"
    "w_mem wa = gs (now (w_sched w)) (w_mem w)"
    using assms(1) jk by (simp_all add: wa_def ws_def quiet_def)
  have la: "linked c i k j here there forth homeward wa"
    by (rule linked_cong [OF l]) (simp_all add: wa_def ws_def)
  have time: "t1 = now (w_sched wa) + path_time (w_queues wa) p (q # qs)"
    by (simp only: t1 wa(2,3) p1 p_def)
  have "\<exists>w3. later t1 wa w3 \<and> leads app n (4 * length (q # qs) + 1)
    (in_queue q (p\<lparr>p_hops := map sink.Queue qs @ [Forwarder fj]\<rparr>) wa)
    (in_queue q2 (ack_packet p (map sink.Queue qs2 @ [Forwarder fk])) ((received j bufs (p_buffer p) w3)
      \<lparr>w_mem := gr t1 (write_at (w_mem wa) (take (length (p_buffer p)) (addrs bufs)) (p_buffer p))\<rparr>))"
    using idle assms(4,6,8,11,14) p cl fj(2) fk(1) free
    by (intro segment_travels [OF wa(1) la [unfolded p2], where h = hr and u = ur and g = gr])
      (auto simp: wa p1 p2 idle_stream_def reading_def Let_def assms(13) time simp del: last.simps)
  then obtain w3 where l3: "later t1 wa w3" and lead1: "leads app n (4 * length (q # qs) + 1)
    (in_queue q (p\<lparr>p_hops := map sink.Queue qs @ [Forwarder fj]\<rparr>) wa)
    (in_queue q2 (ack_packet p (map sink.Queue qs2 @ [Forwarder fk])) ((received j bufs ?bs w3)
      \<lparr>w_mem := gr t1 (write_at (w_mem wa) (take len (addrs bufs)) ?bs)\<rparr>))"
    unfolding p(2,5) by blast
  define wb where "wb = (received j bufs ?bs w3)\<lparr>w_mem := gr t1 (write_at (w_mem wa) (take len (addrs bufs)) ?bs)\<rparr>"
  have sk: "w_tcp wb k = w_tcp ws k" "w_tcp wb j = (w_tcp w j)\<lparr>m_next_incoming_seq := m_next_incoming_seq (w_tcp w j) + 1,
      m_recv_handler := None, m_recv_buffer := [], m_queue_size := m_queue_size (w_tcp w j) - int len\<rparr>"
    using jk p(5) by (simp_all add: wb_def later_sel(8) [OF l3] wa_def ws_def)
  have wb: "quiet wb" "now (w_sched wb) = t1" "w_forwarders wb = w_forwarders w"
    "w_mem wb = gr t1 (write_at (gs (now (w_sched w)) (w_mem w)) (take len (addrs bufs)) ?bs)"
    using later_sel(1,2,6) [OF l3] wa by (simp_all add: wb_def quiet_def)
  have qs: "free_for x (w_queues wb y) = free_for x (w_queues w y)" "hop_time (w_queues wb y) x = hop_time (w_queues w y) x"
    "path_time (w_queues wb) x ys = path_time (w_queues w) x ys" for x y ys
    by (simp_all add: wb_def path_time_def later_sel(16,17) [OF l3] wa(2))
  have "linked c i k j here there forth (q2 # qs2) wb"
    by (rule linked_cong [OF l [unfolded p2]]) (use jk in \<open>auto simp: sk ws_def wb_def later_sel(6-9) [OF l3] wa_def\<close>)
  moreover have "awaiting_ack k j (p_seq_nr p) len wb"
    using idle p(3) by (simp add: awaiting_ack_def sk ws_def idle_stream_def Let_def)
  ultimately obtain w' where lead2: "leads app n (4 * length (q2 # qs2)) (in_queue q2 (ack_packet p (map sink.Queue qs2 @ [Forwarder fk])) wb) w'"
    and w': "quiet w'" "now (w_sched w') = t2" "w_mem w' = w_mem wb" "linked c i k j here there forth (q2 # qs2) w'" "idle_stream k j w'"
    using ack_completes [OF wb(1) _ _ _ _ _ assms(14), of c i k j here there forth q2 qs2 p len fk t2 app] fk(2) cl free
    by (auto simp: wb(2,3) qs p2 t2)
  have "leads app n (4 * (length forth + length homeward) + 2)
      (post_job (App us) (in_queue q (p\<lparr>p_hops := map sink.Queue qs @ [Forwarder fj]\<rparr>) ws)) w'"
    using leads_trans [OF lead0 leads_trans [OF lead1 [folded wb_def] lead2]] by (simp add: p1 p2 algebra_simps)
  then show ?thesis using wr w' wb(4) by (auto simp: p2)
qed

text \<open>
  C4. A segment is delivered and acknowledged. On an idle connection with a reader waiting, over a
  quiet network, \<open>async_write_some\<close> of at most one segment calls the writer's handler at once with the
  whole length, the reader's handler when the segment has spent its time in the queues on its way,
  with the bytes in the reader's buffers, and \<open>run\<close> returns when the acknowledgement is back; then
  the connection is idle again, whatever the two handlers have done to memory.
\<close>

theorem tcp_segment_delivered:
  fixes w :: "'u world" and g :: "'u \<Rightarrow> int \<Rightarrow> memory \<Rightarrow> memory"
  assumes "quiet w" and "linked c i k j here there forth homeward w" and "idle_stream k j w"
    and "reading j bufs hr w" and "w_pcap w = None" and "0 < len" and "int len \<le> m_mss (w_tcp w k)"
    and "len \<le> buffer_size bufs" and "clear_ways len forth homeward w"
    and "hs success len = App us" and "hr success len = App ur"
    and "4 * (length forth + length homeward) + 2 \<le> n" and "n \<le> 1000" and "n + 1 < fuel"
    and "t1 = now (w_sched w) + path_time (w_queues w) (segment c i k (load (w_mem w) a len) w) forth"
    and "t2 = t1 + path_time (w_queues w) (ack_packet new_packet []) homeward"
  shows "\<exists>w1 count w'. async_write_some (forward_packet n) k [(a, len)] (Some hs) w = Inr w1 \<and>
    run (memory_app g) n fuel w1 = Inr (Returned count, w') \<and> now (w_sched w') = t2 \<and>
    w_mem w' = g ur t1 (write_at (g us (now (w_sched w)) (w_mem w)) (take len (addrs bufs)) (load (w_mem w) a len)) \<and>
    quiet w' \<and> linked c i k j here there forth homeward w' \<and> idle_stream k j w'"
proof -
  have n: "1 < n" using assms(12) by simp
  obtain w1 w' where w: "async_write_some (forward_packet n) k [(a, len)] (Some hs) w = Inr w1"
    "leads (memory_app g) n (4 * (length forth + length homeward) + 2) w1 w'" "quiet w'" "now (w_sched w') = t2"
    "w_mem w' = g ur t1 (write_at (g us (now (w_sched w)) (w_mem w)) (take len (addrs bufs)) (load (w_mem w) a len))"
    "linked c i k j here there forth homeward w'" "idle_stream k j w'"
    using transfer [where hs = hs and hr = hr, OF assms(1-11) writes_memory_app writes_memory_app n assms(15,16)] by blast
  moreover obtain count where "run (memory_app g) n fuel w1 = Inr (Returned count, w')"
    using run_steps [OF w(2) quiet_finished [OF w(3)]] assms(12-14) by fastforce
  ultimately show ?thesis by blast
qed

lemma tcp_segment_delivered_witness:
  "\<exists>w :: nat world. \<exists>w1 count w'. async_write_some (forward_packet 30) 7 [(100, 3)] (Some (\<lambda>_ n. App n)) w = Inr w1 \<and>
    run (memory_app (\<lambda>u t m. m(u := m u + 1))) 30 40 w1 = Inr (Returned count, w') \<and>
    load (w_mem w) 100 3 = [5, 6, 7] \<and> load (w_mem w') 201 3 = [5, 6, 7] \<and> idle_stream 7 10 w'"
proof -
  let ?here = "Endpoint (V4 10) 2000" and ?there = "Endpoint (V4 20) 8080"
  let ?g = "\<lambda>u t m. m(u := m u + 1) :: memory" and ?h = "\<lambda>_ n. App n"
  let ?ch = "new_channel ?here ?there (map sink.Queue [3, 5, 2] @ [Forwarder 8]) (map sink.Queue [1, 5, 4] @ [Forwarder 9]) 0"
  define w :: "nat world" where "w = two_nodes\<lparr>
    w_tcp := (w_tcp two_nodes)(
      7 := (new_tcp_socket 1)\<lparr>m_open := True, m_bound_to := ?here, m_channel := Some 6\<rparr>,
      10 := (new_tcp_socket 2)\<lparr>m_open := True, m_bound_to := ?there, m_channel := Some 6,
        m_recv_handler := Some ?h, m_recv_buffer := [(201, 2), (203, 2)]\<rparr>),
    w_channels := (w_channels two_nodes)(6 := ?ch), w_forwarders := [8 \<mapsto> Tcp 7, 9 \<mapsto> Tcp 10],
    w_mem := (\<lambda>_. 0)(100 := 5, 101 := 6, 102 := 7)\<rparr>"
  note defs = w_def two_nodes_def new_world_def new_tcp_socket_def
  have "quiet w" using two_nodes_quiet by (simp add: w_def quiet_def)
  moreover have "linked 6 0 7 10 ?here ?there [1, 5, 4] [3, 5, 2] w"
    by (simp add: linked_def end_of_def way_def defs new_channel_def)
  moreover have "idle_stream 7 10 w" by (simp add: idle_stream_def defs)
  moreover have "reading 10 [(201, 2), (203, 2)] ?h w" by (simp add: reading_def defs)
  moreover have "w_pcap w = None" by (simp add: defs)
  moreover have "0 < (3 :: nat)" "int 3 \<le> m_mss (w_tcp w 7)" "3 \<le> buffer_size [(201, 2), (203, 2)]"
    by (simp_all add: defs buffer_size_def)
  moreover have "clear_ways 3 [1, 5, 4] [3, 5, 2] w"
    by (simp add: clear_ways_def defs free_for_def packet_size_def new_packet_def)
  moreover have "?h success 3 = App 3" "?h success 3 = App 3"
    "4 * (length [1, 5, 4 :: nat] + length [3, 5, 2 :: nat]) + 2 \<le> 30" "(30 :: nat) \<le> 1000" "(30 :: nat) + 1 < 40"
    by simp_all
  ultimately obtain w1 count w' where "async_write_some (forward_packet 30) 7 [(100, 3)] (Some ?h) w = Inr w1"
    "run (memory_app ?g) 30 40 w1 = Inr (Returned count, w')" "idle_stream 7 10 w'"
    "w_mem w' = ?g 3 (now (w_sched w) + path_time (w_queues w) (segment 6 0 7 (load (w_mem w) 100 3) w) [1, 5, 4])
      (write_at (?g 3 (now (w_sched w)) (w_mem w)) (take 3 (addrs [(201, 2), (203, 2)])) (load (w_mem w) 100 3))"
    using tcp_segment_delivered [of w 6 0 7 10 ?here ?there "[1, 5, 4]" "[3, 5, 2]" "[(201, 2), (203, 2)]" ?h 3 ?h 3 3 30 40 _ 100 _ ?g]
    by blast
  moreover from this(4) have "load (w_mem w) 100 3 = [5, 6, 7]" "load (w_mem w') 201 3 = [5, 6, 7]"
    by (simp_all add: defs load_def upt_rec)
  ultimately show ?thesis by blast
qed

end
