(* ===== verification/Tcp_Session.thy ===== *)
theory Tcp_Session
  imports Tcp_Transfer
begin

text \<open>
  A TCP session from the beginning: the connection is made by one run of the event loop, then one side
  reads, the other writes, and a second run brings the bytes over.
\<close>

section \<open>Ready to talk\<close>

text \<open>A socket that has no packets of an earlier connection; \<open>close\<close> and \<open>open\<close> do not clear these.\<close>

definition pristine :: "nat \<Rightarrow> 'u world \<Rightarrow> bool" where
  "pristine k w \<longleftrightarrow> (let s = w_tcp w k in
    m_incoming_queue s = [] \<and> m_reorder_buffer s = Map.empty \<and> m_outgoing_packets s = [])"

lemma established_idle:
  assumes "established k j here there w w'" and "pristine k w" and "pristine j w"
    and "0 < path_mtu (w_config w) (ep_address here) (ep_address there)"
  shows "idle_stream k j w'"
  using assms by (simp add: established_def pristine_def idle_stream_def no_handlers_def Let_def)

lemma established_ways:
  assumes "established k j here there w w'"
  shows "clear_ways len forth homeward w' \<longleftrightarrow> clear_ways len forth homeward w"
    and "path_time (w_queues w') p qs = path_time (w_queues w) p qs"
  using assms by (simp_all add: established_def clear_ways_def path_time_def)

text \<open>A read on an idle stream waits.\<close>

lemma read_waits:
  assumes "quiet w" and "end_of j there c w" and "m_incoming_queue (w_tcp w j) = []"
    and "m_recv_handler (w_tcp w j) = None" and "m_wait_recv_handler (w_tcp w j) = None" and "0 < buffer_size bufs"
  shows "async_read_some j bufs (Some h) w = Inr (upd_tcp j (\<lambda>s. s\<lparr>m_recv_handler := Some h, m_recv_buffer := bufs,
    m_recv_null_buffers := False\<rparr>) w)"
proof -
  have e: "m_open (w_tcp w j)" "m_channel (w_tcp w j) = Some c" "m_connect_handler (w_tcp w j) = None"
    using assms(2) by (simp_all add: end_of_def Let_def)
  have "abort_recv_handlers j w = upd_tcp j (\<lambda>s. s\<lparr>m_recv_handler := None, m_wait_recv_handler := None, m_recv_buffer := [],
      m_recv_null_buffers := False\<rparr>) w"
    using assms(1,4,5) by (simp add: abort_recv_handlers_def Let_def)
  then show ?thesis
    using assms(3,5,6) e
    by (simp add: async_read_some_def async_read_some_impl_def read_some_impl_def upd_tcp_comp)
      (intro upd_tcp_cong, cases "w_tcp w j", simp)
qed

text \<open>After the handshake, with a read waiting, everything is there for a segment.\<close>

lemma ready_to_transfer:
  assumes "quiet w2" and "connected k j here there forth homeward w2" and est: "established k j here there w w2"
    and "pristine k w" and "pristine j w" and "w_pcap w = None" and "0 < len"
    and "int len \<le> path_mtu (w_config w) (ep_address here) (ep_address there)" and "len \<le> buffer_size bufs"
    and "clear_ways len forth homeward w"
  shows "\<exists>c w3. async_read_some j bufs (Some h) w2 = Inr w3 \<and> quiet w3 \<and> linked c 0 k j here there forth homeward w3 \<and>
    idle_stream k j w3 \<and> reading j bufs h w3 \<and> w_pcap w3 = None \<and> int len \<le> m_mss (w_tcp w3 k) \<and>
    clear_ways len forth homeward w3 \<and> w_sched w3 = w_sched w2 \<and> w_mem w3 = w_mem w2 \<and>
    (\<forall>p qs. path_time (w_queues w3) p qs = path_time (w_queues w) p qs)"
proof -
  obtain c where l: "linked c 0 k j here there forth homeward w2" using assms(2) by (auto simp: connected_def)
  have "0 < path_mtu (w_config w) (ep_address here) (ep_address there)" using assms(7,8) by linarith
  then have idle: "idle_stream k j w2" using est assms(4,5) by (intro established_idle)
  have est': "m_mss (w_tcp w2 k) = path_mtu (w_config w) (ep_address here) (ep_address there)" "w_pcap w2 = w_pcap w"
    "no_handlers (w_tcp w2 j)"
    using est by (simp_all add: established_def Let_def)
  define w3 where "w3 = upd_tcp j (\<lambda>s. s\<lparr>m_recv_handler := Some h, m_recv_buffer := bufs, m_recv_null_buffers := False\<rparr>) w2"
  have q: "w_queues w3 = w_queues w2" by (simp add: w3_def)
  have "async_read_some j bufs (Some h) w2 = Inr w3"
    unfolding w3_def using assms(1,7,9) l idle est'(3)
    by (intro read_waits) (auto simp: linked_def idle_stream_def no_handlers_def Let_def)
  moreover have "quiet w3" "idle_stream k j w3" "reading j bufs h w3" "w_pcap w3 = None" "int len \<le> m_mss (w_tcp w3 k)"
    "w_sched w3 = w_sched w2" "w_mem w3 = w_mem w2"
    using l assms(1,6,8) idle est'(1,2) by (simp_all add: w3_def idle_stream_def reading_def linked_def Let_def)
  moreover have "clear_ways len forth homeward w3" "\<forall>p qs. path_time (w_queues w3) p qs = path_time (w_queues w) p qs"
    using assms(10) established_ways(1) [OF est, of len forth homeward] established_ways(2) [OF est]
    unfolding clear_ways_def q by blast+
  moreover have "linked c 0 k j here there forth homeward w3"
    by (rule linked_cong [OF l]) (simp_all add: w3_def)
  ultimately show ?thesis by blast
qed

section \<open>The session\<close>

text \<open>
  C1. From two fresh sockets to delivered bytes: the connection is established by the first run; then
  the accepted socket reads and waits, the client writes, and after the second run the bytes the
  client had in memory are in the buffers of the reader. Each of the four handlers has been called
  once: the acceptor's and the client's when the SYN and the SYN+ACK have spent their times in the
  queues, the writer's at once, the reader's when the segment has.
\<close>

theorem tcp_session_delivers:
  fixes w :: "'u world" and g :: "'u \<Rightarrow> int \<Rightarrow> memory \<Rightarrow> memory"
  assumes "quiet w" and "tcp_fresh k w" and "connectable k (ep_address here) target r fr j ha sout sin rout rin net w"
    and "bind_any k target w = Inr ((success, here), ps)" and "here \<noteq> target" and "om_find target (m_listen_sockets ps) = Some r"
    and "ha success = App ua" and "h success = App uc" and "hs success len = App us" and "hr success len = App ur"
    and "pristine k w" and "pristine j w" and "w_pcap w = None"
    and "0 < len" and "int len \<le> path_mtu (w_config w) (ep_address here) (ep_address target)" and "len \<le> buffer_size bufs"
    and "clear_ways len (sout @ net @ rin) (rout @ net @ sin) w"
    and "4 * (length (sout @ net @ rin) + length (rout @ net @ sin)) + 2 \<le> n" and "n \<le> 1000" and "n + 1 < fuel"
    and "t1 = now (w_sched w) + path_time (w_queues w) (syn_packet target 0) (sout @ net @ rin)"
    and "t2 = t1 + path_time (w_queues w) (syn_packet target 0) (rout @ net @ sin)"
    and "t3 = t2 + path_time (w_queues w) (new_packet\<lparr>p_overhead := 40 + int len\<rparr>) (sout @ net @ rin)"
    and "t4 = t3 + path_time (w_queues w) (ack_packet new_packet []) (rout @ net @ sin)"
  defines "m \<equiv> g uc t2 (g ua t1 (w_mem w))"
  shows "\<exists>w1 c1 w2 w3 w4 c2 w5. async_connect (forward_packet n) k target (Some h) w = Inr w1 \<and>
    run (memory_app g) n fuel w1 = Inr (Returned c1, w2) \<and> now (w_sched w2) = t2 \<and> w_mem w2 = m \<and>
    async_read_some j bufs (Some hr) w2 = Inr w3 \<and> async_write_some (forward_packet n) k [(a, len)] (Some hs) w3 = Inr w4 \<and>
    run (memory_app g) n fuel w4 = Inr (Returned c2, w5) \<and> now (w_sched w5) = t4 \<and>
    w_mem w5 = g ur t3 (write_at (g us t2 m) (take len (addrs bufs)) (load m a len))"
proof -
  let ?forth = "sout @ net @ rin" and ?homeward = "rout @ net @ sin"
  have n: "1 < n" using assms(18) by simp
  obtain w1 w2 where con: "async_connect (forward_packet n) k target (Some h) w = Inr w1"
    "leads (memory_app g) n (4 * (length ?forth + length ?homeward) + 2) w1 w2" "quiet w2" "now (w_sched w2) = t2"
    "w_mem w2 = m" "connected k j here target ?forth ?homeward w2" and est: "established k j here target w w2"
    unfolding m_def
    using handshake [where h = h and ha = ha, OF assms(1-8) writes_memory_app writes_memory_app n assms(21,22)] by blast
  obtain c1 where run1: "run (memory_app g) n fuel w1 = Inr (Returned c1, w2)"
    using run_steps [OF con(2) quiet_finished [OF con(3)]] assms(18-20) by fastforce
  obtain c w3 where read: "async_read_some j bufs (Some hr) w2 = Inr w3"
    and w3: "quiet w3" "linked c 0 k j here target ?forth ?homeward w3" "idle_stream k j w3" "reading j bufs hr w3"
      "w_pcap w3 = None" "int len \<le> m_mss (w_tcp w3 k)" "clear_ways len ?forth ?homeward w3"
    and same: "w_sched w3 = w_sched w2" "w_mem w3 = w_mem w2"
    and path: "path_time (w_queues w3) p qs = path_time (w_queues w) p qs" for p qs
    using ready_to_transfer [OF con(3,6) est assms(11-17), of hr] by blast
  have "packet_size (segment c 0 k (load (w_mem w3) a len) w3) = packet_size (new_packet\<lparr>p_overhead := 40 + int len\<rparr>)"
    by (simp add: load_def) (simp add: packet_size_def new_packet_def)
  note size = path_time_size [OF this]
  have times: "t3 = now (w_sched w3) + path_time (w_queues w3) (segment c 0 k (load (w_mem w3) a len) w3) ?forth"
    "t4 = t3 + path_time (w_queues w3) (ack_packet new_packet []) ?homeward"
    unfolding assms(23,24) size path by (simp_all add: same con(4))
  obtain w4 w5 where wr: "async_write_some (forward_packet n) k [(a, len)] (Some hs) w3 = Inr w4"
    "leads (memory_app g) n (4 * (length ?forth + length ?homeward) + 2) w4 w5" "quiet w5" "now (w_sched w5) = t4"
    "w_mem w5 = g ur t3 (write_at (g us (now (w_sched w3)) (w_mem w3)) (take len (addrs bufs)) (load (w_mem w3) a len))"
    using transfer [where hs = hs and hr = hr, OF w3(1-5) assms(14) w3(6) assms(16) w3(7) assms(9,10)
        writes_memory_app writes_memory_app n times] by blast
  obtain c2 where run2: "run (memory_app g) n fuel w4 = Inr (Returned c2, w5)"
    using run_steps [OF wr(2) quiet_finished [OF wr(3)]] assms(18-20) by fastforce
  from wr(5) have "w_mem w5 = g ur t3 (write_at (g us t2 m) (take len (addrs bufs)) (load m a len))"
    by (simp add: same con(4,5))
  then show ?thesis
    using con(1,4,5) run1 read wr(1,4) run2 by blast
qed

lemma tcp_session_delivers_witness:
  "\<exists>w1 c1 w2 w3 w4 c2 w5. async_connect (forward_packet 30) 7 (Endpoint (V4 20) 8080) (Some (\<lambda>_. App 3)) listening_nodes = Inr w1 \<and>
    run (memory_app (\<lambda>u t m. m(u := m u + 1))) 30 40 w1 = Inr (Returned c1, w2) \<and>
    async_read_some 10 [(201, 2), (203, 2)] (Some (\<lambda>_ _. App 6)) w2 = Inr w3 \<and>
    async_write_some (forward_packet 30) 7 [(100, 3)] (Some (\<lambda>_ _. App 5)) w3 = Inr w4 \<and>
    run (memory_app (\<lambda>u t m. m(u := m u + 1))) 30 40 w4 = Inr (Returned c2, w5) \<and> now (w_sched w5) = 360000000 \<and>
    load (w_mem w5) 201 3 = load (w_mem listening_nodes) 100 3 \<and> w_mem w5 6 = w_mem listening_nodes 6 + 1"
proof -
  let ?w = "listening_nodes" and ?here = "Endpoint (V4 10) 2000" and ?target = "Endpoint (V4 20) 8080"
  let ?g = "\<lambda>u t m. m(u := m u + 1) :: memory" and ?forth = "[1] @ [5] @ [4] :: nat list" and ?homeward = "[3] @ [5] @ [2] :: nat list"
  let ?m = "?g 3 180000000 (?g 4 90000000 (w_mem ?w))"
  have "(\<lambda>_. App 4) success = App (4 :: nat)" "(\<lambda>_. App 3) success = App (3 :: nat)" "(\<lambda>_ _. App 5) success (3 :: nat) = App (5 :: nat)"
    "(\<lambda>_ _. App 6) success (3 :: nat) = App (6 :: nat)" by simp_all
  moreover have "pristine 7 ?w" "pristine 10 ?w" "w_pcap ?w = None"
    by (simp_all add: pristine_def listening_nodes_def two_nodes_def new_world_def new_tcp_socket_def)
  moreover have "0 < (3 :: nat)" "int 3 \<le> path_mtu (w_config ?w) (ep_address ?here) (ep_address ?target)"
    "3 \<le> buffer_size [(201, 2), (203, 2)]" "clear_ways 3 ?forth ?homeward ?w"
    by (simp_all add: listening_nodes_def two_nodes_def new_world_def buffer_size_def clear_ways_def free_for_def
        packet_size_def new_packet_def)
  moreover have "4 * (length ?forth + length ?homeward) + 2 \<le> 30" "(30 :: nat) \<le> 1000" "(30 :: nat) + 1 < 40"
    by simp_all
  moreover have "90000000 = now (w_sched ?w) + path_time (w_queues ?w) (syn_packet ?target 0) ?forth"
    "180000000 = 90000000 + path_time (w_queues ?w) (syn_packet ?target 0) ?homeward"
    "270000000 = 180000000 + path_time (w_queues ?w) (new_packet\<lparr>p_overhead := 40 + int 3\<rparr>) ?forth"
    "360000000 = 270000000 + path_time (w_queues ?w) (ack_packet new_packet []) ?homeward"
    by (simp_all add: listening_nodes_def two_nodes_def new_world_def hop_time_def now_def)
  ultimately have ex: "\<exists>w1 c1 w2 w3 w4 c2 w5. async_connect (forward_packet 30) 7 ?target (Some (\<lambda>_. App 3)) ?w = Inr w1 \<and>
    run (memory_app ?g) 30 40 w1 = Inr (Returned c1, w2) \<and> now (w_sched w2) = 180000000 \<and> w_mem w2 = ?m \<and>
    async_read_some 10 [(201, 2), (203, 2)] (Some (\<lambda>_ _. App 6)) w2 = Inr w3 \<and>
    async_write_some (forward_packet 30) 7 [(100, 3)] (Some (\<lambda>_ _. App 5)) w3 = Inr w4 \<and>
    run (memory_app ?g) 30 40 w4 = Inr (Returned c2, w5) \<and> now (w_sched w5) = 360000000 \<and>
    w_mem w5 = ?g 6 270000000 (write_at (?g 5 180000000 ?m) (take 3 (addrs [(201, 2), (203, 2)])) (load ?m 100 3))"
    by (rule tcp_session_delivers [OF listening_nodes_connectable])
  have "load (?g 6 270000000 (write_at (?g 5 180000000 ?m) (take 3 (addrs [(201, 2), (203, 2)])) (load ?m 100 3))) 201 3 = load (w_mem ?w) 100 3"
    "?g 6 270000000 (write_at (?g 5 180000000 ?m) (take 3 (addrs [(201, 2), (203, 2)])) (load ?m 100 3)) 6 = w_mem ?w 6 + 1"
    by (simp_all add: load_def upt_rec)
  with ex show ?thesis by (elim exE conjE) (intro exI conjI, assumption+, simp_all only:)
qed

end
