(* ===== verification/Run_Throws.thy ===== *)
theory Run_Throws
  imports Simulation
begin

text \<open>
  The event loop with handlers that throw. A job of the application is a parameter that also
  says what it threw, with the world at that moment; the exception leaves \<open>on_lookup\<close> before the
  timer is armed again and \<open>m_service.poll()\<close> before the jobs behind it, which stay queued, and the
  handler of \<open>run\<close> (\<open>simulation.cpp\<close>) cleans up and throws it again. Without exceptions this is the
  loop of \<open>Simulation\<close>.
\<close>

section \<open>Jobs\<close>

type_synonym ('e, 'u) throwing_app = "'u \<Rightarrow> 'u world \<Rightarrow> fault + ('e option \<times> 'u world)"

definition call_throws :: "('e, 'u) throwing_app \<Rightarrow> 'u job \<Rightarrow> 'u world \<Rightarrow> fault + ('e option \<times> 'u world)" where
  "call_throws app j w = (case j of App u \<Rightarrow> app u w | _ \<Rightarrow> Inl Assertion_failed)"

definition on_lookup_throws ::
  "('u job \<Rightarrow> 'u world \<Rightarrow> fault + ('e option \<times> 'u world)) \<Rightarrow> nat \<Rightarrow> error_code \<Rightarrow> 'u world \<Rightarrow> fault + ('e option \<times> 'u world)" where
  "on_lookup_throws call r ec w =
    (if ec = operation_aborted then Inr (None, w)
     else case m_queue (w_resolvers w r) of
       [] \<Rightarrow> Inr (None, w)
     | v # rest \<Rightarrow>
         bindE (call (r_handler v (r_err v) (r_ips v)) (upd_resolver r (\<lambda>x. x\<lparr>m_queue := rest\<rparr>) w)) (\<lambda>(x, w1).
         if x \<noteq> None \<or> rest = [] then Inr (x, w1) else bindE (arm_lookup r w1) (\<lambda>w2. Inr (None, w2))))"

definition unthrown :: "fault + 'u world \<Rightarrow> fault + ('e option \<times> 'u world)" where
  "unthrown r = bindE r (\<lambda>w. Inr (None, w))"

definition run_job_throws ::
  "('e, 'u) throwing_app \<Rightarrow> nat \<Rightarrow> 'u job \<Rightarrow> 'u world \<Rightarrow> fault + ('e option \<times> 'u world)" where
  "run_job_throws app n j w =
    (case j of
       Begin_send q \<Rightarrow> unthrown (begin_send_next_packet q w)
     | Next_sent q \<Rightarrow> unthrown (next_packet_sent (forward_packet n) q w)
     | On_lookup r ec \<Rightarrow> on_lookup_throws (call_throws app) r ec w
     | Udp_wait_send k ec \<Rightarrow>
         (case u_wait_send_handler (w_udp w k) of
            None \<Rightarrow> Inl Assertion_failed
          | Some h \<Rightarrow> call_throws app (h ec) (upd_udp k (\<lambda>s. s\<lparr>u_wait_send_handler := None\<rparr>) w))
     | Udp_send k ec m \<Rightarrow>
         (case u_send_handler (w_udp w k) of
            None \<Rightarrow> Inl Assertion_failed
          | Some h \<Rightarrow> call_throws app (h ec m) (upd_udp k (\<lambda>s. s\<lparr>u_send_handler := None\<rparr>) w))
     | Null_call \<Rightarrow> Inl Assertion_failed
     | App u \<Rightarrow> app u w)"

text \<open>The result of \<open>poll\<close> is an exception or the number of jobs.\<close>

fun poll_throws ::
  "('e, 'u) throwing_app \<Rightarrow> nat \<Rightarrow> nat \<Rightarrow> 'u world \<Rightarrow> fault + (('e + nat) \<times> 'u world)" where
  "poll_throws app n 0 w = (if m_service (w_sched w) = [] then Inr (Inr 0, w) else Inl Out_of_fuel)"
| "poll_throws app n (Suc k) w =
    (case m_service (w_sched w) of
       [] \<Rightarrow> Inr (Inr 0, w)
     | j # js \<Rightarrow>
         bindE (run_job_throws app n j (upd_sched (\<lambda>s. s\<lparr>m_service := js\<rparr>) w)) (\<lambda>(x, w1).
         case x of
           Some e \<Rightarrow> Inr (Inl e, w1)
         | None \<Rightarrow> bindE (poll_throws app n k w1) (\<lambda>(c, w2). Inr (map_sum id Suc c, w2))))"

section \<open>The loop\<close>

datatype 'e outcome = Ran run_result | Rethrown 'e

fun run_loop_throws ::
  "('e, 'u) throwing_app \<Rightarrow> nat \<Rightarrow> nat \<Rightarrow> nat \<Rightarrow> int \<Rightarrow> nat \<Rightarrow> 'u world \<Rightarrow> fault + ('e outcome \<times> 'u world)" where
  "run_loop_throws app n 0 ret prev_time stalled w = Inl Out_of_fuel"
| "run_loop_throws app n (Suc k) ret prev_time stalled w =
    bindE (poll_throws app n n w) (\<lambda>(c, w0).
    case c of
      Inl e \<Rightarrow> Inr (Rethrown e, run_catch w0)
    | Inr polled \<Rightarrow>
        let (fired, s) = advance (w_sched w0); last_executed = polled + fired; w1 = w0\<lparr>w_sched := s\<rparr>;
            time = now (w_sched w1); ret1 = ret + last_executed;
            stalled1 = (if last_executed = 0 then stalled else if time = prev_time then stalled + 1 else 0);
            prev1 = (if last_executed = 0 then prev_time else time)
        in if 0 < last_executed \<and> time = prev_time \<and> max_stalled_iterations < stalled1
           then Inr (Ran Busy_loop, run_catch w1)
           else if 0 < last_executed \<and> \<not> m_stopped (w_sched w1)
           then run_loop_throws app n k ret1 prev1 stalled1 w1
           else Inr (Ran (Returned ret1), w1))"

definition run_throws :: "('e, 'u) throwing_app \<Rightarrow> nat \<Rightarrow> nat \<Rightarrow> 'u world \<Rightarrow> fault + ('e outcome \<times> 'u world)" where
  "run_throws app n k w = run_loop_throws app n k 0 (now (w_sched w)) 0 w"

section \<open>Handlers that do not throw\<close>

lemma unthrown_simps [simp]: "unthrown (Inr w) = Inr (None, w)" "unthrown (Inl f) = Inl f"
  by (simp_all add: unthrown_def)

lemma call_unthrown: "call_throws (\<lambda>u w. unthrown (app u w)) j w = unthrown (call_app app j w)"
  by (cases j) (simp_all add: call_throws_def call_app_def)

lemma bind_unthrown: "bindE (unthrown r) f = bindE r (\<lambda>w. f (None, w))" "unthrown (bindE q h) = bindE q (\<lambda>w. unthrown (h w))"
  by (cases r, simp_all) (cases q, simp_all)

lemma run_job_unthrown: "run_job_throws (\<lambda>u w. unthrown (app u w)) n j w = unthrown (run_job app n j w)"
proof (cases j)
  case (On_lookup r ec)
  then show ?thesis
    by (cases "m_queue (w_resolvers w r)")
      (auto simp: run_job_throws_def run_job_def call_unthrown on_lookup_throws_def on_lookup_def bind_unthrown unthrown_def [of "Inr _"]
        unthrown_def [of "arm_lookup r _"] intro!: bindE_cong)
qed (auto simp: run_job_throws_def run_job_def call_unthrown split: option.split)

lemma poll_unthrown:
  "poll_throws (\<lambda>u w. unthrown (app u w)) n k w = bindE (poll app n k w) (\<lambda>(c, w1). Inr (Inr c, w1))"
proof (induction app n k w rule: poll.induct)
  case (2 app n k w)
  show ?case
  proof (cases "m_service (w_sched w)")
    case (Cons j js)
    let ?r = "run_job app n j (upd_sched (\<lambda>s. s\<lparr>m_service := js\<rparr>) w)"
    show ?thesis
      using "2.IH" [OF Cons]
      by (cases ?r) (auto simp: Cons run_job_unthrown bindE_assoc split_beta)
  qed simp
qed simp

lemma run_loop_unthrown:
  "run_loop_throws (\<lambda>u w. unthrown (app u w)) n k ret prev st w =
    bindE (run_loop app n k ret prev st w) (\<lambda>(r, w1). Inr (Ran r, w1))"
proof (induction app n k ret prev st w rule: run_loop.induct)
  case (2 app n k ret prev st w)
  show ?case
  proof (cases "poll app n n w")
    case (Inr r)
    obtain c w0 where r: "poll app n n w = Inr (c, w0)" using Inr by (cases r) auto
    obtain f s where a: "advance (w_sched w0) = (f, s)" by (cases "advance (w_sched w0)") auto
    have "run_round app n w = Inr (c + f, w0\<lparr>w_sched := s\<rparr>)" by (simp add: run_round_def r a)
    from "2.IH" [OF this refl refl refl refl refl] show ?thesis
      using a by (simp add: poll_unthrown r run_round_def Let_def)
  qed (simp add: poll_unthrown run_round_def)
qed simp

lemma run_unthrown:
  "run_throws (\<lambda>u w. unthrown (app u w)) n k w = bindE (run app n k w) (\<lambda>(r, w1). Inr (Ran r, w1))"
  by (simp add: run_throws_def run_def run_loop_unthrown)

section \<open>A handler that throws\<close>

text \<open>Handlers that write memory as those of \<open>memory_app\<close> do, and then throw or not.\<close>

definition memory_throws :: "('u \<Rightarrow> int \<Rightarrow> memory \<Rightarrow> memory) \<Rightarrow> ('u \<Rightarrow> 'e option) \<Rightarrow> ('e, 'u) throwing_app" where
  "memory_throws g x u w = Inr (x u, w\<lparr>w_mem := g u (now (w_sched w)) (w_mem w)\<rparr>)"

lemma memory_throws_job:
  "run_job_throws (memory_throws g x) n (App u) w = Inr (x u, w\<lparr>w_mem := g u (now (w_sched w)) (w_mem w)\<rparr>)"
  by (simp add: run_job_throws_def memory_throws_def)

lemma poll_memory_throws:
  fixes w :: "'u world" and x :: "'u \<Rightarrow> 'e option"
  assumes "m_service (w_sched w) = map App us @ js" and "\<forall>v \<in> set us. x v = None" and "length us \<le> k"
  shows "poll_throws (memory_throws g x) n k w = bindE (poll_throws (memory_throws g x) n (k - length us)
      (w\<lparr>w_sched := (w_sched w)\<lparr>m_service := js\<rparr>, w_mem := memory_after g (map (Pair (now (w_sched w))) us) (w_mem w)\<rparr>))
    (\<lambda>(c, w1). Inr (map_sum id ((+) (length us)) c, w1))"
  using assms
proof (induction us arbitrary: k w)
  case Nil
  then have w: "w\<lparr>w_sched := (w_sched w)\<lparr>m_service := js\<rparr>, w_mem := w_mem w\<rparr> = w" by simp
  have "bindE r (\<lambda>(c, w1). Inr (map_sum (\<lambda>a. a) (\<lambda>a. a) c, w1)) = r" for r :: "fault + (('e + nat) \<times> 'u world)"
  proof (cases r)
    case (Inr y)
    then show ?thesis by (cases y; cases "fst y") auto
  qed simp
  from this [of "poll_throws (memory_throws g x) n k w"] show ?case by (simp add: w)
next
  case (Cons u us)
  then obtain k' where k: "k = Suc k'" by (cases k) auto
  let ?w = "w\<lparr>w_sched := (w_sched w)\<lparr>m_service := map App us @ js\<rparr>, w_mem := g u (now (w_sched w)) (w_mem w)\<rparr>"
  have "now (w_sched ?w) = now (w_sched w)" by (simp add: now_def)
  with Cons.IH [of ?w k'] Cons.prems show ?case
    by (auto simp: k memory_throws_job upd_sched_def now_def bindE_assoc sum.map_comp o_def split_beta intro!: bindE_cong)
qed

lemma poll_throws_out:
  assumes "m_service (w_sched w) = map App (us @ u # vs)" and "\<forall>v \<in> set us. x v = None" and "x u = Some e" and "length us < k"
  shows "poll_throws (memory_throws g x) n k w = Inr (Inl e, w\<lparr>w_sched := (w_sched w)\<lparr>m_service := map App vs\<rparr>,
    w_mem := memory_after g (map (Pair (now (w_sched w))) (us @ [u])) (w_mem w)\<rparr>)"
proof -
  obtain i where "k - length us = Suc i" using assms(4) by (cases "k - length us") auto
  then show ?thesis
    using poll_memory_throws [of w us "map App (u # vs)" x k g n] assms
    by (simp add: memory_throws_job upd_sched_def now_def)
qed

lemma poll_throws_all:
  assumes "m_service (w_sched w) = map App us" and "\<forall>v \<in> set us. x v = None" and "length us \<le> k"
  shows "poll_throws (memory_throws g x) n k w = Inr (Inr (length us), w\<lparr>w_sched := (w_sched w)\<lparr>m_service := []\<rparr>,
    w_mem := memory_after g (map (Pair (now (w_sched w))) us) (w_mem w)\<rparr>)"
proof -
  have "poll_throws (memory_throws g x) n i v = Inr (Inr 0, v)" if "m_service (w_sched v) = []" for i v
    using that by (cases i) simp_all
  then show ?thesis
    using poll_memory_throws [of w us "[]" x k g n] assms by simp
qed

section \<open>What the handler of \<open>run\<close> leaves\<close>

lemma cancel_timers_posts:
  assumes "distinct ts" and "\<forall>t \<in> set ts. \<not> m_expired (timers (w_sched w) t)"
  defines "w' \<equiv> fold cancel_timer ts w"
  shows "m_service (w_sched w') = m_service (w_sched w) @ handler_jobs (w_sched w) operation_aborted ts \<and>
    w_mem w' = w_mem w \<and> w_ports w' = w_ports w \<and> now (w_sched w') = now (w_sched w)"
  using assms(1,2) unfolding w'_def
proof (induction ts arbitrary: w)
  case Nil
  then show ?case by (simp add: handler_jobs_def)
next
  case (Cons t ts)
  let ?w = "cancel_timer t w"
  have other: "timers (w_sched ?w) t' = timers (w_sched w) t'" if "t' \<noteq> t" for t'
    using that by (simp add: cancel_timer_def upd_sched_def sched_simps)
  then have "handler_jobs (w_sched ?w) operation_aborted ts = handler_jobs (w_sched w) operation_aborted ts"
    using Cons.prems(1) by (intro handler_jobs_cong other) auto
  moreover have "\<forall>t' \<in> set ts. \<not> m_expired (timers (w_sched ?w) t')"
    using Cons.prems by (metis distinct.simps(2) list.set_intros(2) other)
  moreover have "m_service (w_sched ?w) = m_service (w_sched w) @ handler_jobs (w_sched w) operation_aborted [t]"
    "w_mem ?w = w_mem w" "w_ports ?w = w_ports w" "now (w_sched ?w) = now (w_sched w)"
    using Cons.prems(2) by (simp_all add: cancel_timer_def upd_sched_def sched_simps now_def handler_jobs_def split: option.split)
  ultimately show ?case
    using Cons.IH [of ?w] Cons.prems(1) by (simp add: handler_jobs_def)
qed

lemma run_catch_posts:
  assumes "wf_sched (w_sched w)" and "m_listen_sockets (w_ports w) = []" and "m_udp_sockets (w_ports w) = []"
  defines "w' \<equiv> run_catch w"
  shows "m_service (w_sched w') = m_service (w_sched w) @ handler_jobs (w_sched w) operation_aborted (m_timer_queue (w_sched w))"
    and "w_mem w' = w_mem w" and "now (w_sched w') = now (w_sched w)"
    and "m_timer_queue (w_sched w') = []" and "m_stopped (w_sched w')"
proof -
  have "distinct (m_timer_queue (w_sched w))" "\<forall>t \<in> set (m_timer_queue (w_sched w)). \<not> m_expired (timers (w_sched w) t)"
    using assms(1) by (simp_all add: wf_sched_def)
  note c = cancel_timers_posts [OF this, folded cancel_all_timers_def]
  have "cancel_sockets (cancel_all_timers w) = cancel_all_timers w"
    using c assms(2,3) by (simp add: cancel_sockets_def)
  then have "w' = sim_stop (cancel_all_timers w)" by (simp add: w'_def run_catch_def)
  then show "m_service (w_sched w') = m_service (w_sched w) @ handler_jobs (w_sched w) operation_aborted (m_timer_queue (w_sched w))"
    and "w_mem w' = w_mem w" and "now (w_sched w') = now (w_sched w)"
    using c by (simp_all add: sim_stop_def now_def)
qed (use run_catch_unarmed [OF assms(1)] in \<open>simp_all add: w'_def sim_stopped_def\<close>)

text \<open>A simulation that is stopped runs what is posted and returns.\<close>

lemma stopped_run_drains:
  assumes "m_stopped (w_sched w)" and "m_timer_queue (w_sched w) = []" and "m_service (w_sched w) = map App us"
    and "\<forall>v \<in> set us. x v = None" and "length us \<le> n" and "0 < k"
  shows "run_throws (memory_throws g x) n k w = Inr (Ran (Returned (length us)), w\<lparr>w_sched := (w_sched w)\<lparr>m_service := []\<rparr>,
    w_mem := memory_after g (map (Pair (now (w_sched w))) us) (w_mem w)\<rparr>)"
proof -
  obtain k' where "k = Suc k'" using assms(6) by (cases k) auto
  then show ?thesis
    using assms(1,2) poll_throws_all [OF assms(3-5), of g n]
    by (simp add: run_throws_def advance_def max_stalled_iterations_def now_def Let_def)
qed

text \<open>
  C36. An exception of a handler ends the run at once. The handlers before it have run, in order; the
  timers are cancelled and their handlers posted with \<open>operation_aborted\<close> behind those that had not
  run yet; the clock stands still, the simulation is stopped and can be destroyed. Running it again
  calls all these handlers, each once, still at the same time, and leaves it stopped.
\<close>

theorem exception_ends_run:
  assumes "wf_sched (w_sched w)" and "app_timers (w_sched w) f" and "m_service (w_sched w) = map App (us @ u # vs)"
    and "x u = Some e" and "\<forall>v \<in> set us \<union> set vs \<union> f ` set (m_timer_queue (w_sched w)). x v = None"
    and "m_listen_sockets (w_ports w) = []" and "m_udp_sockets (w_ports w) = []"
    and "length us < n" and "length vs + length (m_timer_queue (w_sched w)) \<le> n" and "0 < k"
  shows "\<exists>w' w''. run_throws (memory_throws g x) n k w = Inr (Rethrown e, w') \<and>
    now (w_sched w') = now (w_sched w) \<and> m_timer_queue (w_sched w') = [] \<and> sim_stopped w' \<and>
    simulation_destruct d w' = Inr (config_clear d) \<and>
    w_mem w' = memory_after g (map (Pair (now (w_sched w))) (us @ [u])) (w_mem w) \<and>
    m_service (w_sched w') = map App (vs @ map f (m_timer_queue (w_sched w))) \<and>
    run_throws (memory_throws g x) n k w' = Inr (Ran (Returned (length vs + length (m_timer_queue (w_sched w)))), w'') \<and>
    now (w_sched w'') = now (w_sched w) \<and> sim_stopped w'' \<and>
    w_mem w'' = memory_after g (map (Pair (now (w_sched w))) (us @ u # vs @ map f (m_timer_queue (w_sched w)))) (w_mem w)"
proof -
  let ?s = "w_sched w" and ?ts = "m_timer_queue (w_sched w)"
  define w1 where "w1 = w\<lparr>w_sched := ?s\<lparr>m_service := map App vs\<rparr>,
    w_mem := memory_after g (map (Pair (now ?s)) (us @ [u])) (w_mem w)\<rparr>"
  obtain k' where k: "k = Suc k'" using assms(10) by (cases k) auto
  have "poll_throws (memory_throws g x) n n w = Inr (Inl e, w1)"
    unfolding w1_def using assms(5) by (intro poll_throws_out [where us = us and u = u and vs = vs and x = x and w = w, OF assms(3) _ assms(4,8)]) simp
  then have run: "run_throws (memory_throws g x) n k w = Inr (Rethrown e, run_catch w1)"
    by (simp add: run_throws_def k)
  have ex: "expiry (w_sched w1) = expiry ?s" by (rule ext) (simp add: expiry_def w1_def)
  have wf: "wf_sched (w_sched w1)" using assms(1) ex by (simp add: wf_sched_def) (simp add: w1_def)
  have jobs: "handler_jobs (w_sched w1) operation_aborted ?ts = map App (map f ?ts)"
    by (rule app_timers_jobs) (use assms(2) in \<open>simp_all add: app_timers_def w1_def\<close>)
  have c: "m_service (w_sched (run_catch w1)) = map App (vs @ map f ?ts)" "w_mem (run_catch w1) = w_mem w1"
    "now (w_sched (run_catch w1)) = now ?s" "m_timer_queue (w_sched (run_catch w1)) = []" "m_stopped (w_sched (run_catch w1))"
    using run_catch_posts [OF wf] assms(6,7) jobs by (simp_all add: w1_def now_def)
  have "run_throws (memory_throws g x) n k (run_catch w1) = Inr (Ran (Returned (length (vs @ map f ?ts))),
      (run_catch w1)\<lparr>w_sched := (w_sched (run_catch w1))\<lparr>m_service := []\<rparr>,
        w_mem := memory_after g (map (Pair (now ?s)) (vs @ map f ?ts)) (w_mem w1)\<rparr>)"
    using stopped_run_drains [OF c(5,4,1), of x n k g] assms(5,9,10) by (simp add: c(2,3) ball_Un)
  then show ?thesis
    using run c by (simp add: sim_stopped_def simulation_destruct_def w1_def now_def)
qed

lemma exception_ends_run_witness:
  "\<exists>w :: nat world. \<exists>w'. \<exists>w'' :: nat world. m_service (w_sched w) = [App 7, App 8, App 9] \<and>
    run_throws (memory_throws (\<lambda>u t m. m(u := 1)) (\<lambda>u. if u = 8 then Some ''boom'' else None)) 5 5 w = Inr (Rethrown ''boom'', w') \<and>
    m_service (w_sched w') = [App 9, App 2] \<and> w_mem w' 8 = 1 \<and> w_mem w' 9 = 0 \<and> w_mem w'' 9 = 1 \<and>
    now (w_sched w'') = 3"
proof -
  let ?g = "\<lambda>u t m. m(u := 1) :: memory" and ?x = "\<lambda>u :: nat. if u = 8 then Some ''boom'' else None"
  define w where "w = empty_world\<lparr>w_mem := (\<lambda>_. 0), w_sched := \<lparr>g_simulation_time = 3,
      timers = (\<lambda>t. if t = User_timer 1
        then \<lparr>m_expiration_time = 20, m_handler = Some (\<lambda>_. App 2), m_expired = False\<rparr> else new_timer),
      m_timer_queue = [User_timer 1], m_service = [App 7, App 8, App 9], m_stopped = False\<rparr>\<rparr>"
  have "wf_sched (w_sched w)" "app_timers (w_sched w) (\<lambda>_. 2)" "m_service (w_sched w) = map App ([7] @ 8 # [9])"
    "?x 8 = Some ''boom''" "\<forall>v \<in> set [7] \<union> set [9] \<union> (\<lambda>_. 2) ` set (m_timer_queue (w_sched w)). ?x v = None"
    "m_listen_sockets (w_ports w) = []" "m_udp_sockets (w_ports w) = []"
    "length [7 :: nat] < 5" "length [9 :: nat] + length (m_timer_queue (w_sched w)) \<le> 5" "(0 :: nat) < 5"
    by (simp_all add: w_def wf_sched_def app_timers_def expiry_def new_timer_def new_world_def fresh_ports_def)
  from exception_ends_run [OF this, of ?g empty_config] obtain w' w'' :: "nat world" where
    "run_throws (memory_throws ?g ?x) 5 5 w = Inr (Rethrown ''boom'', w')"
    "w_mem w' = memory_after ?g (map (Pair (now (w_sched w))) ([7] @ [8])) (w_mem w)"
    "m_service (w_sched w') = map App ([9] @ map (\<lambda>_. 2) (m_timer_queue (w_sched w)))"
    "w_mem w'' = memory_after ?g (map (Pair (now (w_sched w))) ([7] @ 8 # [9] @ map (\<lambda>_. 2) (m_timer_queue (w_sched w)))) (w_mem w)"
    "now (w_sched w'') = now (w_sched w)"
    by (elim exE conjE) (rule that; assumption)
  moreover have "m_service (w_sched w) = [App 7, App 8, App 9]" "m_timer_queue (w_sched w) = [User_timer 1]" "now (w_sched w) = 3"
    "w_mem w = (\<lambda>_. 0)"
    by (simp_all add: w_def now_def)
  ultimately show ?thesis
    by (intro exI [of _ w] exI [of _ w'] exI [of _ w'']) simp
qed

end
