(* ===== verification/Io_Context.thy ===== *)
theory Io_Context
  imports Delivery
begin

text \<open>
  The rest of the interface of \<open>io_context\<close> (\<open>io_service.cpp\<close>, \<open>simulator.hpp\<close>): the calls of Boost.Asio that make
  no sense on a simulated node and assert, and the executors. Also the synchronous
  wait of a timer, which asserts as well, and the timer of \<open>utils.hpp\<close> that brings a node of its own.
\<close>

section \<open>Calls that assert\<close>

text \<open>\<open>run\<close>, \<open>poll\<close> and \<open>poll_one\<close>, with and without an error code, which is not set.\<close>

definition io_context_default :: "fault + node" where
  "io_context_default = Inl Assertion_failed"

definition ios_run :: "'u world \<Rightarrow> fault + (nat \<times> 'u world)" where
  "ios_run w = bindE (assertE False) (\<lambda>_. Inr (0, w))"

definition ios_poll :: "'u world \<Rightarrow> fault + (nat \<times> 'u world)" where
  "ios_poll w = bindE (assertE False) (\<lambda>_. Inr (0, w))"

definition ios_poll_one :: "'u world \<Rightarrow> fault + (nat \<times> 'u world)" where
  "ios_poll_one w = bindE (assertE False) (\<lambda>_. Inr (0, w))"

definition run_for :: "int \<Rightarrow> 'u world \<Rightarrow> fault + (nat \<times> 'u world)" where
  "run_for d w = bindE (assertE False) (\<lambda>_. Inr (0, w))"

definition poll_one_for :: "int \<Rightarrow> 'u world \<Rightarrow> fault + (nat \<times> 'u world)" where
  "poll_one_for d w = bindE (assertE False) (\<lambda>_. Inr (0, w))"

definition timer_wait :: "timer_id \<Rightarrow> 'u world \<Rightarrow> fault + 'u world" where
  "timer_wait t w =
    bindE (assertE False) (\<lambda>_.
    let s = w_sched w in
    Inr (if expiry s t \<le> now s then w else upd_sched (fast_forward (expiry s t - now s)) w))"

definition ios_stopped :: "nat \<Rightarrow> 'u world \<Rightarrow> fault + bool" where
  "ios_stopped i w = bindE (node_of i w) (\<lambda>n. Inr (m_ios_stopped n))"

lemma ios_stopped_after:
  assumes "w_nodes w i = Some n"
  shows "ios_stopped i (ios_stop i w) = Inr True" and "ios_stopped i (ios_restart i w) = Inr False"
    and "j \<noteq> i \<Longrightarrow> ios_stopped j (ios_stop i w) = ios_stopped j w"
  using assms by (simp_all add: ios_stopped_def ios_stop_def ios_restart_def node_of_def)

section \<open>Executors\<close>

text \<open>
  All nodes share the queue of the simulation. \<open>dispatch\<close> of Boost.Asio calls the handler in place
  when the caller is itself one of its handlers; outside of them it posts, as \<open>defer\<close> always does.
\<close>

definition dispatch_job :: "bool \<Rightarrow> ('u job \<Rightarrow> 'u world \<Rightarrow> fault + 'u world) \<Rightarrow> 'u job \<Rightarrow> 'u world \<Rightarrow> fault + 'u world" where
  "dispatch_job in_handler call j w = (if in_handler then call j w else Inr (post_job j w))"

definition defer_job :: "'u job \<Rightarrow> 'u world \<Rightarrow> 'u world" where
  "defer_job j w = post_job j w"

text \<open>
  A handler that dispatches another runs it before the jobs that were posted earlier, one that
  defers it after them.
\<close>

lemma dispatched_first:
  assumes "m_service (w_sched w) = App u # js" and "app = (\<lambda>x v. if x = u then dispatch_job True (call_app (memory_app g)) (App y) v
      else memory_app g x v)" and "y \<noteq> u"
  shows "poll app n (Suc k) w = bindE (poll app n k (w\<lparr>w_sched := (w_sched w)\<lparr>m_service := js\<rparr>,
      w_mem := g y (now (w_sched w)) (w_mem w)\<rparr>)) (\<lambda>(c, w1). Inr (Suc c, w1))"
  using assms(1)
  by (simp add: assms(2) run_job_def dispatch_job_def call_app_def memory_app_def upd_sched_def now_def)

lemma deferred_last:
  assumes "m_service (w_sched w) = App u # js" and "app = (\<lambda>x v. if x = u then Inr (defer_job (App y) v) else memory_app g x v)"
  shows "poll app n (Suc k) w = bindE (poll app n k (w\<lparr>w_sched := (w_sched w)\<lparr>m_service := js @ [App y]\<rparr>\<rparr>))
    (\<lambda>(c, w1). Inr (Suc c, w1))"
  using assms(1)
  by (simp add: assms(2) run_job_def defer_job_def upd_sched_def post_job_def post_def)

section \<open>The timer of \<open>utils.hpp\<close>\<close>

text \<open>The node \<open>i\<close> of the timer has the address 0.0.0.0; \<open>outr\<close> and \<open>inr\<close> are the routes of the configuration.\<close>

definition sim_timer ::
  "('c, 'u) route_fun \<Rightarrow> ('c, 'u) route_fun \<Rightarrow> nat \<Rightarrow> timer_id \<Rightarrow> int \<Rightarrow> (error_code \<Rightarrow> 'u job) \<Rightarrow> 'c \<Rightarrow> 'u world \<Rightarrow>
    fault + ('c \<times> 'u world)" where
  "sim_timer outr inr i t timeout f d w =
    bindE (io_context_construct outr inr i [V4 0] d w) (\<lambda>(d', w1).
    bindE (timer_expires_after t timeout (upd_sched (timer_construct t) w1)) (\<lambda>w2.
    bindE (timer_async_wait t f w2) (\<lambda>w3. Inr (d', w3))))"

lemma sim_timer_fires:
  assumes "io_context_construct outr inr i [V4 0] d w = Inr (d', w1)" and "quiet w1" and "f success = App u"
    and "2 \<le> n" and "n \<le> 1000" and "n + 1 < fuel"
    and t1_def: "t1 = now (w_sched w1) + timeout"
  shows "\<exists>w2 count w'. sim_timer outr inr i t timeout f d w = Inr (d', w2) \<and>
    run (memory_app g) n fuel w2 = Inr (Returned count, w') \<and> now (w_sched w') = t1 \<and>
    w_mem w' = g u t1 (w_mem w1) \<and> quiet w'"
proof -
  let ?w = "upd_sched (timer_construct t) w1"
  let ?s = "w_sched ?w" and ?s1 = "sched_at t t1 (w_sched ?w)"
  have tc: "now (timer_construct t (w_sched w1)) = now (w_sched w1)" by (simp add: timer_construct_def now_def)
  have q: "quiet ?w" "now ?s = now (w_sched w1)" "w_mem ?w = w_mem w1"
    using assms(2) by (simp_all add: quiet_def quiet_sched_def upd_sched_def timer_construct_def new_timer_def now_def)
  define w2 where "w2 = ?w\<lparr>w_sched := armed_sched t t1 f ?s\<rparr>"
  define w3 where "w3 = ?w\<lparr>w_sched := ?s1, w_mem := g u t1 (w_mem w1)\<rparr>"
  have "sim_timer outr inr i t timeout f d w = Inr (d', w2)"
    using arm_quiet(2) [OF q(1), of t timeout] arm_quiet(3) [OF q(1), of t t1 f]
    by (simp add: sim_timer_def assms(1) w2_def tc t1_def flip: bindE_assoc)
  moreover have "leads (memory_app g) n 2 w2 w3"
  proof -
    have s: "quiet_sched ?s" using q(1) by (simp add: quiet_def)
    have "loop_step (memory_app g) n w2 (?w\<lparr>w_sched := post (App u) ?s1\<rparr>)"
      using armed_fires [OF s, where w = ?w and t = t and e = t1 and h = f] assms(3) by (simp add: w2_def)
    from leads_step [OF this memory_job_last(1) [OF writes_memory_app _ sched_at_quiet [OF s]]]
    show ?thesis by (simp add: w3_def q(3) numeral_2_eq_2)
  qed
  moreover have "quiet w3" "now (w_sched w3) = t1" "w_mem w3 = g u t1 (w_mem w1)"
    using q(1) by (simp_all add: w3_def quiet_def sched_at_quiet)
  moreover from this(1) have "finished w3" by (rule quiet_finished)
  ultimately show ?thesis
    using run_steps [of "memory_app g" n 2 w2 w3 fuel] assms(4-6) by fastforce
qed

end
