(* ===== verification/Exceptions.thy ===== *)
theory Exceptions
  imports Acceptor Udp_Socket
begin

text \<open>
  The overloads without an error code: each calls the one that assigns a code, here a fresh one, and
  throws it as a \<open>system_error\<close> when it is set. The exception may be caught, so what the call has
  done by then stays: the result is the exception or the value, and the world.
\<close>

section \<open>Throwing\<close>

definition raise_error :: "error_code \<Rightarrow> 'a \<Rightarrow> 'u world \<Rightarrow> (error_code + 'a) \<times> 'u world" where
  "raise_error ec ret w = (if ec \<noteq> success then Inl ec else Inr ret, w)"

lemma raise_error_eq:
  "raise_error ec ret w = (Inl e, w') \<longleftrightarrow> ec = e \<and> e \<noteq> success \<and> w' = w"
  "raise_error ec ret w = (Inr x, w') \<longleftrightarrow> ec = success \<and> x = ret \<and> w' = w"
  by (auto simp: raise_error_def)

type_synonym ('a, 'u) throws = "fault + ((error_code + 'a) \<times> 'u world)"

section \<open>TCP sockets\<close>

text \<open>\<open>open\<close> and \<open>close\<close> clear their code, and so does \<open>cancel\<close>.\<close>

definition tcp_open_throws :: "'u net \<Rightarrow> nat \<Rightarrow> bool \<Rightarrow> 'u world \<Rightarrow> (unit, 'u) throws" where
  "tcp_open_throws fwd k v4 w = bindE (tcp_open fwd k v4 w) (\<lambda>w1. Inr (raise_error success () w1))"

definition tcp_bind_throws :: "nat \<Rightarrow> endpoint \<Rightarrow> 'u world \<Rightarrow> (unit, 'u) throws" where
  "tcp_bind_throws k ep w = bindE (tcp_bind k ep w) (\<lambda>(ec, w1). Inr (raise_error ec () w1))"

definition tcp_close_throws :: "'u net \<Rightarrow> nat \<Rightarrow> 'u world \<Rightarrow> (unit, 'u) throws" where
  "tcp_close_throws fwd k w = bindE (tcp_close fwd k w) (\<lambda>w1. Inr (raise_error success () w1))"

definition tcp_available_throws :: "nat \<Rightarrow> 'u world \<Rightarrow> (nat, 'u) throws" where
  "tcp_available_throws k w = (let (ec, ret) = available (w_tcp w k) in Inr (raise_error ec ret w))"

definition tcp_cancel_throws :: "nat \<Rightarrow> 'u world \<Rightarrow> (unit, 'u) throws" where
  "tcp_cancel_throws k w = Inr (raise_error success () (tcp_cancel k w))"

definition tcp_remote_endpoint_throws :: "nat \<Rightarrow> 'u world \<Rightarrow> (endpoint, 'u) throws" where
  "tcp_remote_endpoint_throws k w = bindE (remote_endpoint k w) (\<lambda>(ec, ret). Inr (raise_error ec ret w))"

section \<open>Acceptors\<close>

definition listen_throws :: "nat \<Rightarrow> int \<Rightarrow> 'u world \<Rightarrow> (unit, 'u) throws" where
  "listen_throws k qs w = (let (ec, w1) = listen k qs w in Inr (raise_error ec () w1))"

definition acceptor_cancel_throws :: "nat \<Rightarrow> 'u world \<Rightarrow> (unit, 'u) throws" where
  "acceptor_cancel_throws k w = bindE (acceptor_cancel k w) (\<lambda>w1. Inr (raise_error success () w1))"

section \<open>Sockets of both kinds\<close>

definition local_endpoint_throws :: "'a socket_base_scheme \<Rightarrow> 'u world \<Rightarrow> (endpoint, 'u) throws" where
  "local_endpoint_throws s w = (let (ec, ret) = local_endpoint s in Inr (raise_error ec ret w))"

definition local_bound_to_throws :: "'a socket_base_scheme \<Rightarrow> 'u world \<Rightarrow> (endpoint, 'u) throws" where
  "local_bound_to_throws s w = (let (ec, ret) = local_bound_to s in Inr (raise_error ec ret w))"

section \<open>UDP sockets\<close>

definition udp_bind_throws :: "nat \<Rightarrow> endpoint \<Rightarrow> 'u world \<Rightarrow> (unit, 'u) throws" where
  "udp_bind_throws k ep w = bindE (udp_bind k ep w) (\<lambda>(ec, w1). Inr (raise_error ec () w1))"

definition udp_open_throws :: "nat \<Rightarrow> bool \<Rightarrow> 'u world \<Rightarrow> (unit, 'u) throws" where
  "udp_open_throws k v4 w = Inr (raise_error success () (udp_open k v4 w))"

definition udp_close_throws :: "nat \<Rightarrow> 'u world \<Rightarrow> (unit, 'u) throws" where
  "udp_close_throws k w = Inr (raise_error success () (udp_close k w))"

definition udp_cancel_throws :: "nat \<Rightarrow> 'u world \<Rightarrow> (unit, 'u) throws" where
  "udp_cancel_throws k w = Inr (raise_error success () (udp_cancel k w))"

definition send_to_throws :: "'u net \<Rightarrow> nat \<Rightarrow> buffer list \<Rightarrow> endpoint \<Rightarrow> 'u world \<Rightarrow> (nat, 'u) throws" where
  "send_to_throws fwd k bufs dst w =
    bindE (send_to_impl fwd k bufs dst (udp_abort_send_handlers k w)) (\<lambda>(ret, ec, w1). Inr (raise_error ec ret w1))"

definition receive_from_throws :: "nat \<Rightarrow> buffer list \<Rightarrow> nat \<Rightarrow> 'u world \<Rightarrow> (nat, 'u) throws" where
  "receive_from_throws k bufs sender w =
    bindE (assertE (bufs \<noteq> [])) (\<lambda>_.
    bindE (receive_from_impl k bufs (Some sender) (udp_abort_recv_handlers k w)) (\<lambda>(ret, ec, w1).
    Inr (raise_error ec ret w1)))"

text \<open>The overload with flags, which are ignored.\<close>

definition receive_from_flags_throws :: "nat \<Rightarrow> buffer list \<Rightarrow> nat \<Rightarrow> int \<Rightarrow> 'u world \<Rightarrow> (nat, 'u) throws" where
  "receive_from_flags_throws k bufs sender flags w =
    bindE (assertE (bufs \<noteq> [])) (\<lambda>_.
    bindE (receive_from_impl k bufs (Some sender) (udp_abort_recv_handlers k w)) (\<lambda>(ret, ec, w1).
    Inr (raise_error ec ret w1)))"

section \<open>What an exception leaves\<close>

lemma node_bind_error:
  assumes "wf_ports ps" and "ec \<noteq> success"
  shows "node_bind_socket ips k ep ps = Inr ((ec, r), ps') \<Longrightarrow> tcp_lookup ps' = tcp_lookup ps"
    and "node_bind_socket ips k ep ps = Inr ((ec, r), ps') \<Longrightarrow> wf_ports ps'"
    and "node_bind_udp_socket ips k ep ps = Inr ((ec, r), ps') \<Longrightarrow> udp_lookup ps' = udp_lookup ps"
    and "node_bind_udp_socket ips k ep ps = Inr ((ec, r), ps') \<Longrightarrow> wf_ports ps'"
  using assms by (auto simp: node_bind_socket_def node_bind_udp_socket_def split: sum.splits
      dest: tcp_table.bind_err tcp_table.bind_wf udp_table.bind_err udp_table.bind_wf)

lemma bind_error:
  assumes "e \<noteq> success"
  shows "tcp_bind k ep w = Inr (e, w') \<Longrightarrow> w' = w \<or>
      (\<exists>ips r ps. node_bind_socket ips k ep (w_ports w) = Inr ((e, r), ps) \<and> w' = w\<lparr>w_ports := ps\<rparr>)"
    and "udp_bind k ep w = Inr (e, w') \<Longrightarrow> w' = w \<or>
      (\<exists>ips r ps. node_bind_udp_socket ips k ep (w_ports w) = Inr ((e, r), ps) \<and> w' = w\<lparr>w_ports := ps\<rparr>)"
  using assms by (auto simp: tcp_bind_def udp_bind_def ios_bind_socket_def ios_bind_udp_socket_def Let_def split: if_splits) blast+

text \<open>
  A bind that throws has changed neither a socket nor who an address belongs to; only the counter
  of ephemeral ports may have moved.
\<close>

lemma tcp_bind_throws_strong:
  assumes "wf_ports (w_ports w)" and "tcp_bind_throws k ep w = Inr (Inl e, w')"
  shows "\<exists>ps. w' = w\<lparr>w_ports := ps\<rparr> \<and> tcp_lookup ps = tcp_lookup (w_ports w) \<and> wf_ports ps"
proof -
  have e: "tcp_bind k ep w = Inr (e, w')" "e \<noteq> success" using assms(2) by (auto simp: tcp_bind_throws_def raise_error_eq)
  from bind_error(1) [OF e(2,1)] show ?thesis
  proof (elim disjE exE conjE)
    assume "w' = w"
    then show ?thesis using assms(1) by (intro exI [of _ "w_ports w"]) simp
  next
    fix ips r ps
    assume "node_bind_socket ips k ep (w_ports w) = Inr ((e, r), ps)" "w' = w\<lparr>w_ports := ps\<rparr>"
    then show ?thesis using node_bind_error(1,2) [OF assms(1) e(2)] by blast
  qed
qed

lemma udp_bind_throws_strong:
  assumes "wf_ports (w_ports w)" and "udp_bind_throws k ep w = Inr (Inl e, w')"
  shows "\<exists>ps. w' = w\<lparr>w_ports := ps\<rparr> \<and> udp_lookup ps = udp_lookup (w_ports w) \<and> wf_ports ps"
proof -
  have e: "udp_bind k ep w = Inr (e, w')" "e \<noteq> success" using assms(2) by (auto simp: udp_bind_throws_def raise_error_eq)
  from bind_error(2) [OF e(2,1)] show ?thesis
  proof (elim disjE exE conjE)
    assume "w' = w"
    then show ?thesis using assms(1) by (intro exI [of _ "w_ports w"]) simp
  next
    fix ips r ps
    assume "node_bind_udp_socket ips k ep (w_ports w) = Inr ((e, r), ps)" "w' = w\<lparr>w_ports := ps\<rparr>"
    then show ?thesis using node_bind_error(3,4) [OF assms(1) e(2)] by blast
  qed
qed

text \<open>
  A receive that throws has taken no datagram and written nothing, but the pending receive has been
  aborted, whatever it throws.
\<close>

lemma receive_from_throws_keeps:
  assumes "receive_from_throws k bufs sender w = Inr (Inl e, w')"
  shows "w' = udp_abort_recv_handlers k w" and "e \<in> {bad_descriptor, invalid_argument, would_block}"
  using assms by (auto simp: receive_from_throws_def receive_from_impl_def raise_error_eq Let_def
      split: if_splits list.splits prod.splits)

lemma receive_flags_ignored: "receive_from_flags_throws k bufs sender flags = receive_from_throws k bufs sender"
  by (simp add: fun_eq_iff receive_from_flags_throws_def receive_from_throws_def)

text \<open>
  A send that throws has sent nothing: no packet was forwarded or logged and the channel's time has
  not moved; the socket may have been bound, and the pending sends were aborted.
\<close>

lemma send_to_throws_keeps:
  assumes "send_to_throws fwd k bufs dst w = Inr (Inl e, w')"
  shows "w_queues w' = w_queues w" and "w_pcap w' = w_pcap w" and "w_mem w' = w_mem w" and "w_channels w' = w_channels w"
    and "w_tcp w' = w_tcp w" and "u_next_send (w_udp w' k) = u_next_send (w_udp w k)"
    and "u_send_handler (w_udp w' k) = None \<and> u_wait_send_handler (w_udp w' k) = None"
proof -
  let ?w0 = "udp_abort_send_handlers k w"
  let ?same = "\<lambda>w'. w_queues w' = w_queues w \<and> w_pcap w' = w_pcap w \<and> w_mem w' = w_mem w \<and> w_channels w' = w_channels w \<and>
    w_tcp w' = w_tcp w \<and> u_next_send (w_udp w' k) = u_next_send (w_udp w k) \<and>
    u_send_handler (w_udp w' k) = None \<and> u_wait_send_handler (w_udp w' k) = None"
  have abort: "?same ?w0" by (simp add: udp_abort_send_handlers_def Let_def)
  have "w' = ?w0 \<or> (\<exists>ep ec. udp_bind k ep ?w0 = Inr (ec, w'))"
    using assms by (auto simp: send_to_throws_def send_to_impl_def raise_error_eq Let_def split: if_splits)
  then have "?same w'"
  proof (elim disjE exE)
    assume "w' = ?w0"
    with abort show ?thesis by simp
  next
    fix ep ec
    assume "udp_bind k ep ?w0 = Inr (ec, w')"
    then have "w' = ?w0 \<or> (\<exists>ps r. w' = ?w0\<lparr>w_ports := ps\<rparr> \<or>
        w' = upd_udp k (\<lambda>s. s\<lparr>m_bound_to := r, m_user_bound_to := r\<rparr>) (?w0\<lparr>w_ports := ps\<rparr>))"
      by (auto simp: udp_bind_def ios_bind_udp_socket_def Let_def split: if_splits) blast+
    then show ?thesis using abort by auto
  qed
  then show "w_queues w' = w_queues w" and "w_pcap w' = w_pcap w" and "w_mem w' = w_mem w" and "w_channels w' = w_channels w"
    and "w_tcp w' = w_tcp w" and "u_next_send (w_udp w' k) = u_next_send (w_udp w k)"
    and "u_send_handler (w_udp w' k) = None \<and> u_wait_send_handler (w_udp w' k) = None"
    by simp_all
qed

end
