(* ===== verification/Function_Object.thy ===== *)
theory Function_Object
  imports Sim_Prelude
begin

text \<open>
  \<open>function.hpp\<close>, \<open>handler_allocator.hpp\<close> and \<open>mallocator.hpp\<close>: the move-only function objects all
  handlers of the library are kept in. A \<open>function\<close> is a pointer \<open>m_callable\<close> to a block of memory
  that holds the handler with the two functions for its type; here a function object is a
  number, \<open>fn_callable\<close> its pointer and \<open>fn_blocks\<close> the live blocks. A handler has code and owns
  other function objects: those that are among its members or in objects it holds the last
  pointer to; moving the handler moves them along, destroying it destroys them. Addresses are not
  used again. The bookkeeping of the allocators is kept beside: what was allocated and freed with
  which allocator (the handler's associated one) and which blocks' handlers were called.

  The rest of the development names no memory: there an empty function is \<open>None\<close> and a handler is
  the job it becomes. What is shown here is that the memory behind it is sound.
\<close>

section \<open>State\<close>

record 'u handler_obj =
  h_code :: 'u
  h_owned :: "nat list"
  h_alloc :: nat

record 'u fn_state =
  fn_blocks :: "nat \<rightharpoonup> 'u handler_obj"
  fn_callable :: "nat \<rightharpoonup> nat"
  fn_next :: nat
  fn_running :: "'u handler_obj list"
  fn_allocated :: "(nat \<times> nat) list"
  fn_freed :: "(nat \<times> nat) list"
  fn_called :: "nat list"

definition fn_start :: "'u fn_state" where
  "fn_start = \<lparr>fn_blocks = Map.empty, fn_callable = Map.empty, fn_next = 0, fn_running = [],
    fn_allocated = [], fn_freed = [], fn_called = []\<rparr>"

definition set_callable :: "nat \<Rightarrow> nat option \<Rightarrow> 'u fn_state \<Rightarrow> 'u fn_state" where
  "set_callable v p s = s\<lparr>fn_callable := (fn_callable s)(v := p)\<rparr>"

lemma set_callable_sel [simp]:
  "fn_callable (set_callable v p s) = (fn_callable s)(v := p)"
  "fn_blocks (set_callable v p s) = fn_blocks s"
  "fn_next (set_callable v p s) = fn_next s"
  "fn_running (set_callable v p s) = fn_running s"
  "fn_allocated (set_callable v p s) = fn_allocated s"
  "fn_freed (set_callable v p s) = fn_freed s"
  "fn_called (set_callable v p s) = fn_called s"
  by (simp_all add: set_callable_def)

section \<open>Allocation\<close>

text \<open>
  The allocator grants the memory, returns null, or grants it and the move of the handler into it
  throws.
\<close>

datatype allocation = Granted | Refused | Move_throws

datatype alloc_error = Bad_alloc | Move_error

definition allocate_handler :: "allocation \<Rightarrow> 'u handler_obj \<Rightarrow> 'u fn_state \<Rightarrow> (alloc_error + nat) \<times> 'u fn_state" where
  "allocate_handler al h s =
    (let a = fn_next s;
         s1 = s\<lparr>fn_next := Suc a, fn_allocated := fn_allocated s @ [(h_alloc h, a)]\<rparr>
     in case al of
          Refused \<Rightarrow> (Inl Bad_alloc, s)
        | Move_throws \<Rightarrow> (Inl Move_error, s1\<lparr>fn_freed := fn_freed s1 @ [(h_alloc h, a)]\<rparr>)
        | Granted \<Rightarrow> (Inr a, s1\<lparr>fn_blocks := (fn_blocks s1)(a \<mapsto> h)\<rparr>))"

text \<open>
  The beginning of \<open>call_impl\<close> and \<open>dealloc_impl\<close>: the handler is moved out, the object destroyed and
  the block freed with the handler's allocator. Reading a block that is not live is undefined.
\<close>

definition take_handler :: "nat \<Rightarrow> 'u fn_state \<Rightarrow> fault + ('u handler_obj \<times> 'u fn_state)" where
  "take_handler a s =
    bindE (derefE (fn_blocks s a)) (\<lambda>h.
    Inr (h, s\<lparr>fn_blocks := (fn_blocks s)(a := None), fn_freed := fn_freed s @ [(h_alloc h, a)]\<rparr>))"

text \<open>\<open>dealloc_impl\<close>; the local handler is destroyed at its end, with the functions it owns.\<close>

definition dealloc_impl ::
  "(nat \<Rightarrow> 'u fn_state \<Rightarrow> fault + 'u fn_state) \<Rightarrow> nat \<Rightarrow> 'u fn_state \<Rightarrow> fault + 'u fn_state" where
  "dealloc_impl destroy a s = bindE (take_handler a s) (\<lambda>(h, s1). eachE destroy (h_owned h) s1)"

section \<open>The operations of a function\<close>

text \<open>
  \<open>clear\<close>, which is also the destructor; fuel bounds the depth of ownership. The pointer is set to
  null after the handler is destroyed.
\<close>

primrec fn_clear :: "nat \<Rightarrow> nat \<Rightarrow> 'u fn_state \<Rightarrow> fault + 'u fn_state" where
  "fn_clear 0 v s = Inl Out_of_fuel"
| "fn_clear (Suc n) v s =
    (case fn_callable s v of
       None \<Rightarrow> Inr s
     | Some a \<Rightarrow> bindE (dealloc_impl (fn_clear n) a s) (\<lambda>s1. Inr (set_callable v None s1)))"

definition fn_destruct :: "nat \<Rightarrow> nat \<Rightarrow> 'u fn_state \<Rightarrow> fault + 'u fn_state" where
  "fn_destruct n v s = fn_clear n v s"

definition fn_assign_null :: "nat \<Rightarrow> nat \<Rightarrow> 'u fn_state \<Rightarrow> fault + 'u fn_state" where
  "fn_assign_null n v s = fn_clear n v s"

definition fn_default :: "nat \<Rightarrow> 'u fn_state \<Rightarrow> 'u fn_state" where
  "fn_default v s = set_callable v None s"

text \<open>The result is the exception; the handler that was passed is destroyed when there is one.\<close>

definition fn_construct ::
  "nat \<Rightarrow> allocation \<Rightarrow> nat \<Rightarrow> 'u handler_obj \<Rightarrow> 'u fn_state \<Rightarrow> fault + (alloc_error option \<times> 'u fn_state)" where
  "fn_construct n al v h s =
    (case allocate_handler al h s of
       (Inr a, s1) \<Rightarrow> Inr (None, set_callable v (Some a) s1)
     | (Inl e, s1) \<Rightarrow> bindE (eachE (fn_clear n) (h_owned h) s1) (\<lambda>s2. Inr (Some e, s2)))"

definition exchange_callable :: "nat \<Rightarrow> 'u fn_state \<Rightarrow> nat option \<times> 'u fn_state" where
  "exchange_callable v s = (fn_callable s v, set_callable v None s)"

definition fn_move_construct :: "nat \<Rightarrow> nat \<Rightarrow> 'u fn_state \<Rightarrow> 'u fn_state" where
  "fn_move_construct v other s = (let (p, s1) = exchange_callable other s in set_callable v p s1)"

definition fn_move_assign :: "nat \<Rightarrow> nat \<Rightarrow> nat \<Rightarrow> 'u fn_state \<Rightarrow> fault + 'u fn_state" where
  "fn_move_assign n v other s =
    (if other = v then Inr s
     else bindE (fn_clear n v s) (\<lambda>s1. Inr (fn_move_construct v other s1)))"

definition fn_copy_construct :: "nat \<Rightarrow> 'u fn_state \<Rightarrow> fault + 'u fn_state" where
  "fn_copy_construct v s = Inl Assertion_failed"

definition fn_bool :: "nat \<Rightarrow> 'u fn_state \<Rightarrow> bool" where
  "fn_bool v s \<longleftrightarrow> fn_callable s v \<noteq> None"

text \<open>
  \<open>operator()\<close> with \<open>call_impl\<close>, up to the call of the handler and from its return on; between them
  runs the handler's code, which may use any function object, this one included.
\<close>

definition begin_call :: "nat \<Rightarrow> 'u fn_state \<Rightarrow> fault + 'u fn_state" where
  "begin_call v s =
    bindE (assertE (fn_callable s v \<noteq> None)) (\<lambda>_.
    let (p, s1) = exchange_callable v s in
    bindE (derefE p) (\<lambda>a.
    bindE (take_handler a s1) (\<lambda>(h, s2).
    Inr (s2\<lparr>fn_running := h # fn_running s2, fn_called := fn_called s2 @ [a]\<rparr>))))"

definition end_call :: "nat \<Rightarrow> 'u fn_state \<Rightarrow> fault + 'u fn_state" where
  "end_call n s =
    (case fn_running s of
       [] \<Rightarrow> Inl Undefined_behaviour
     | h # hs \<Rightarrow> eachE (fn_clear n) (h_owned h) (s\<lparr>fn_running := hs\<rparr>))"

definition fn_call :: "nat \<Rightarrow> ('u \<Rightarrow> 'u fn_state \<Rightarrow> fault + 'u fn_state) \<Rightarrow> nat \<Rightarrow> 'u fn_state \<Rightarrow> fault + 'u fn_state" where
  "fn_call n code v s =
    bindE (begin_call v s) (\<lambda>s1. bindE (code (h_code (hd (fn_running s1))) s1) (end_call n))"

text \<open>
  \<open>move_binder\<close>: the bound arguments are moved into the call, and those of the call ignored. A
  moved-from argument is \<open>None\<close>.
\<close>

record ('c, 'a) move_binder =
  mb_callable :: 'c
  mb_args :: "'a option list"

definition move_bind :: "'c \<Rightarrow> 'a list \<Rightarrow> ('c, 'a) move_binder" where
  "move_bind c as = \<lparr>mb_callable = c, mb_args = map Some as\<rparr>"

definition call_binder ::
  "('c \<Rightarrow> 'a option list \<Rightarrow> 's \<Rightarrow> 's) \<Rightarrow> ('c, 'a) move_binder \<Rightarrow> 'b list \<Rightarrow> 's \<Rightarrow> ('c, 'a) move_binder \<times> 's" where
  "call_binder apply_callable m ignored s =
    (m\<lparr>mb_args := map (\<lambda>_. None) (mb_args m)\<rparr>, apply_callable (mb_callable m) (mb_args m) s)"

text \<open>\<open>make_malloc\<close>: the same handler, with the allocator \<open>m\<close> that uses \<open>malloc\<close>.\<close>

definition make_malloc :: "nat \<Rightarrow> 'u handler_obj \<Rightarrow> 'u handler_obj" where
  "make_malloc m h = h\<lparr>h_alloc := m\<rparr>"

section \<open>Invariant\<close>

text \<open>
  Every pointer is to a live block but for the objects in \<open>D\<close>, whose destruction is under way, every
  live block is pointed to and no two objects point to the same one; what was allocated has been
  freed, once, with the allocator it came from, or is live; a handler was called at most
  once, and its memory had been freed.
\<close>

definition fn_books :: "'u fn_state \<Rightarrow> bool" where
  "fn_books s \<longleftrightarrow>
    distinct (map snd (fn_allocated s)) \<and> (\<forall>m a. (m, a) \<in> set (fn_allocated s) \<longrightarrow> a < fn_next s) \<and>
    distinct (fn_freed s) \<and>
    (\<forall>m a. (m, a) \<in> set (fn_allocated s) \<longleftrightarrow>
      (m, a) \<in> set (fn_freed s) \<or> (\<exists>h. fn_blocks s a = Some h \<and> h_alloc h = m)) \<and>
    (\<forall>m a. (m, a) \<in> set (fn_freed s) \<longrightarrow> fn_blocks s a = None) \<and>
    distinct (fn_called s) \<and> (\<forall>a \<in> set (fn_called s). \<exists>m. (m, a) \<in> set (fn_freed s))"

definition fn_owned :: "nat set \<Rightarrow> 'u fn_state \<Rightarrow> bool" where
  "fn_owned D s \<longleftrightarrow>
    (\<forall>v a. fn_callable s v = Some a \<longrightarrow> (fn_blocks s a = None \<longleftrightarrow> v \<in> D)) \<and>
    (\<forall>v \<in> D. fn_callable s v \<noteq> None) \<and>
    (\<forall>a h. fn_blocks s a = Some h \<longrightarrow> (\<exists>v. fn_callable s v = Some a)) \<and>
    (\<forall>v w a. fn_callable s v = Some a \<longrightarrow> fn_callable s w = Some a \<longrightarrow> v = w) \<and>
    (\<forall>v a. fn_callable s v = Some a \<longrightarrow> a < fn_next s)"

definition fn_ok :: "nat set \<Rightarrow> 'u fn_state \<Rightarrow> bool" where
  "fn_ok D s \<longleftrightarrow> fn_books s \<and> fn_owned D s"

lemma fn_ok_start: "fn_ok {} fn_start"
  by (simp add: fn_ok_def fn_books_def fn_owned_def fn_start_def)

lemma fn_books_live:
  assumes "fn_books s" and "fn_blocks s a = Some h"
  shows "a < fn_next s" and "(m, a) \<notin> set (fn_freed s)" and "a \<notin> set (fn_called s)"
proof -
  have "(h_alloc h, a) \<in> set (fn_allocated s)" using assms by (auto simp: fn_books_def)
  then show "a < fn_next s" using assms(1) unfolding fn_books_def by blast
  show freed: "(m, a) \<notin> set (fn_freed s)" for m using assms unfolding fn_books_def by force
  show "a \<notin> set (fn_called s)" using assms(1) freed unfolding fn_books_def by blast
qed

lemma fn_books_fresh:
  assumes "fn_books s"
  shows "fn_blocks s (fn_next s) = None" and "(m, fn_next s) \<notin> set (fn_freed s)"
    and "fn_next s \<notin> snd ` set (fn_allocated s)"
proof -
  show "fn_blocks s (fn_next s) = None"
    using fn_books_live(1) [OF assms] by (cases "fn_blocks s (fn_next s)") blast+
  show n: "fn_next s \<notin> snd ` set (fn_allocated s)" using assms by (force simp: fn_books_def)
  show "(m, fn_next s) \<notin> set (fn_freed s)"
    using assms n unfolding fn_books_def by (metis image_eqI snd_conv)
qed

lemma books_take:
  assumes "fn_books s" and "take_handler a s = Inr (h, s1)"
  shows "fn_books s1" and "fn_books (s1\<lparr>fn_running := r, fn_called := fn_called s1 @ [a]\<rparr>)"
proof -
  from assms(2) have h: "fn_blocks s a = Some h"
    and s1: "s1 = s\<lparr>fn_blocks := (fn_blocks s)(a := None), fn_freed := fn_freed s @ [(h_alloc h, a)]\<rparr>"
    by (auto simp: take_handler_def)
  note fresh = fn_books_live [OF assms(1) h]
  have b: "distinct (map snd (fn_allocated s))" "distinct (fn_freed s)" "distinct (fn_called s)"
    "\<And>m b. (m, b) \<in> set (fn_allocated s) \<Longrightarrow> b < fn_next s"
    "\<And>m b. (m, b) \<in> set (fn_allocated s) \<longleftrightarrow>
      (m, b) \<in> set (fn_freed s) \<or> (\<exists>k. fn_blocks s b = Some k \<and> h_alloc k = m)"
    "\<And>m b. (m, b) \<in> set (fn_freed s) \<Longrightarrow> fn_blocks s b = None"
    "\<And>b. b \<in> set (fn_called s) \<Longrightarrow> \<exists>m. (m, b) \<in> set (fn_freed s)"
    using assms(1) unfolding fn_books_def by blast+
  have "(m, b) \<in> set (fn_allocated s) \<longleftrightarrow>
      (m, b) \<in> set (fn_freed s1) \<or> (\<exists>k. fn_blocks s1 b = Some k \<and> h_alloc k = m)" for m b
    by (cases "b = a") (auto simp: s1 b(5) h)
  moreover have "fn_blocks s1 b = None" if "(m, b) \<in> set (fn_freed s1)" for m b
    using that by (auto simp: s1 dest: b(6))
  moreover have "distinct (fn_freed s1)" using b(2) fresh(2) by (simp add: s1)
  moreover have "\<exists>m. (m, b) \<in> set (fn_freed s1)" if "b \<in> insert a (set (fn_called s))" for b
    using that b(7) by (auto simp: s1)
  ultimately show "fn_books s1" and "fn_books (s1\<lparr>fn_running := r, fn_called := fn_called s1 @ [a]\<rparr>)"
    using b(1,3,4) fresh(3) by (simp_all add: fn_books_def s1)
qed

lemma owned_take:
  assumes "fn_owned D s" and "fn_callable s v = Some a" and "take_handler a s = Inr (h, s1)"
  shows "fn_owned (insert v D) s1"
proof -
  from assms(3) have "s1 = s\<lparr>fn_blocks := (fn_blocks s)(a := None), fn_freed := fn_freed s @ [(h_alloc h, a)]\<rparr>"
    by (auto simp: take_handler_def)
  with assms(1,2) show ?thesis
    by (auto simp: fn_owned_def)
qed

lemma owned_release:
  assumes "fn_owned (insert v D) s" and "v \<notin> D"
  shows "fn_owned D (set_callable v None s)"
proof -
  obtain b where b: "fn_callable s v = Some b" "fn_blocks s b = None"
    using assms(1) by (auto simp: fn_owned_def)
  then have "\<exists>w. w \<noteq> v \<and> fn_callable s w = Some a" if "fn_blocks s a = Some h" for a h
    using that assms(1) unfolding fn_owned_def by (metis option.distinct(1) option.inject)
  with assms b show ?thesis
    by (simp add: fn_owned_def) (metis insert_iff)
qed

lemma fn_books_cong: "fn_blocks s = fn_blocks s' \<Longrightarrow> fn_next s = fn_next s' \<Longrightarrow> fn_allocated s = fn_allocated s' \<Longrightarrow>
    fn_freed s = fn_freed s' \<Longrightarrow> fn_called s = fn_called s' \<Longrightarrow> fn_books s = fn_books s'"
  by (simp add: fn_books_def)

lemma fn_books_set [simp]: "fn_books (set_callable v p s) = fn_books s"
  "fn_books (s\<lparr>fn_running := r\<rparr>) = fn_books s"
  by (rule fn_books_cong; simp)+

lemma fn_owned_cong:
  "fn_blocks s = fn_blocks s' \<Longrightarrow> fn_next s = fn_next s' \<Longrightarrow> fn_callable s = fn_callable s' \<Longrightarrow> fn_owned D s = fn_owned D s'"
  by (simp add: fn_owned_def)

lemma fn_ownedI:
  assumes "\<And>v a. fn_callable s v = Some a \<Longrightarrow> fn_blocks s a \<noteq> None \<and> a < fn_next s"
    and "\<And>a h. fn_blocks s a = Some h \<Longrightarrow> \<exists>v. fn_callable s v = Some a"
    and "\<And>v w a. fn_callable s v = Some a \<Longrightarrow> fn_callable s w = Some a \<Longrightarrow> v = w"
  shows "fn_owned {} s"
  unfolding fn_owned_def empty_iff ball_empty using assms by blast

lemma fn_ownedD:
  assumes "fn_owned {} s"
  shows "fn_callable s v = Some a \<Longrightarrow> fn_blocks s a \<noteq> None \<and> a < fn_next s"
    and "fn_blocks s a = Some h \<Longrightarrow> \<exists>v. fn_callable s v = Some a"
    and "fn_callable s v = Some a \<Longrightarrow> fn_callable s w = Some a \<Longrightarrow> v = w"
  using assms unfolding fn_owned_def by blast+

lemma fn_owned_running [simp]: "fn_owned D (s\<lparr>fn_running := r\<rparr>) = fn_owned D s"
  by (simp add: fn_owned_def)

text \<open>Clearing keeps the invariant, and leaves what is under way and what runs alone.\<close>

definition fn_frame :: "nat set \<Rightarrow> 'u fn_state \<Rightarrow> 'u fn_state \<Rightarrow> bool" where
  "fn_frame D s s' \<longleftrightarrow> fn_ok D s' \<and> (\<forall>d \<in> D. fn_callable s' d = fn_callable s d) \<and>
    fn_running s' = fn_running s \<and> fn_called s' = fn_called s"

lemma fn_clear_frame:
  "fn_clear n v s = Inr s' \<Longrightarrow> fn_ok D s \<Longrightarrow> fn_frame D s s'"
proof (induction n arbitrary: v s s' D)
  case 0
  then show ?case by simp
next
  case (Suc n)
  show ?case
  proof (cases "fn_callable s v")
    case None
    then show ?thesis using Suc.prems by (simp add: fn_frame_def)
  next
    case (Some a)
    with Suc.prems(1) obtain h s1 s2 where h: "take_handler a s = Inr (h, s1)"
      and each: "eachE (fn_clear n) (h_owned h) s1 = Inr s2" and s': "s' = set_callable v None s2"
      by (auto simp: dealloc_impl_def)
    have new: "v \<notin> D" using h Some Suc.prems(2) by (fastforce simp: take_handler_def fn_ok_def fn_owned_def)
    have s1: "fn_callable s1 = fn_callable s" "fn_running s1 = fn_running s" "fn_called s1 = fn_called s"
      using h by (auto simp: take_handler_def)
    let ?P = "fn_frame (insert v D) s1"
    have "?P s1" using Suc.prems(2) Some h by (auto simp: fn_frame_def fn_ok_def intro: books_take owned_take)
    moreover have "?P t'" if "?P t" "fn_clear n w t = Inr t'" for w t t'
      using Suc.IH [OF that(2), of "insert v D"] that(1) by (auto simp: fn_frame_def)
    ultimately have "?P s2" using each by (rule_tac eachE_inv [where P = ?P]) auto
    then show ?thesis
      using new by (auto simp: s' fn_frame_def fn_ok_def s1 owned_release)
  qed
qed

lemma each_clear_frame:
  assumes "eachE (fn_clear n) vs s = Inr s'" and "fn_ok D s"
  shows "fn_frame D s s'"
proof (rule eachE_inv [where P = "fn_frame D s", OF _ assms(1)])
  show "fn_frame D s s" using assms(2) by (simp add: fn_frame_def)
  show "fn_frame D s t'" if "fn_clear n v t = Inr t'" "fn_frame D s t" for v t t'
    using fn_clear_frame [OF that(1), of D] that(2) by (auto simp: fn_frame_def)
qed

text \<open>What is left of an allocation when the move of the handler throws.\<close>

definition fn_spent :: "'u handler_obj \<Rightarrow> 'u fn_state \<Rightarrow> 'u fn_state" where
  "fn_spent h s = s\<lparr>fn_next := Suc (fn_next s), fn_allocated := fn_allocated s @ [(h_alloc h, fn_next s)],
    fn_freed := fn_freed s @ [(h_alloc h, fn_next s)]\<rparr>"

lemma fn_spent_ok:
  assumes "fn_ok {} s"
  shows "fn_ok {} (fn_spent h s)"
proof -
  have books: "fn_books s" using assms by (simp add: fn_ok_def)
  then have "fn_books (fn_spent h s)"
    using fn_books_fresh [OF books] by (auto simp: fn_books_def fn_spent_def less_Suc_eq)
  then show ?thesis
    using assms by (auto simp: fn_ok_def fn_owned_def fn_spent_def less_Suc_eq)
qed

lemma fn_construct_ok:
  assumes "fn_construct n al v h s = Inr (e, s')" and "fn_ok {} s" and "fn_callable s v = None"
  shows "fn_ok {} s'"
proof (cases al)
  case Granted
  let ?a = "fn_next s"
  have books: "fn_books s" using assms(2) by (simp add: fn_ok_def)
  note free = fn_books_fresh [OF books]
  have s': "s' = set_callable v (Some ?a) (s\<lparr>fn_next := Suc ?a,
      fn_allocated := fn_allocated s @ [(h_alloc h, ?a)], fn_blocks := (fn_blocks s)(?a \<mapsto> h)\<rparr>)"
    using assms(1) Granted by (simp add: fn_construct_def allocate_handler_def Let_def)
  have "fn_books s'"
    using books free unfolding s' fn_books_set
    by (auto simp: fn_books_def less_Suc_eq)
  moreover have "fn_owned {} s'"
    unfolding fn_owned_def
  proof (intro conjI allI impI)
    fix b k assume "fn_blocks s' b = Some k"
    then show "\<exists>w. fn_callable s' w = Some b"
      using assms(2,3) by (cases "b = ?a") (auto simp: s' fn_ok_def fn_owned_def, metis option.distinct(1))
  qed (use assms(2,3) free in \<open>fastforce simp: s' fn_ok_def fn_owned_def split: if_splits\<close>)+
  ultimately show ?thesis by (simp add: fn_ok_def)
next
  case Refused
  then have "eachE (fn_clear n) (h_owned h) s = Inr s'"
    using assms(1) by (auto simp: fn_construct_def allocate_handler_def)
  then show ?thesis using each_clear_frame assms(2) by (fastforce simp: fn_frame_def)
next
  case Move_throws
  then have "eachE (fn_clear n) (h_owned h) (fn_spent h s) = Inr s'"
    using assms(1) by (auto simp: fn_construct_def allocate_handler_def fn_spent_def Let_def)
  from each_clear_frame [OF this fn_spent_ok [OF assms(2)]] show ?thesis by (simp add: fn_frame_def)
qed

text \<open>A pointer that is handed from one object to another that has none.\<close>

lemma owned_move:
  assumes "fn_owned {} s" and "fn_callable s v = None"
  shows "fn_owned {} (fn_move_construct v other s)"
proof -
  let ?s = "fn_move_construct v other s"
  have c: "fn_callable ?s w =
      (if w = v then fn_callable s other else if w = other then None else fn_callable s w)" for w
    by (simp add: fn_move_construct_def exchange_callable_def)
  have same: "fn_blocks ?s = fn_blocks s" "fn_next ?s = fn_next s"
    by (simp_all add: fn_move_construct_def exchange_callable_def)
  have src: "fn_callable s (if w = v then other else w) = Some a" "w = v \<or> w \<noteq> other"
    if "fn_callable ?s w = Some a" for w a
    using that by (auto simp: c split: if_splits)
  show ?thesis
  proof (rule fn_ownedI)
    fix w a assume "fn_callable ?s w = Some a"
    then show "fn_blocks ?s a \<noteq> None \<and> a < fn_next ?s"
      unfolding same by (rule fn_ownedD(1) [OF assms(1) src(1)])
  next
    fix a h assume "fn_blocks ?s a = Some h"
    then have "fn_blocks s a = Some h" by (simp only: same)
    from fn_ownedD(2) [OF assms(1) this] obtain u where u: "fn_callable s u = Some a" ..
    then have "fn_callable ?s (if u = other then v else u) = Some a" using assms(2) by (auto simp: c)
    then show "\<exists>w. fn_callable ?s w = Some a" ..
  next
    fix w u a assume w: "fn_callable ?s w = Some a" and u: "fn_callable ?s u = Some a"
    have "(if w = v then other else w) = (if u = v then other else u)"
      by (rule fn_ownedD(3) [OF assms(1) src(1) [OF w] src(1) [OF u]])
    then show "w = u" using src(2) [OF w] src(2) [OF u] by (auto split: if_splits)
  qed
qed

lemma fn_move_ok: "fn_ok {} s \<Longrightarrow> fn_callable s v = None \<Longrightarrow> fn_ok {} (fn_move_construct v other s)"
  by (simp add: fn_ok_def owned_move) (simp add: fn_move_construct_def exchange_callable_def)

lemma fn_clear_null: "fn_clear n v s = Inr s' \<Longrightarrow> fn_callable s' v = None"
  by (cases n) (auto split: option.splits)

lemma fn_clear_ok: "fn_clear n v s = Inr s' \<Longrightarrow> fn_ok {} s \<Longrightarrow> fn_ok {} s'"
  by (auto dest: fn_clear_frame simp: fn_frame_def)

lemma fn_move_assign_ok: "fn_move_assign n v other s = Inr s' \<Longrightarrow> fn_ok {} s \<Longrightarrow> fn_ok {} s'"
  by (auto simp: fn_move_assign_def split: if_splits intro: fn_move_ok fn_clear_null fn_clear_ok)

lemma begin_call_cases:
  assumes "begin_call v s = Inr s'"
  obtains a h s1 where "fn_callable s v = Some a" and "take_handler a s = Inr (h, s1)"
    and "s' = set_callable v None (s1\<lparr>fn_running := h # fn_running s, fn_called := fn_called s @ [a]\<rparr>)"
  using assms that by (auto simp: begin_call_def exchange_callable_def take_handler_def set_callable_def)

lemma begin_call_ok:
  assumes "begin_call v s = Inr s'" and "fn_ok {} s"
  shows "fn_ok {} s'"
  using assms(1)
proof (rule begin_call_cases)
  fix a h s1
  assume a: "fn_callable s v = Some a" and t: "take_handler a s = Inr (h, s1)"
    and s': "s' = set_callable v None (s1\<lparr>fn_running := h # fn_running s, fn_called := fn_called s @ [a]\<rparr>)"
  have "fn_owned (insert v {}) s1" using assms(2) a t by (auto simp: fn_ok_def intro: owned_take)
  then have "fn_owned {} (set_callable v None s1)" by (rule owned_release) simp
  then have "fn_owned {} s'" unfolding s' by (rule iffD1 [OF fn_owned_cong, rotated -1]) simp_all
  moreover have "fn_called s1 = fn_called s" using t by (auto simp: take_handler_def)
  then have "fn_books s'"
    using books_take(2) [OF _ t, of "h # fn_running s"] assms(2) by (simp add: fn_ok_def s')
  ultimately show ?thesis by (simp add: fn_ok_def)
qed

lemma end_call_ok:
  assumes "end_call n s = Inr s'" and "fn_ok {} s"
  shows "fn_ok {} s'"
proof -
  obtain h hs where r: "fn_running s = h # hs"
    using assms(1) by (cases "fn_running s") (auto simp: end_call_def)
  then have e: "eachE (fn_clear n) (h_owned h) (s\<lparr>fn_running := hs\<rparr>) = Inr s'"
    using assms(1) by (simp add: end_call_def)
  have "fn_ok {} (s\<lparr>fn_running := hs\<rparr>)" using assms(2) by (simp add: fn_ok_def)
  from each_clear_frame [OF e this] show ?thesis by (simp add: fn_frame_def)
qed

section \<open>What a program can do with function objects\<close>

text \<open>
  The operations of a program, with what may go wrong in them: an object is constructed where there
  is none (its pointer is null); a call has begun when its handler runs, and whatever the handler
  does are operations before the call returns. A fault ends the program, so it has no state.
\<close>

datatype 'u fn_op =
    Construct allocation nat "'u handler_obj"
  | Default nat
  | Move_construct nat nat
  | Move_assign nat nat
  | Assign_null nat
  | Destruct nat
  | Call nat
  | Return

definition fn_allowed :: "'u fn_op \<Rightarrow> 'u fn_state \<Rightarrow> bool" where
  "fn_allowed op s =
    (case op of
       Construct al v h \<Rightarrow> fn_callable s v = None
     | Default v \<Rightarrow> fn_callable s v = None
     | Move_construct v other \<Rightarrow> fn_callable s v = None
     | Return \<Rightarrow> fn_running s \<noteq> []
     | _ \<Rightarrow> True)"

definition fn_exec :: "nat \<Rightarrow> 'u fn_op \<Rightarrow> 'u fn_state \<Rightarrow> fault + 'u fn_state" where
  "fn_exec n op s =
    (case op of
       Construct al v h \<Rightarrow> bindE (fn_construct n al v h s) (\<lambda>(_, s1). Inr s1)
     | Default v \<Rightarrow> Inr (fn_default v s)
     | Move_construct v other \<Rightarrow> Inr (fn_move_construct v other s)
     | Move_assign v other \<Rightarrow> fn_move_assign n v other s
     | Assign_null v \<Rightarrow> fn_assign_null n v s
     | Destruct v \<Rightarrow> fn_destruct n v s
     | Call v \<Rightarrow> begin_call v s
     | Return \<Rightarrow> end_call n s)"

inductive fn_reachable :: "'u fn_state \<Rightarrow> bool" where
  Start: "fn_reachable fn_start"
| Step: "fn_reachable s \<Longrightarrow> fn_allowed op s \<Longrightarrow> fn_exec n op s = Inr s' \<Longrightarrow> fn_reachable s'"

lemma fn_default_ok: "fn_callable s v = None \<Longrightarrow> fn_default v s = s"
  by (simp add: fn_default_def set_callable_def fun_upd_idem)

lemma fn_exec_ok: "fn_exec n op s = Inr s' \<Longrightarrow> fn_allowed op s \<Longrightarrow> fn_ok {} s \<Longrightarrow> fn_ok {} s'"
  by (cases op)
    (auto simp: fn_exec_def fn_allowed_def fn_assign_null_def fn_destruct_def fn_default_ok fn_move_ok
      intro: fn_construct_ok fn_move_assign_ok begin_call_ok end_call_ok fn_clear_ok)

lemma fn_reachable_ok: "fn_reachable s \<Longrightarrow> fn_ok {} s"
  by (induction rule: fn_reachable.induct) (auto intro: fn_ok_start fn_exec_ok)

text \<open>
  What soundness is: no memory was freed twice nor with another allocator than it came from, no
  handler was called twice and the memory of a handler had been freed when it was called, the
  pointers are to live blocks, one each, and when no object holds a handler any more everything
  that was allocated has been freed.
\<close>

definition fn_sound :: "'u fn_state \<Rightarrow> bool" where
  "fn_sound s \<longleftrightarrow>
    distinct (map snd (fn_freed s)) \<and> set (fn_freed s) \<subseteq> set (fn_allocated s) \<and>
    distinct (fn_called s) \<and> set (fn_called s) \<subseteq> snd ` set (fn_freed s) \<and>
    (\<forall>v w a. fn_callable s v = Some a \<longrightarrow> fn_blocks s a \<noteq> None \<and> (fn_callable s w = Some a \<longrightarrow> v = w)) \<and>
    ((\<forall>v. fn_callable s v = None) \<longrightarrow> set (fn_freed s) = set (fn_allocated s))"

lemma fn_ok_sound:
  assumes "fn_ok {} s"
  shows "fn_sound s"
proof -
  have b: "fn_books s" and o: "fn_owned {} s"
    using assms by (simp_all add: fn_ok_def)
  have sub: "set (fn_freed s) \<subseteq> set (fn_allocated s)"
    using b by (auto simp: fn_books_def)
  have "inj_on snd (set (fn_allocated s))" "distinct (fn_freed s)"
    using b by (auto simp: fn_books_def distinct_map)
  then have "distinct (map snd (fn_freed s))"
    using sub by (auto simp: distinct_map intro: inj_on_subset)
  moreover have "distinct (fn_called s)" and called: "\<forall>a \<in> set (fn_called s). \<exists>m. (m, a) \<in> set (fn_freed s)"
    using b by (simp_all add: fn_books_def)
  moreover have "set (fn_called s) \<subseteq> snd ` set (fn_freed s)"
    using called by (metis image_eqI snd_conv subsetI)
  moreover have "set (fn_freed s) = set (fn_allocated s)" if none: "\<forall>v. fn_callable s v = None"
  proof -
    have "fn_blocks s a = None" for a
      using fn_ownedD(2) [OF o, of a] none by (cases "fn_blocks s a") auto
    then show ?thesis using b by (auto simp: fn_books_def)
  qed
  ultimately show ?thesis
    using sub fn_ownedD(1,3) [OF o] unfolding fn_sound_def by blast
qed

section \<open>Ownership without cycles\<close>

text \<open>The objects the handler of an object owns. Clearing only takes blocks, pointers and so ownership away.\<close>

definition owns :: "'u fn_state \<Rightarrow> (nat \<times> nat) set" where
  "owns s = {(v, w). \<exists>a h. fn_callable s v = Some a \<and> fn_blocks s a = Some h \<and> w \<in> set (h_owned h)}"

definition shrunk :: "'u fn_state \<Rightarrow> 'u fn_state \<Rightarrow> bool" where
  "shrunk s s' \<longleftrightarrow> fn_callable s' \<subseteq>\<^sub>m fn_callable s \<and> fn_blocks s' \<subseteq>\<^sub>m fn_blocks s"

lemma shrunk_refl [simp]: "shrunk s s"
  by (simp add: shrunk_def)

lemma shrunk_trans: "shrunk s t \<Longrightarrow> shrunk t u \<Longrightarrow> shrunk s u"
  by (auto simp: shrunk_def intro: map_le_trans)

lemma shrunk_owns: "shrunk s s' \<Longrightarrow> owns s' \<subseteq> owns s"
  by (fastforce simp: shrunk_def owns_def map_le_def dom_def)

lemma shrunk_take: "take_handler a s = Inr (h, s1) \<Longrightarrow> shrunk s s1"
  by (auto simp: take_handler_def shrunk_def map_le_def split: if_splits)

lemma shrunk_null: "shrunk s (set_callable v None s)"
  by (simp add: shrunk_def map_le_def)

lemma fn_clear_shrinks: "fn_clear n v s = Inr s' \<Longrightarrow> shrunk s s'"
proof (induction n arbitrary: v s s')
  case (Suc n)
  have each: "eachE (fn_clear n) vs s1 = Inr s2 \<Longrightarrow> shrunk s s1 \<Longrightarrow> shrunk s s2" for vs s1 s2
    by (erule (1) eachE_inv [rotated]) (blast intro: Suc.IH shrunk_trans)
  from Suc.prems show ?case
    by (auto simp: dealloc_impl_def split: option.splits
        intro: each shrunk_trans [OF _ shrunk_null] dest: shrunk_take)
qed simp

text \<open>Each level of clearing takes a block, so fuel for the live blocks is enough.\<close>

lemma live_finite: "fn_ok D s \<Longrightarrow> finite (dom (fn_blocks s)) \<and> card (dom (fn_blocks s)) \<le> fn_next s"
proof -
  assume "fn_ok D s"
  then have "dom (fn_blocks s) \<subseteq> {..<fn_next s}"
    using fn_books_live(1) by (fastforce simp: fn_ok_def)
  then show ?thesis
    by (metis card_lessThan card_mono finite_lessThan finite_subset)
qed

lemma shrunk_live: "shrunk s s' \<Longrightarrow> finite (dom (fn_blocks s)) \<Longrightarrow>
    finite (dom (fn_blocks s')) \<and> card (dom (fn_blocks s')) \<le> card (dom (fn_blocks s))"
  unfolding shrunk_def by (metis card_mono finite_subset map_le_implies_dom_le)

lemma take_live:
  assumes "take_handler a s = Inr (h, s1)" and "finite (dom (fn_blocks s))" and "card (dom (fn_blocks s)) < Suc n"
  shows "finite (dom (fn_blocks s1)) \<and> card (dom (fn_blocks s1)) < n"
proof -
  have "dom (fn_blocks s1) = dom (fn_blocks s) - {a}" and "a \<in> dom (fn_blocks s)"
    using assms(1) by (auto simp: take_handler_def split: if_splits)
  moreover from assms(2) this(2) have "0 < card (dom (fn_blocks s))" by (auto simp: card_gt_0_iff)
  ultimately show ?thesis using assms(2,3) by simp
qed

lemma eachE_fault:
  assumes "\<And>x s s'. f x s = Inr s' \<Longrightarrow> P s \<Longrightarrow> P s'"
  shows "eachE f xs s = Inl e \<Longrightarrow> P s \<Longrightarrow> \<exists>x t. x \<in> set xs \<and> P t \<and> f x t = Inl e"
proof (induction xs arbitrary: s)
  case (Cons x xs)
  show ?case
  proof (cases "f x s")
    case (Inl d)
    with Cons.prems show ?thesis by auto
  next
    case (Inr s1)
    with Cons.prems(1) have "eachE f xs s1 = Inl e" by simp
    from Cons.IH [OF this assms [OF Inr Cons.prems(2)]] show ?thesis by auto
  qed
qed simp

lemma fn_clear_fault:
  fixes s :: "'u fn_state"
  shows "fn_clear n v s = Inl e \<Longrightarrow> finite (dom (fn_blocks s)) \<Longrightarrow> card (dom (fn_blocks s)) < n \<Longrightarrow>
    e = Undefined_behaviour"
proof (induction n arbitrary: v s)
  case (Suc n)
  then obtain a where a: "dealloc_impl (fn_clear n) a s = Inl e"
    by (cases "fn_callable s v") (auto simp: bindE_def split: sum.splits)
  show ?case
  proof (cases "take_handler a s")
    case (Inl d)
    with a show ?thesis
      by (cases "fn_blocks s a") (auto simp: dealloc_impl_def take_handler_def)
  next
    case (Inr r)
    obtain h s1 where t: "take_handler a s = Inr (h, s1)" using Inr by (cases r) simp
    let ?P = "\<lambda>s :: 'u fn_state. finite (dom (fn_blocks s)) \<and> card (dom (fn_blocks s)) < n"
    have "eachE (fn_clear n) (h_owned h) s1 = Inl e" "?P s1"
      using a take_live [OF t Suc.prems(2,3)] by (simp_all add: dealloc_impl_def t)
    moreover have "?P u'" if "fn_clear n w u = Inr u'" "?P u" for w u u'
      using shrunk_live [OF fn_clear_shrinks [OF that(1)]] that(2) by auto
    ultimately have "\<exists>w u. w \<in> set (h_owned h) \<and> ?P u \<and> fn_clear n w u = Inl e"
      using eachE_fault [of "fn_clear n" ?P "h_owned h" s1 e] by blast
    then show ?thesis using Suc.IH by blast
  qed
qed simp

text \<open>
  Without a cycle the objects \<open>D\<close> whose destruction is under way own, directly or not, the one that
  is cleared, so it is not among them and its block is live.
\<close>

lemma fn_clear_acyclic:
  fixes s :: "'u fn_state"
  assumes "acyclic R" and "owns s \<subseteq> R" and "fn_ok D s" and "\<forall>d \<in> D. (d, v) \<in> R\<^sup>+"
    and "card (dom (fn_blocks s)) < n"
  shows "\<exists>s'. fn_clear n v s = Inr s'"
  using assms(2-)
proof (induction n arbitrary: v s D)
  case (Suc n)
  show ?case
  proof (cases "fn_callable s v")
    case (Some a)
    have "v \<notin> D" using Suc.prems(3) assms(1) by (auto simp: acyclic_def)
    then obtain h where h: "fn_blocks s a = Some h"
      using Suc.prems(2) Some by (fastforce simp: fn_ok_def fn_owned_def)
    then obtain s1 where t: "take_handler a s = Inr (h, s1)" by (simp add: take_handler_def)
    let ?P = "\<lambda>u :: 'u fn_state. owns u \<subseteq> R \<and> fn_ok (insert v D) u \<and> card (dom (fn_blocks u)) < n"
    have "?P s1"
      using Suc.prems(1,2) Some t take_live [OF t _ Suc.prems(4)] live_finite [OF Suc.prems(2)]
        shrunk_owns [OF shrunk_take [OF t]] books_take(1) [OF _ t] owned_take [OF _ Some t]
      by (auto simp: fn_ok_def)
    moreover have "\<exists>u'. fn_clear n w u = Inr u' \<and> ?P u'" if w: "w \<in> set (h_owned h)" and u: "?P u" for w u
    proof -
      have vw: "(v, w) \<in> R" using w Suc.prems(1) Some h by (auto simp: owns_def)
      then have "\<forall>d \<in> insert v D. (d, w) \<in> R\<^sup>+"
        using Suc.prems(3) by (auto intro: trancl_into_trancl)
      with Suc.IH [of u "insert v D" w] u obtain u' where u': "fn_clear n w u = Inr u'" by auto
      have "card (dom (fn_blocks u')) \<le> card (dom (fn_blocks u))"
        using shrunk_live [OF fn_clear_shrinks [OF u']] live_finite u by blast
      then show ?thesis
        using u u' shrunk_owns [OF fn_clear_shrinks [OF u']] fn_clear_frame [OF u'] by (fastforce simp: fn_frame_def)
    qed
    ultimately have "\<exists>s2. eachE (fn_clear n) (h_owned h) s1 = Inr s2 \<and> ?P s2"
      by (intro eachE_total [where P = ?P]) blast+
    then show ?thesis using Some t by (auto simp: dealloc_impl_def)
  qed simp
qed simp

lemma each_clear_acyclic:
  fixes s :: "'u fn_state"
  assumes "acyclic (owns s)" and "fn_ok {} s" and "card (dom (fn_blocks s)) < n"
  shows "\<exists>s'. eachE (fn_clear n) vs s = Inr s'"
proof -
  let ?P = "\<lambda>u :: 'u fn_state. owns u \<subseteq> owns s \<and> fn_ok {} u \<and> card (dom (fn_blocks u)) < n"
  have "\<exists>u'. fn_clear n w u = Inr u' \<and> ?P u'" if u: "?P u" for w u
  proof -
    from u obtain u' where u': "fn_clear n w u = Inr u'"
      using fn_clear_acyclic [OF assms(1), of u "{}" w n] by auto
    have "card (dom (fn_blocks u')) \<le> card (dom (fn_blocks u))"
      using shrunk_live [OF fn_clear_shrinks [OF u']] live_finite u by blast
    then show ?thesis
      using u u' shrunk_owns [OF fn_clear_shrinks [OF u']] fn_clear_ok [OF u'] by fastforce
  qed
  moreover have "?P s" using assms(2,3) by simp
  ultimately show ?thesis
    using eachE_total [of vs ?P "fn_clear n" s] by blast
qed

lemma fn_construct_acyclic:
  assumes "acyclic (owns s)" and "fn_ok {} s" and "card (dom (fn_blocks s)) < n"
  shows "\<exists>e s'. fn_construct n al v h s = Inr (e, s')"
proof (cases al)
  case Move_throws
  have "owns (fn_spent h s) = owns s" "dom (fn_blocks (fn_spent h s)) = dom (fn_blocks s)"
    by (simp_all add: owns_def fn_spent_def)
  then obtain s' where "eachE (fn_clear n) (h_owned h) (fn_spent h s) = Inr s'"
    using each_clear_acyclic [of "fn_spent h s" n "h_owned h"] fn_spent_ok [OF assms(2)] assms(1,3) by auto
  with Move_throws show ?thesis
    by (simp add: fn_construct_def allocate_handler_def fn_spent_def Let_def)
next
  case Refused
  then show ?thesis
    using each_clear_acyclic [OF assms, of "h_owned h"] by (auto simp: fn_construct_def allocate_handler_def Let_def)
qed (simp add: fn_construct_def allocate_handler_def Let_def)

lemma fn_exec_acyclic:
  assumes "acyclic (owns s)" and "fn_ok {} s" and "fn_next s < n" and "fn_allowed op s"
  shows "(\<exists>s'. fn_exec n op s = Inr s') \<or>
    (\<exists>v. op = Call v \<and> fn_callable s v = None \<and> fn_exec n op s = Inl Assertion_failed)"
proof -
  have live: "card (dom (fn_blocks s)) < n" using live_finite [OF assms(2)] assms(3) by simp
  have clear: "\<exists>s'. fn_clear n v s = Inr s'" for v
    by (rule fn_clear_acyclic [OF assms(1) subset_refl assms(2) _ live]) simp
  show ?thesis
  proof (cases op)
    case (Construct al v h)
    then show ?thesis
      using fn_construct_acyclic [OF assms(1,2) live, of al v h] by (auto simp: fn_exec_def)
  next
    case (Move_assign v other)
    then show ?thesis using clear [of v] by (auto simp: fn_exec_def fn_move_assign_def)
  next
    case (Call v)
    show ?thesis
    proof (cases "fn_callable s v")
      case None
      then show ?thesis using Call by (simp add: fn_exec_def begin_call_def)
    next
      case (Some a)
      then obtain h where "fn_blocks s a = Some h"
        using assms(2) fn_ownedD(1) by (fastforce simp: fn_ok_def)
      then show ?thesis
        using Call Some by (simp add: fn_exec_def begin_call_def exchange_callable_def take_handler_def)
    qed
  next
    case Return
    then obtain h hs where r: "fn_running s = h # hs"
      using assms(4) by (auto simp: fn_allowed_def neq_Nil_conv)
    have "\<exists>s'. eachE (fn_clear n) (h_owned h) (s\<lparr>fn_running := hs\<rparr>) = Inr s'"
      using assms(1,2) live by (intro each_clear_acyclic) (simp_all add: owns_def fn_ok_def)
    then show ?thesis using Return r by (simp add: fn_exec_def end_call_def)
  qed (use clear in \<open>simp_all add: fn_exec_def fn_assign_null_def fn_destruct_def\<close>)
qed

section \<open>Soundness\<close>

text \<open>
  C19. A program that uses function objects in any way is in a sound state after every operation:
  no memory was freed twice, none is leaked once the objects are empty, no handler was called
  twice, and so on (\<open>fn_sound\<close>). And its next operation does not fault, however many blocks it
  has used, unless it calls an empty function, which the assertion stops, or some function object
  owns itself, directly or through others. So only a cycle of ownership can make the program use
  freed memory, or free it twice.
\<close>

theorem function_objects_sound:
  assumes "fn_reachable s"
  shows "fn_sound s \<and>
    (acyclic (owns s) \<longrightarrow> fn_allowed op s \<longrightarrow> fn_next s < n \<longrightarrow>
      (case fn_exec n op s of
         Inr s' \<Rightarrow> fn_sound s'
       | Inl e \<Rightarrow> e = Assertion_failed \<and> (\<exists>v. op = Call v \<and> fn_callable s v = None)))"
proof -
  have ok: "fn_ok {} s" using assms by (rule fn_reachable_ok)
  have "case fn_exec n op s of Inr s' \<Rightarrow> fn_sound s'
      | Inl e \<Rightarrow> e = Assertion_failed \<and> (\<exists>v. op = Call v \<and> fn_callable s v = None)"
    if "acyclic (owns s)" "fn_allowed op s" "fn_next s < n"
    using fn_exec_acyclic [OF that(1) ok that(3,2)] fn_ok_sound [OF fn_exec_ok [OF _ that(2) ok]]
    by auto
  with fn_ok_sound [OF ok] show ?thesis by blast
qed

text \<open>What a construction does when the memory is granted.\<close>

definition fn_built :: "nat \<Rightarrow> 'u handler_obj \<Rightarrow> 'u fn_state \<Rightarrow> 'u fn_state" where
  "fn_built v h s = set_callable v (Some (fn_next s)) (s\<lparr>fn_next := Suc (fn_next s),
    fn_allocated := fn_allocated s @ [(h_alloc h, fn_next s)], fn_blocks := (fn_blocks s)(fn_next s \<mapsto> h)\<rparr>)"

lemma fn_reachable_built: "fn_reachable s \<Longrightarrow> fn_callable s v = None \<Longrightarrow> fn_reachable (fn_built v h s)"
  by (erule fn_reachable.Step [where op = "Construct Granted v h"])
    (simp_all add: fn_exec_def fn_allowed_def fn_construct_def allocate_handler_def Let_def fn_built_def)

text \<open>Three objects, the second of which owns the third; the first is moved over the second and called.\<close>

definition built_three :: "nat fn_state" where
  "built_three = fn_built 2 \<lparr>h_code = 9, h_owned = [], h_alloc = 0\<rparr>
    (fn_built 1 \<lparr>h_code = 8, h_owned = [3], h_alloc = 1\<rparr> (fn_built 3 \<lparr>h_code = 7, h_owned = [], h_alloc = 0\<rparr> fn_start))"

lemma built_three_reachable: "fn_reachable built_three"
  unfolding built_three_def
  by (intro fn_reachable_built Start) (simp_all add: fn_built_def fn_start_def)

lemma built_three_owns: "owns built_three = {(1, 3)}"
  by (auto simp: owns_def built_three_def fn_built_def fn_start_def split: if_splits)

lemma function_objects_sound_witness:
  "\<exists>s'. fn_exec 9 (Move_assign 1 2) built_three = Inr s' \<and> fn_freed s' = [(1, 1), (0, 0)] \<and> fn_sound s'"
proof -
  have "acyclic (owns built_three)"
    by (simp add: built_three_owns acyclic_insert) (simp add: acyclic_def)
  moreover have "fn_allowed (Move_assign 1 2) built_three" "fn_next built_three < 9"
    by (simp_all add: fn_allowed_def built_three_def fn_built_def fn_start_def)
  moreover have run: "\<exists>s'. fn_exec 9 (Move_assign 1 2) built_three = Inr s' \<and> fn_freed s' = [(1, 1), (0, 0)]"
    by (simp add: built_three_def fn_built_def fn_start_def fn_exec_def fn_move_assign_def fn_move_construct_def
        exchange_callable_def dealloc_impl_def take_handler_def numeral_eq_Suc)
  ultimately show ?thesis
    using function_objects_sound [OF built_three_reachable, of "Move_assign 1 2" 9] by auto
qed

text \<open>
  Clearing a function object, and so destroying it or assigning to it, comes to its end without
  touching freed memory when no object owns itself; the object is empty then, the calls under way
  and the counts of calls are as they were.
\<close>

theorem clear_terminates:
  assumes "fn_reachable s" and "acyclic (owns s)" and "fn_next s < n"
  shows "\<exists>s'. fn_clear n v s = Inr s' \<and> fn_callable s' v = None \<and> fn_called s' = fn_called s \<and>
    fn_running s' = fn_running s"
proof -
  have ok: "fn_ok {} s" using assms(1) by (rule fn_reachable_ok)
  obtain s' where s': "fn_clear n v s = Inr s'"
    using fn_clear_acyclic [OF assms(2) subset_refl ok, of v n] live_finite [OF ok] assms(3) by auto
  from fn_clear_frame [OF this ok] fn_clear_null [OF this] show ?thesis
    by (simp add: s' fn_frame_def)
qed

lemma eachE_reaches:
  assumes "x \<in> set xs" and "eachE f xs s = Inr s'" and "P s"
    and "\<And>x s s'. f x s = Inr s' \<Longrightarrow> P s \<Longrightarrow> P s'"
  shows "\<exists>t t'. P t \<and> f x t = Inr t'"
  using assms(1-3)
proof (induction xs arbitrary: s)
  case Nil
  then show ?case by simp
next
  case (Cons y ys)
  then obtain s1 where "f y s = Inr s1" "eachE f ys s1 = Inr s'" by auto
  with Cons assms(4) show ?case by (metis set_ConsD)
qed

text \<open>
  C27. Clearing a function object whose handler owns that very object (for instance through the last
  pointer to the connection it is a member of) is undefined: the handler's block has been freed
  while the pointer to it is still set, and the destruction of the handler clears the object
  again, so memory that has been freed is moved from and freed once more. However much fuel there
  is, it does not run out. Calling the object is sound: the pointer is null and the block freed
  before the handler runs.
\<close>

theorem clear_reenters:
  assumes "fn_reachable s" and "fn_callable s v = Some a" and "fn_blocks s a = Some h"
    and "v \<in> set (h_owned h)" and "fn_next s < n"
  shows "fn_clear n v s = Inl Undefined_behaviour \<and>
    (\<exists>s1. take_handler a s = Inr (h, s1) \<and> fn_callable s1 v = Some a \<and>
      (h_alloc h, a) \<in> set (fn_freed s1) \<and> take_handler a s1 = Inl Undefined_behaviour) \<and>
    (\<exists>s1. begin_call v s = Inr s1 \<and> fn_running s1 = h # fn_running s \<and> fn_blocks s1 a = None \<and>
      (\<forall>n. fn_clear (Suc n) v s1 = Inr s1))"
proof (intro conjI)
  have ok: "fn_ok {} s" using assms(1) by (rule fn_reachable_ok)
  obtain s1 where t: "take_handler a s = Inr (h, s1)" using assms(3) by (simp add: take_handler_def)
  have s1: "fn_callable s1 = fn_callable s" using t assms(3) by (auto simp: take_handler_def)
  have "fn_clear n v s \<noteq> Inr s'" for s'
  proof
    assume c: "fn_clear n v s = Inr s'"
    then obtain k where n: "n = Suc k" by (cases n) simp_all
    obtain s2 where e: "eachE (fn_clear k) (h_owned h) s1 = Inr s2"
      using c assms(2) t by (auto simp: n dealloc_impl_def)
    let ?P = "fn_frame {v} s1"
    have "?P s1"
      using ok t assms(2) by (auto simp: fn_frame_def fn_ok_def intro: books_take dest: owned_take)
    moreover have "?P u'" if "fn_clear k w u = Inr u'" "?P u" for w u u'
      using fn_clear_frame [OF that(1), of "{v}"] that(2) by (auto simp: fn_frame_def)
    ultimately obtain u u' where u: "?P u" "fn_clear k v u = Inr u'"
      using eachE_reaches [OF assms(4) e, of ?P] by blast
    then obtain b where "fn_callable u v = Some b" "fn_blocks u b = None"
      by (auto simp: fn_frame_def fn_ok_def fn_owned_def)
    then show False
      using u(2) by (cases k) (auto simp: dealloc_impl_def take_handler_def)
  qed
  moreover have "finite (dom (fn_blocks s))" "card (dom (fn_blocks s)) < n"
    using live_finite [OF ok] assms(5) by simp_all
  ultimately show "fn_clear n v s = Inl Undefined_behaviour"
    using fn_clear_fault by (cases "fn_clear n v s") blast+
  show "\<exists>s1. take_handler a s = Inr (h, s1) \<and> fn_callable s1 v = Some a \<and>
      (h_alloc h, a) \<in> set (fn_freed s1) \<and> take_handler a s1 = Inl Undefined_behaviour"
    using assms(2,3) by (simp add: take_handler_def)
  show "\<exists>s1. begin_call v s = Inr s1 \<and> fn_running s1 = h # fn_running s \<and> fn_blocks s1 a = None \<and>
      (\<forall>n. fn_clear (Suc n) v s1 = Inr s1)"
    using assms(2,3) by (simp add: begin_call_def exchange_callable_def take_handler_def)
qed

lemma clear_reenters_witness:
  "\<exists>s s1 :: nat fn_state. fn_callable s 1 = Some 0 \<and> fn_clear 2 1 s = Inl Undefined_behaviour \<and>
    begin_call 1 s = Inr s1 \<and> fn_clear 1 1 s1 = Inr s1"
proof -
  let ?h = "\<lparr>h_code = 7 :: nat, h_owned = [1], h_alloc = 0\<rparr>"
  define s where "s = fn_built 1 ?h fn_start"
  have r: "fn_reachable s" unfolding s_def by (rule fn_reachable_built [OF Start]) (simp add: fn_start_def)
  have "fn_callable s 1 = Some 0" "fn_blocks s 0 = Some ?h" "fn_next s < 2"
    by (simp_all add: s_def fn_built_def fn_start_def)
  with clear_reenters [OF r this(1,2), of 2] show ?thesis by auto
qed

end
