(* ===== verification/Spec2Isabelle.thy ===== *)
theory Spec2Isabelle
  imports Tcp_Reorder Reachable Http_Proxy Socks_Account Double_Error Graph Udp_Delivery Connect_Range Tcp_Session
    Run_Throws Io_Context Exceptions Function_Object
begin

text \<open>
  A model of libsimulator, a network simulator behind the interface of Boost.Asio: programs written
  against Asio's sockets, timers and resolvers run on simulated nodes, with a simulated clock and
  a simulated network in between. Source files are named relative to \<open>src/src\<close> (\<open>.cpp\<close>) and
  \<open>src/include/simulator\<close> (\<open>.hpp\<close>).

  The shape of the model. Every C++ object that others point at (socket, acceptor, queue, channel,
  forwarder, resolver, node) is named by a number, and the record \<open>world\<close> (theory \<open>World\<close>) holds
  the state of each kind, the clock with the armed timers and the posted jobs, the port tables,
  the memory and the capture file. An operation takes the world and returns \<open>fault + world\<close>:
  \<open>Inl\<close> is an exception, a failed assertion, undefined behaviour or the end of the fuel. A
  function object is a value of the type \<open>job\<close>, either one of the library's own continuations or a
  job \<open>App u\<close> of the application, so a posted handler can be told apart from any other. An
  operation that hands a packet to the network takes \<open>forward_packet\<close> as the parameter \<open>fwd\<close>, because a
  route without a queue delivers before the call returns; theory \<open>Network\<close> ties the knot. The
  integers that can wrap are words (ports, sequence numbers, addresses, bytes); those of the
  C++ type \<open>int\<close> whose overflow would be undefined are kept as \<open>int\<close>.

  Parts and theories, bottom up:

    \<^item> \<open>Sim_Prelude\<close>: faults and their sequencing, memory, C division. \<open>Ord_Map\<close>: \<open>std::map\<close> as a
      sorted list, with the locale of its laws. \<open>Decimal\<close>: numbers as text.
    \<^item> \<open>Timers\<close>: \<open>high_resolution_clock.cpp\<close>, \<open>high_resolution_timer.cpp\<close> and the timer queue of
      \<open>simulation.cpp\<close>. Arming keeps the timers in the stable order of their expiries; firing runs
      those that are due.
    \<^item> \<open>Net_Types\<close> (addresses, packets, routes, channels), \<open>Ports\<close> (the tables of \<open>simulation.cpp\<close> and
      the binding of \<open>io_service.cpp\<close>; a successful bind is exclusive), \<open>Double_Time\<close> and
      \<open>Double_Error\<close> (the floating point transmission times, and how far off they are), \<open>Pcap\<close>
      (\<open>pcap.cpp\<close>; what is logged reads back).
    \<^item> \<open>World\<close>, then the objects: \<open>Tcp_Socket\<close>, \<open>Acceptor\<close>, \<open>Udp_Socket\<close>, \<open>Queue\<close>, and \<open>Network\<close>
      (\<open>forward_packet\<close>, \<open>nat.cpp\<close>, \<open>sink_forwarder.cpp\<close>).
    \<^item> \<open>Tcp_Flow\<close> (the send window and the reorder buffer, in the locale \<open>sound_net\<close> of a network that
      keeps the invariant), \<open>Tcp_Stream\<close> (writing, reassembly and reading) and \<open>Tcp_Reorder\<close> (the stream that
      is read is the one that was written, in whatever order its segments arrive).
      \<open>Udp_Unheard\<close>: the network makes no UDP socket wait for a datagram.
    \<^item> \<open>Resolver\<close> (\<open>resolver.cpp\<close>), \<open>Default_Config\<close> (\<open>default_config.cpp\<close>, the construction of nodes),
      \<open>Simulation\<close> (the event loop \<open>simulation::run\<close>), \<open>Graph\<close> (\<open>dump_network_graph\<close>).
    \<^item> \<open>Reachable\<close>: the worlds a program can bring about, as an inductive predicate over every operation
      on TCP sockets and acceptors and the jobs of the network; the interpretation of \<open>sound_net\<close>
      on \<open>forward_packet\<close>, and the flight accounting in every reachable world.
    \<^item> \<open>Steps\<close> (the event loop in small steps, which are what \<open>run\<close> does) and \<open>Delivery\<close> (a packet on its
      way through the queues of a network that is otherwise quiet) put the parts together:
      \<open>Udp_Delivery\<close> follows a datagram from \<open>send_to\<close> to the receiver's handler, \<open>Tcp_Connect\<close> the SYN and
      the SYN+ACK from \<open>async_connect\<close> to both handlers, \<open>Tcp_Transfer\<close> a segment over the connection and its
      acknowledgement, \<open>Tcp_Session\<close> both, from two fresh sockets on, and \<open>Connect_Range\<close> the attempts of
      \<open>async_connect\<close> over a range of endpoints (\<open>simulator.hpp\<close>), with the closing functions for Beast.
    \<^item> \<open>Run_Throws\<close>: the event loop with handlers of the application that throw, and what they leave
      behind; without exceptions it is the loop of \<open>Simulation\<close>. \<open>Io_Context\<close>: the calls of a node that
      assert, its executors, and the timer of \<open>utils.hpp\<close>.
    \<^item> \<open>Exceptions\<close>: the overloads of the socket operations that throw the error code, and what the
      world is when they do.
    \<^item> \<open>Function_Object\<close>: \<open>function.hpp\<close> and \<open>handler_allocator.hpp\<close>, the memory behind the handlers. It
      stands beside the other theories, in which a handler is a value and an empty function \<open>None\<close>.
    \<^item> The applications that come with the library: \<open>Http_Message\<close> (text of requests and responses),
      \<open>Http_Server\<close>, \<open>Http_Proxy\<close>, \<open>Socks_Relay\<close>, \<open>Socks_Server\<close> and \<open>Socks_Account\<close> (runs of a SOCKS server, as
      an inductive predicate over its events). Each object is a record beside the
      world; its callbacks are events, turned into jobs of the application by an injection \<open>ev\<close>,
      and a dispatcher (\<open>http_handle\<close>, \<open>proxy_handle\<close>, \<open>socks_handle\<close>) gives each event its handler.

  What is shown. From end to end, through the event loop: two fresh sockets connect and bytes written
  to one are read from the other, a datagram is delivered, all at the times the queues on the way
  make of it, and a range of endpoints is tried in order. For streams: reassembly, segmentation and
  reading, the flight accounting. For the clock: the loop runs each handler once, at its time, in
  order, and gives up a simulation that does not advance; an exception of a handler leaves the
  simulation stopped. For the network: queues count exactly and always have an event pending
  while they hold packets, forwarding ends at the first queue, every route is in the dumped
  graph. For the servers: requests read back as printed, also when they arrive in pieces;
  responses are those of the registered handler; the proxies forward what the client meant, to
  where it meant it, and UDP answers find their way back; a SOCKS server counts what it was asked and learns the names it
  has sent to. For function objects: what is allocated is freed once, no handler is called twice,
  and only an object that owns itself can make an operation use freed memory. Some of the properties of
  errors show behaviour the code does not mean to have: each is proved of the model of the code
  as it is.

  Bounds and fuel. \<open>forward_packet n\<close> passes at most \<open>n\<close> hops before a queue takes the packet, and
  \<open>packet_reaches_queue\<close> shows that the hops in front of the queue are enough. The event loop
  takes fuel for its rounds; \<open>run_fires_in_order\<close> shows how much is enough for jobs that arm
  nothing, \<open>busy_loop_detected\<close> that 1001 rounds are for a clock that stands still, and \<open>run_steps\<close>
  that as many rounds as steps, and at most 1000 of them, are for any activity that comes to its
  end: four steps for each queue a packet passes, two for each failed attempt to connect.
  Clearing a function takes fuel for the depth of ownership; as much as there are live blocks is enough,
  whether or not ownership has cycles (\<open>fn_clear_fault\<close>). Other loops
  terminate by a measure.

  Parameters. Code that is not in the repository is an argument of the definitions that use it:
  Boost's \<open>make_address\<close> and \<open>address::to_string\<close>, \<open>async_read\<close> and \<open>async_write\<close> (which transfer a whole
  buffer and then call the handler), the option numbers of the system's headers, printed pointers
  and the iteration order of unordered sets.

  Not modelled: the one-line calls of \<open>io_context\<close> into the simulation, which the model makes directly; the
  end of an object's life when its last \<open>shared_ptr\<close> goes (a SOCKS connection lives as long as its server);
  overflow of \<open>int\<close> in byte counts (a UDP datagram whose size does not fit one) and in the counters of the servers;
  two NATs with one external address, which are one hop here; what is in the capture file when \<open>to_v4\<close> throws
  in the middle of a record; what is printed to the console.
\<close>

end
